(* ===== verification/Rust_Prelude.thy ===== *)
theory Rust_Prelude
  imports Main "HOL-Library.Word"
begin

unbundle bit_operations_syntax

text \<open>
  Shared vocabulary of the development: the machine integer types of Rust, panics as values,
  arithmetic under both build profiles (overflow checks on or off), byte order on a
  little-endian target, and the functions of \<^verbatim>\<open>core\<close>/\<^verbatim>\<open>std\<close> on strings that several
  components call (\<^verbatim>\<open>split\<close>, \<^verbatim>\<open>lines\<close>, \<^verbatim>\<open>trim\<close>, \<^verbatim>\<open>from_str_radix\<close>, hexadecimal formatting).

  A Rust \<^verbatim>\<open>String\<close> is the list of the bytes of its UTF-8 encoding; a \<^typ>\<open>char\<close> is one byte.
  \<^verbatim>\<open>char::is_whitespace\<close> is modelled on its ASCII range (the two line-oriented configuration
  formats of the repository are ASCII).
\<close>

section \<open>Integer types, panics, checked arithmetic\<close>

type_synonym u8 = "8 word"
type_synonym u16 = "16 word"
type_synonym u32 = "32 word"
type_synonym u64 = "64 word"
type_synonym bytes = "u8 list"

named_theorems rust_defs
named_theorems rust_simps

text \<open>A computation that may panic.\<close>

datatype 'a run = Ret 'a | Panic

primrec bind_run :: "'a run \<Rightarrow> ('a \<Rightarrow> 'b run) \<Rightarrow> 'b run" where
  "bind_run (Ret x) f = f x"
| "bind_run Panic f = Panic"

lemma bind_run_Ret_iff [rust_simps]:
  "bind_run m f = Ret y \<longleftrightarrow> (\<exists>x. m = Ret x \<and> f x = Ret y)"
  by (cases m) auto

lemma bind_run_cong [fundef_cong]:
  "m = m' \<Longrightarrow> (\<And>x. m' = Ret x \<Longrightarrow> f x = f' x) \<Longrightarrow> bind_run m f = bind_run m' f'"
  by (cases m') auto

text \<open>A computation that may also run forever (\<^const>\<open>None\<close>).\<close>

definition bind_opt_run :: "'a run option \<Rightarrow> ('a \<Rightarrow> 'b run option) \<Rightarrow> 'b run option" where
  "bind_opt_run m f = (case m of None \<Rightarrow> None | Some Panic \<Rightarrow> Some Panic | Some (Ret x) \<Rightarrow> f x)"

lemma bind_opt_run_Ret:
  "bind_opt_run m f = Some (Ret y) \<longleftrightarrow> (\<exists>x. m = Some (Ret x) \<and> f x = Some (Ret y))"
  by (auto simp: bind_opt_run_def split: option.splits run.splits)

lemma bind_opt_run_simps [simp]:
  "bind_opt_run None f = None" "bind_opt_run (Some Panic) f = Some Panic" "bind_opt_run (Some (Ret x)) f = f x"
  by (simp_all add: bind_opt_run_def)

lemma bind_opt_run_Some:
  "m \<noteq> None \<Longrightarrow> (\<And>x. m = Some (Ret x) \<Longrightarrow> f x \<noteq> None) \<Longrightarrow> bind_opt_run m f \<noteq> None"
  by (auto simp: bind_opt_run_def split: option.splits run.splits)

text \<open>
  \<^verbatim>\<open>a + b\<close> on \<^verbatim>\<open>u32\<close>: with overflow checks (the dev profile) an overflow panics, without them
  (the release profile) it wraps. The profile is the argument \<^term>\<open>oc\<close>.
\<close>

definition add_u32 :: "bool \<Rightarrow> u32 \<Rightarrow> u32 \<Rightarrow> u32 run" where
  "add_u32 oc a b = (if oc \<and> unat a + unat b \<ge> 2 ^ 32 then Panic else Ret (a + b))"

definition add_u64 :: "bool \<Rightarrow> u64 \<Rightarrow> u64 \<Rightarrow> u64 run" where
  "add_u64 oc a b = (if oc \<and> unat a + unat b \<ge> 2 ^ 64 then Panic else Ret (a + b))"

lemma add_u32_Ret: "add_u32 oc a b = Ret c \<Longrightarrow> c = a + b"
  by (auto simp: add_u32_def split: if_splits)

lemma add_u32_fits: "unat a + unat b < 2 ^ 32 \<Longrightarrow> add_u32 oc a b = Ret (a + b)"
  by (simp add: add_u32_def)

lemma add_u32_release [simp]: "add_u32 False a b = Ret (a + b)"
  by (simp add: add_u32_def)

lemma add_u64_fits: "unat a + unat b < 2 ^ 64 \<Longrightarrow> add_u64 oc a b = Ret (a + b)"
  by (simp add: add_u64_def)

text \<open>For evaluation: an overflow is seen on the wrapped sum.\<close>

lemma word_add_overflow:
  fixes a b :: "'a::len word"
  shows "a + b < a \<longleftrightarrow> 2 ^ LENGTH('a) \<le> unat a + unat b"
proof (cases "2 ^ LENGTH('a) \<le> unat a + unat b")
  case True
  have "unat a < 2 ^ LENGTH('a)" and b: "unat b < 2 ^ LENGTH('a)" by (rule unsigned_less)+
  then have less: "unat a + unat b - 2 ^ LENGTH('a) < 2 ^ LENGTH('a)" by linarith
  have "unat (a + b) = unat a + unat b - 2 ^ LENGTH('a)"
    unfolding unat_word_ariths(1) using True by (simp only: le_mod_geq mod_less [OF less])
  with True b show ?thesis
    by (simp only: word_less_nat_alt simp_thms)
next
  case False
  then have "unat (a + b) = unat a + unat b"
    unfolding unat_word_ariths(1) by simp
  with False show ?thesis by (simp add: word_less_nat_alt)
qed

lemma add_u32_code [code]: "add_u32 oc a b = (if oc \<and> a + b < a then Panic else Ret (a + b))"
  unfolding add_u32_def word_add_overflow by simp

lemma add_u64_code [code]: "add_u64 oc a b = (if oc \<and> a + b < a then Panic else Ret (a + b))"
  unfolding add_u64_def word_add_overflow by simp

section \<open>Byte order\<close>

text \<open>
  The eBPF objects are built for \<^verbatim>\<open>bpfel-unknown-none\<close>: a native 16-bit load is little endian,
  and \<^verbatim>\<open>u16::from_be\<close> swaps the two bytes.
\<close>

definition le16 :: "u8 \<Rightarrow> u8 \<Rightarrow> u16" where
  "le16 b0 b1 = push_bit 8 (ucast b1) OR ucast b0"

definition be16 :: "u8 \<Rightarrow> u8 \<Rightarrow> u16" where
  "be16 b0 b1 = push_bit 8 (ucast b0) OR ucast b1"

definition u16_from_be :: "u16 \<Rightarrow> u16" where
  "u16_from_be x = push_bit 8 x OR drop_bit 8 x"

lemma bit_le16: "bit (le16 b0 b1) n \<longleftrightarrow> (if n < 8 then bit b0 n else n < 16 \<and> bit b1 (n - 8))"
  by (auto simp: le16_def bit_or_iff bit_push_bit_iff bit_ucast_iff dest: bit_imp_le_length)

lemma bit_be16: "bit (be16 b0 b1) n \<longleftrightarrow> (if n < 8 then bit b1 n else n < 16 \<and> bit b0 (n - 8))"
  by (auto simp: be16_def bit_or_iff bit_push_bit_iff bit_ucast_iff dest: bit_imp_le_length)

lemma be16_le16_swap: "be16 b0 b1 = le16 b1 b0"
  by (simp add: be16_def le16_def)

lemma u16_from_be_le16 [simp]: "u16_from_be (le16 b0 b1) = be16 b0 b1"
proof (rule bit_word_eqI)
  fix n :: nat
  assume "n < LENGTH(16)"
  then have n: "n < 16" by simp
  show "bit (u16_from_be (le16 b0 b1)) n = bit (be16 b0 b1) n"
    using n
    by (auto simp: u16_from_be_def bit_or_iff bit_push_bit_iff bit_drop_bit_eq bit_le16 bit_be16
        dest: bit_imp_le_length)
qed

lemma be16_inject: "be16 a b = be16 c d \<longleftrightarrow> a = c \<and> b = d"
proof
  assume eq: "be16 a b = be16 c d"
  have "bit a n = bit c n" if "n < 8" for n
    using arg_cong [OF eq, where f = "\<lambda>w. bit w (n + 8)"] that by (simp add: bit_be16)
  moreover have "bit b n = bit d n" if "n < 8" for n
    using arg_cong [OF eq, where f = "\<lambda>w. bit w n"] that by (simp add: bit_be16)
  ultimately show "a = c \<and> b = d"
    by (simp add: bit_eq_iff)
qed simp

section \<open>Strings\<close>

definition as_bytes :: "string \<Rightarrow> bytes" where
  "as_bytes s = map of_char s"

definition byte_val :: "char \<Rightarrow> nat" where
  "byte_val c = of_char c"

lemma length_as_bytes [simp]: "length (as_bytes s) = length s"
  by (simp add: as_bytes_def)

lemma as_bytes_append [simp]: "as_bytes (s @ t) = as_bytes s @ as_bytes t"
  by (simp add: as_bytes_def)

lemma byte_val_less [simp]: "byte_val c < 256"
  by (simp add: byte_val_def)

lemma of_char_eq_byte_val: "(of_char c :: u8) = of_nat (byte_val c)"
  by (cases c) (simp add: byte_val_def)

lemma byte_val_inject [simp]: "byte_val c = byte_val d \<longleftrightarrow> c = d"
  by (simp add: byte_val_def)

lemma as_bytes_inject: "as_bytes s = as_bytes t \<longleftrightarrow> s = t"
proof -
  have "inj (of_char :: char \<Rightarrow> u8)"
  proof (rule injI)
    fix c d :: char
    assume "(of_char c :: u8) = of_char d"
    then have "unat (of_nat (byte_val c) :: u8) = unat (of_nat (byte_val d) :: u8)"
      by (simp add: of_char_eq_byte_val)
    then have "byte_val c mod 256 = byte_val d mod 256"
      by (simp add: unat_of_nat)
    then show "c = d" by simp
  qed
  then show ?thesis
    by (simp add: as_bytes_def inj_map_eq_map)
qed

text \<open>\<^verbatim>\<open>str::is_char_boundary\<close> on the bytes of a string: a continuation byte is not a boundary.\<close>

definition is_char_boundary :: "string \<Rightarrow> nat \<Rightarrow> bool" where
  "is_char_boundary s i \<longleftrightarrow>
     i = length s \<or> (i < length s \<and> \<not> (128 \<le> byte_val (s ! i) \<and> byte_val (s ! i) < 192))"

lemma ascii_char_boundary:
  "(\<And>c. c \<in> set s \<Longrightarrow> byte_val c < 128) \<Longrightarrow> i \<le> length s \<Longrightarrow> is_char_boundary s i"
  using nth_mem [of i s] by (auto simp: is_char_boundary_def not_le dest: le_neq_implies_less)

text \<open>\<^verbatim>\<open>&s[i..j]\<close>: panics when the range is not inside the string or cuts a character.\<close>

definition str_slice :: "string \<Rightarrow> nat \<Rightarrow> nat \<Rightarrow> string run" where
  "str_slice s i j =
     (if i \<le> j \<and> j \<le> length s \<and> is_char_boundary s i \<and> is_char_boundary s j
      then Ret (take (j - i) (drop i s)) else Panic)"

fun starts_with :: "string \<Rightarrow> string \<Rightarrow> bool" where
  "starts_with [] p = (p = [])"
| "starts_with (c # cs) [] = True"
| "starts_with (c # cs) (d # p) = (c = d \<and> starts_with cs p)"

lemma starts_with_iff: "starts_with s p \<longleftrightarrow> (\<exists>t. s = p @ t)"
  by (induction s p rule: starts_with.induct) auto

text \<open>\<^verbatim>\<open>s.split(c)\<close>: always at least one piece.\<close>

fun split_on :: "char \<Rightarrow> string \<Rightarrow> string list" where
  "split_on c [] = [[]]"
| "split_on c (x # xs) =
     (if x = c then [] # split_on c xs
      else case split_on c xs of [] \<Rightarrow> [[x]] | p # ps \<Rightarrow> (x # p) # ps)"

lemma split_on_nonempty [simp]: "split_on c s \<noteq> []"
  by (induction s) (auto split: list.splits)

lemma split_on_no_sep: "c \<notin> set s \<Longrightarrow> split_on c s = [s]"
  by (induction s) auto

lemma split_on_append_sep:
  "c \<notin> set s \<Longrightarrow> split_on c (s @ c # t) = s # split_on c t"
  by (induction s) auto

fun join_with :: "char \<Rightarrow> string list \<Rightarrow> string" where
  "join_with c [] = []"
| "join_with c [p] = p"
| "join_with c (p # q # ps) = p @ c # join_with c (q # ps)"

lemma split_on_join_with:
  "ps \<noteq> [] \<Longrightarrow> (\<And>p. p \<in> set ps \<Longrightarrow> c \<notin> set p) \<Longrightarrow> split_on c (join_with c ps) = ps"
  by (induction c ps rule: join_with.induct) (auto simp: split_on_no_sep split_on_append_sep)

text \<open>\<^verbatim>\<open>s.trim_end_matches(c)\<close> and \<^verbatim>\<open>s.trim_matches(c)\<close>.\<close>

definition trim_end_matches :: "char \<Rightarrow> string \<Rightarrow> string" where
  "trim_end_matches c s = rev (dropWhile (\<lambda>x. x = c) (rev s))"

definition trim_matches :: "char \<Rightarrow> string \<Rightarrow> string" where
  "trim_matches c s = trim_end_matches c (dropWhile (\<lambda>x. x = c) s)"

lemma trim_end_matches_snoc [simp]: "trim_end_matches c (s @ [c]) = trim_end_matches c s"
  by (simp add: trim_end_matches_def)

lemma trim_end_matches_id: "s = [] \<or> last s \<noteq> c \<Longrightarrow> trim_end_matches c s = s"
  by (cases s rule: rev_cases) (auto simp: trim_end_matches_def)

lemma trim_end_matches_last: "trim_end_matches c s = [] \<or> last (trim_end_matches c s) \<noteq> c"
  by (induction s rule: rev_induct) (auto simp: trim_end_matches_def)

lemma trim_end_matches_idem [simp]:
  "trim_end_matches c (trim_end_matches c s) = trim_end_matches c s"
  by (rule trim_end_matches_id) (rule trim_end_matches_last)

definition is_ws :: "char \<Rightarrow> bool" where
  "is_ws c \<longleftrightarrow> byte_val c = 32 \<or> (9 \<le> byte_val c \<and> byte_val c \<le> 13)"

definition trim :: "string \<Rightarrow> string" where
  "trim s = rev (dropWhile is_ws (rev (dropWhile is_ws s)))"

text \<open>\<^verbatim>\<open>s.split_whitespace()\<close>: the maximal runs of non-whitespace characters.\<close>

function split_whitespace :: "string \<Rightarrow> string list" where
  "split_whitespace s =
     (case dropWhile is_ws s of
        [] \<Rightarrow> []
      | c # cs \<Rightarrow> (c # takeWhile (\<lambda>x. \<not> is_ws x) cs)
                  # split_whitespace (dropWhile (\<lambda>x. \<not> is_ws x) cs))"
  by pat_completeness auto
termination
proof (relation "measure length", simp)
  fix s c cs
  assume "dropWhile is_ws s = c # cs"
  then have "length (c # cs) \<le> length s"
    by (metis length_dropWhile_le)
  moreover have "length (dropWhile (\<lambda>x. \<not> is_ws x) cs) \<le> length cs"
    by (rule length_dropWhile_le)
  ultimately show "(dropWhile (\<lambda>x. \<not> is_ws x) cs, s) \<in> measure length"
    by simp
qed

declare split_whitespace.simps [simp del]

text \<open>\<^verbatim>\<open>lines()\<close>: a final newline ends the last line; a carriage return before it is dropped.\<close>

definition strip_cr :: "string \<Rightarrow> string" where
  "strip_cr s = (if s \<noteq> [] \<and> last s = CHR 0x0D then butlast s else s)"

fun str_lines :: "string list \<Rightarrow> string list" where
  "str_lines [] = []"
| "str_lines [s] = (if s = [] then [] else [s])"
| "str_lines (s # t # ts) = strip_cr s # str_lines (t # ts)"

definition lines :: "string \<Rightarrow> string list" where
  "lines s = str_lines (split_on CHR 0x0A s)"

definition unlines :: "string list \<Rightarrow> string" where
  "unlines ls = concat (map (\<lambda>l. l @ [CHR 0x0A]) ls)"

definition clean_line :: "string \<Rightarrow> bool" where
  "clean_line l \<longleftrightarrow> CHR 0x0A \<notin> set l \<and> (l = [] \<or> last l \<noteq> CHR 0x0D)"

lemma unlines_append: "unlines (xs @ ys) = unlines xs @ unlines ys"
  by (simp add: unlines_def)

lemma lines_unlines: "list_all clean_line ls \<Longrightarrow> lines (unlines ls) = ls"
proof (induction ls)
  case Nil
  show ?case by (simp add: lines_def unlines_def)
next
  case (Cons l ls)
  obtain p ps where split: "split_on CHR 0x0A (unlines ls) = p # ps"
    by (cases "split_on CHR 0x0A (unlines ls)") auto
  have "split_on CHR 0x0A (unlines (l # ls)) = l # p # ps"
    using Cons.prems split by (simp add: unlines_def split_on_append_sep clean_line_def)
  moreover have "strip_cr l = l"
    using Cons.prems by (auto simp: strip_cr_def clean_line_def)
  ultimately show ?case
    using Cons split by (simp add: lines_def)
qed

end
