(* ===== verification/Aya.thy ===== *)
theory Aya
  imports Rust_Prelude
begin

text \<open>
  The calls of \<^verbatim>\<open>aya\<close> that the loaders of the kernel programs make, as a record of operations on the
  state of the system: each changes the state or fails. The sequence every loader goes through for a
  program (find it, convert it, load it, attach it) and for a map is defined once, and so is the wait for
  \<^verbatim>\<open>Ctrl+C\<close>, which can fail, with the three
  ways a loader can end: an error returned by \<^verbatim>\<open>?\<close>, an \<^verbatim>\<open>unwrap\<close> of a missing name, or the end of \<^verbatim>\<open>main\<close>.
\<close>

record 'k aya_sys =
  bpf_load :: "string \<Rightarrow> 'k \<Rightarrow> 'k option"
  logger_init :: "'k \<Rightarrow> 'k option"
  has_program :: "string \<Rightarrow> 'k \<Rightarrow> bool"
  program_is :: "string \<Rightarrow> string \<Rightarrow> 'k \<Rightarrow> bool"
  program_load :: "string \<Rightarrow> 'k \<Rightarrow> 'k option"
  program_attach :: "string \<Rightarrow> string list \<Rightarrow> 'k \<Rightarrow> 'k option"
  has_map :: "string \<Rightarrow> 'k \<Rightarrow> bool"
  map_is :: "string \<Rightarrow> string \<Rightarrow> 'k \<Rightarrow> bool"
  ctrl_c :: "'k \<Rightarrow> bool"

datatype ('k, 'a) start_result = Failed 'k | Unwrap_panic 'k | Finished 'a

definition or_fail :: "'k \<Rightarrow> 'k option \<Rightarrow> ('k \<Rightarrow> ('k, 'a) start_result) \<Rightarrow> ('k, 'a) start_result" where
  "or_fail k r f = (case r of None \<Rightarrow> Failed k | Some k' \<Rightarrow> f k')"

definition start_program ::
    "('k, 'z) aya_sys_scheme \<Rightarrow> string \<Rightarrow> string \<Rightarrow> string list \<Rightarrow> 'k \<Rightarrow> ('k \<Rightarrow> ('k, 'a) start_result)
     \<Rightarrow> ('k, 'a) start_result" where
  "start_program S kind name target k f =
     (if \<not> has_program S name k then Unwrap_panic k
      else if \<not> program_is S kind name k then Failed k
      else or_fail k (program_load S name k) (\<lambda>k1. or_fail k1 (program_attach S name target k1) f))"

definition take_map ::
    "('k, 'z) aya_sys_scheme \<Rightarrow> string \<Rightarrow> string \<Rightarrow> 'k \<Rightarrow> ('k, 'a) start_result \<Rightarrow> ('k, 'a) start_result" where
  "take_map S kind name k r =
     (if \<not> has_map S name k then Unwrap_panic k else if \<not> map_is S kind name k then Failed k else r)"

definition await_ctrl_c :: "('k, 'z) aya_sys_scheme \<Rightarrow> 'k \<Rightarrow> 'a \<Rightarrow> ('k, 'a) start_result" where
  "await_ctrl_c S k a = (if ctrl_c S k then Finished a else Failed k)"

lemma or_fail_cases:
  assumes "or_fail k r f = res" and "r = None \<Longrightarrow> res = Failed k \<Longrightarrow> P" and "\<And>k'. r = Some k' \<Longrightarrow> f k' = res \<Longrightarrow> P"
  shows P
  using assms by (auto simp: or_fail_def split: option.splits)

lemma or_fail_simps [simp]: "or_fail k None f = Failed k" "or_fail k (Some k') f = f k'"
  by (simp_all add: or_fail_def)

lemma take_map_Finished [simp]:
  "take_map S kind name k r = Finished a \<longleftrightarrow> has_map S name k \<and> map_is S kind name k \<and> r = Finished a"
  by (simp add: take_map_def)

section \<open>The contract\<close>

text \<open>
  What the documentation of \<^verbatim>\<open>aya\<close> promises of attachments: only \<^verbatim>\<open>attach\<close> makes one, and it makes exactly
  the one it names. The state a result leaves is \<open>end_state\<close>.
\<close>

fun end_state :: "('a \<Rightarrow> 'k) \<Rightarrow> ('k, 'a) start_result \<Rightarrow> 'k" where
  "end_state g (Failed k) = k"
| "end_state g (Unwrap_panic k) = k"
| "end_state g (Finished a) = g a"

locale aya_kernel =
  fixes S :: "('k, 'z) aya_sys_scheme" and attached :: "'k \<Rightarrow> (string \<times> string list) set"
  assumes bpf_load_attached: "bpf_load S img k = Some k' \<Longrightarrow> attached k' = attached k"
    and logger_attached: "logger_init S k = Some k' \<Longrightarrow> attached k' = attached k"
    and program_load_attached: "program_load S name k = Some k' \<Longrightarrow> attached k' = attached k"
    and attach_attached: "program_attach S name target k = Some k' \<Longrightarrow> attached k' = insert (name, target) (attached k)"
begin

lemmas attached_simps = bpf_load_attached logger_attached program_load_attached attach_attached

text \<open>A program that does not start leaves the attachments as they are; otherwise there is one more.\<close>

lemma start_program_outcome:
  "(\<exists>k'. attached k' = attached k \<and> start_program S kind name target k f \<in> {Failed k', Unwrap_panic k'}) \<or>
   (\<exists>k'. attached k' = insert (name, target) (attached k) \<and> start_program S kind name target k f = f k')"
proof (cases "has_program S name k \<and> program_is S kind name k \<and> program_load S name k \<noteq> None")
  case True
  then obtain k1 where k1: "program_load S name k = Some k1" by auto
  show ?thesis
  proof (cases "program_attach S name target k1")
    case None
    then have "start_program S kind name target k f = Failed k1"
      using True k1 by (simp add: start_program_def)
    then show ?thesis using program_load_attached [OF k1] by blast
  next
    case (Some k2)
    then have "start_program S kind name target k f = f k2"
      using True k1 by (simp add: start_program_def)
    then show ?thesis using program_load_attached [OF k1] attach_attached [OF Some] by metis
  qed
qed (auto simp: start_program_def)

lemma start_program_Finished:
  assumes "start_program S kind name target k f = Finished a"
  obtains k' where "attached k' = insert (name, target) (attached k)" and "f k' = Finished a"
  using start_program_outcome [of k kind name target f] assms by auto

lemma start_program_end_state:
  assumes "\<And>k'. attached k' = insert (name, target) (attached k) \<Longrightarrow> attached (end_state g (f k')) \<subseteq> A"
    and "attached k \<subseteq> A"
  shows "attached (end_state g (start_program S kind name target k f)) \<subseteq> A"
  using start_program_outcome [of k kind name target f]
proof (elim disjE exE conjE)
  fix k'
  assume "attached k' = insert (name, target) (attached k)" and "start_program S kind name target k f = f k'"
  then show ?thesis using assms(1) by simp
qed (use assms(2) in auto)

end

text \<open>The reference system: the attachments, and the categories of tracepoints it has.\<close>

record ref_kernel =
  rk_attached :: "(string \<times> string list) list"
  rk_rejects :: "string list"

definition ref_aya :: "ref_kernel aya_sys" where
  "ref_aya =
     \<lparr>bpf_load = (\<lambda>_. Some), logger_init = Some, has_program = (\<lambda>_ _. True), program_is = (\<lambda>_ _ _. True),
      program_load = (\<lambda>_. Some),
      program_attach = (\<lambda>name target k. if target \<noteq> [] \<and> hd target \<in> set (rk_rejects k) then None
        else Some (k\<lparr>rk_attached := (name, target) # rk_attached k\<rparr>)),
      has_map = (\<lambda>_ _. True), map_is = (\<lambda>_ _ _. True), ctrl_c = (\<lambda>_. True)\<rparr>"

lemma ref_aya_kernel:
  assumes "bpf_load S = bpf_load ref_aya" "logger_init S = logger_init ref_aya" "program_load S = program_load ref_aya"
    "program_attach S = program_attach ref_aya"
  shows "aya_kernel S (\<lambda>k. set (rk_attached k))"
  by unfold_locales (auto simp: assms ref_aya_def split: if_splits)

interpretation ref_aya: aya_kernel ref_aya "\<lambda>k. set (rk_attached k)"
  by (rule ref_aya_kernel) simp_all

end
