(* ===== verification/Xdp.thy ===== *)
theory Xdp
  imports Rust_Prelude
begin

text \<open>
  The execution environment of the XDP programs: a packet buffer delimited by \<open>data\<close> and
  \<open>data_end\<close> in a byte-addressed memory, native loads and stores through raw pointers, and the
  verdicts. The locale \<open>xdp_program\<close> is the memory contract every program has to meet (the
  kernel verifier's obligation): it reads and writes inside the packet only.
\<close>

record xdp_ctx =
  data :: nat
  data_end :: nat
  mem :: "nat \<Rightarrow> u8"

definition XDP_DROP :: u32 where "XDP_DROP = 1"
definition XDP_PASS :: u32 where "XDP_PASS = 2"
definition XDP_REDIRECT :: u32 where "XDP_REDIRECT = 4"

lemmas xdp_verdicts = XDP_DROP_def XDP_PASS_def XDP_REDIRECT_def

definition ETH_P_IP :: u16 where "ETH_P_IP = 0x0800"
definition ETH_P_IPV6 :: u16 where "ETH_P_IPV6 = 0x86DD"
definition ETH_P_8021Q :: u16 where "ETH_P_8021Q = 0x8100"

lemmas ether_types = ETH_P_IP_def ETH_P_IPV6_def ETH_P_8021Q_def

section \<open>Loads and stores\<close>

definition load_u16 :: "xdp_ctx \<Rightarrow> nat \<Rightarrow> u16" where
  "load_u16 ctx a = le16 (mem ctx a) (mem ctx (a + 1))"

definition load_bytes :: "xdp_ctx \<Rightarrow> nat \<Rightarrow> nat \<Rightarrow> bytes" where
  "load_bytes ctx a n = map (mem ctx) [a ..< a + n]"

definition store_bytes :: "nat \<Rightarrow> bytes \<Rightarrow> xdp_ctx \<Rightarrow> xdp_ctx" where
  "store_bytes a bs ctx =
     ctx\<lparr>mem := (\<lambda>x. if a \<le> x \<and> x < a + length bs then bs ! (x - a) else mem ctx x)\<rparr>"

lemma store_bytes_window [simp]:
  "data (store_bytes a bs ctx) = data ctx"
  "data_end (store_bytes a bs ctx) = data_end ctx"
  by (simp_all add: store_bytes_def)

lemma mem_store_bytes:
  "mem (store_bytes a bs ctx) x = (if a \<le> x \<and> x < a + length bs then bs ! (x - a) else mem ctx x)"
  by (simp add: store_bytes_def)

text \<open>The packet as a byte list.\<close>

definition frame :: "xdp_ctx \<Rightarrow> bytes" where
  "frame ctx = map (mem ctx) [data ctx ..< data_end ctx]"

lemma length_frame [simp]: "length (frame ctx) = data_end ctx - data ctx"
  by (simp add: frame_def)

lemma frame_nth: "i < data_end ctx - data ctx \<Longrightarrow> frame ctx ! i = mem ctx (data ctx + i)"
  by (simp add: frame_def)

lemma load_bytes_frame:
  "i + n \<le> data_end ctx - data ctx \<Longrightarrow> load_bytes ctx (data ctx + i) n = take n (drop i (frame ctx))"
  by (rule nth_equalityI) (auto simp: load_bytes_def frame_nth add.assoc)

lemma load_u16_frame:
  "i + 2 \<le> data_end ctx - data ctx \<Longrightarrow>
     load_u16 ctx (data ctx + i) = le16 (frame ctx ! i) (frame ctx ! (i + 1))"
  by (simp add: load_u16_def frame_nth)

text \<open>A context whose packet is a given list, at a given address.\<close>

definition packet_at :: "nat \<Rightarrow> bytes \<Rightarrow> xdp_ctx" where
  "packet_at a bs =
     \<lparr>data = a, data_end = a + length bs,
      mem = (\<lambda>x. if a \<le> x \<and> x < a + length bs then bs ! (x - a) else 0)\<rparr>"

lemma frame_packet_at [simp]: "frame (packet_at a bs) = bs"
  by (rule nth_equalityI) (auto simp: frame_def packet_at_def)

lemma packet_at_window [simp]:
  "data (packet_at a bs) = a" "data_end (packet_at a bs) = a + length bs"
  by (simp_all add: packet_at_def)

section \<open>The memory contract\<close>

definition same_packet :: "xdp_ctx \<Rightarrow> xdp_ctx \<Rightarrow> bool" where
  "same_packet c c' \<longleftrightarrow>
     data c = data c' \<and> data_end c = data_end c' \<and> frame c = frame c'"

lemma same_packet_mem:
  "same_packet c c' \<Longrightarrow> data c \<le> a \<Longrightarrow> a < data_end c \<Longrightarrow> mem c a = mem c' a"
  by (auto simp: same_packet_def frame_def map_eq_conv)

locale xdp_program =
  fixes prog :: "xdp_ctx \<Rightarrow> u32 \<times> xdp_ctx"
  assumes window: "data (snd (prog c)) = data c" "data_end (snd (prog c)) = data_end c"
    and writes_inside: "a < data c \<or> data_end c \<le> a \<Longrightarrow> mem (snd (prog c)) a = mem c a"
    and reads_inside: "same_packet c c' \<Longrightarrow>
      fst (prog c) = fst (prog c') \<and> frame (snd (prog c)) = frame (snd (prog c'))"
begin

lemma same_packet_result: "same_packet c c' \<Longrightarrow> same_packet (snd (prog c)) (snd (prog c'))"
  using reads_inside [of c c'] by (simp add: same_packet_def window)

lemma frame_length: "length (frame (snd (prog c))) = length (frame c)"
  by (simp add: window)

lemma confined:
  assumes "same_packet c c'"
  shows "fst (prog c) = fst (prog c')"
    and "same_packet (snd (prog c)) (snd (prog c'))"
    and "a < data c \<or> data_end c \<le> a \<Longrightarrow> mem (snd (prog c)) a = mem c a"
  using assms by (simp_all add: reads_inside same_packet_result writes_inside)

end

text \<open>
  A program that never stores meets the write half of the contract; what it reads is up to it.
\<close>

lemma xdp_program_readonly:
  assumes "\<And>c. snd (prog c) = c" and "\<And>c c'. same_packet c c' \<Longrightarrow> fst (prog c) = fst (prog c')"
  shows "xdp_program prog"
proof
  fix c c' :: xdp_ctx and a :: nat
  show "data (snd (prog c)) = data c" "data_end (snd (prog c)) = data_end c"
    "mem (snd (prog c)) a = mem c a"
    by (simp_all add: assms(1))
  assume sp: "same_packet c c'"
  from assms(2) [OF sp] have "fst (prog c) = fst (prog c')" .
  then show "fst (prog c) = fst (prog c') \<and> frame (snd (prog c)) = frame (snd (prog c'))"
    using sp by (simp add: assms(1) same_packet_def)
qed

end
