(* ===== verification/Xdp_Router.thy ===== *)
theory Xdp_Router
  imports Xdp
begin

text \<open>
  The kernel half of the XDP router: \<^verbatim>\<open>xdp_router_common/src/lib.rs\<close> (the map's key and value)
  and \<^verbatim>\<open>xdp_router_ebpf/src/main.rs\<close> (the packet path). Fixed-size arrays are byte lists; the
  map \<^verbatim>\<open>ROUTES\<close> and the redirect helper are arguments of the program. The program is shown to
  refine a specification on byte lists (\<open>forward\<close>) and to stay inside the packet buffer.
\<close>

section \<open>Keys and values\<close>

text \<open>
  The key is a \<^verbatim>\<open>repr(C)\<close> struct of 28 bytes, of which the last two are padding. The kernel compares all of them;
  neither half of the program sets the padding, whose value Rust leaves open. The record has the four
  fields only: the padding is taken to be the same on both sides, as it is when the compiler clears the struct.
\<close>

record RouteKey =
  ip_type :: u32
  ip_v4 :: bytes
  ip_v6 :: bytes
  key_vlan_id :: u16

record RouteValue =
  src_mac :: bytes
  dst_mac :: bytes
  if_index :: u32
  vlan_id :: u16

definition wf_RouteKey :: "RouteKey \<Rightarrow> bool" where
  "wf_RouteKey k \<longleftrightarrow> length (ip_v4 k) = 4 \<and> length (ip_v6 k) = 16"

definition wf_RouteValue :: "RouteValue \<Rightarrow> bool" where
  "wf_RouteValue v \<longleftrightarrow> length (src_mac v) = 6 \<and> length (dst_mac v) = 6"

section \<open>The program\<close>

definition sizeof_EthHdr :: nat where "sizeof_EthHdr = 14"
definition sizeof_VlanHdr :: nat where "sizeof_VlanHdr = 4"

definition ptr_at :: "nat \<Rightarrow> xdp_ctx \<Rightarrow> nat \<Rightarrow> unit + nat" where
  "ptr_at sz ctx offset =
     (let start = data ctx; end' = data_end ctx
      in if start + offset + sz > end' then Inl () else Inr (start + offset))"

text \<open>Lines 57 to 67: the Ethernet type, the offset of the network header and the VLAN id.\<close>

definition parse_vlan :: "xdp_ctx \<Rightarrow> nat \<Rightarrow> unit + (u16 \<times> nat \<times> u16)" where
  "parse_vlan ctx eth =
     (let ether_type = u16_from_be (load_u16 ctx (eth + 12));
          offset = sizeof_EthHdr
      in if ether_type = ETH_P_8021Q then
           (case ptr_at sizeof_VlanHdr ctx offset of
              Inl e \<Rightarrow> Inl e
            | Inr vlan \<Rightarrow>
                Inr (u16_from_be (load_u16 ctx (vlan + 2)),
                     offset + sizeof_VlanHdr,
                     u16_from_be (load_u16 ctx vlan) AND 0x0FFF))
         else Inr (ether_type, offset, 0))"

text \<open>Lines 69 to 92: the lookup key, or \<^const>\<open>None\<close> for a frame that is neither IPv4 nor IPv6.\<close>

definition lookup_key_of :: "xdp_ctx \<Rightarrow> u16 \<Rightarrow> nat \<Rightarrow> u16 \<Rightarrow> unit + RouteKey option" where
  "lookup_key_of ctx ether_type offset vid =
     (let lookup_key = \<lparr>ip_type = 0, ip_v4 = replicate 4 0, ip_v6 = replicate 16 0, key_vlan_id = vid\<rparr>
      in if ether_type = ETH_P_IP then
           (case ptr_at 4 ctx (offset + 16) of
              Inl e \<Rightarrow> Inl e
            | Inr dst_ip_ptr \<Rightarrow>
                Inr (Some (lookup_key\<lparr>ip_type := 4, ip_v4 := load_bytes ctx dst_ip_ptr 4\<rparr>)))
         else if ether_type = ETH_P_IPV6 then
           (case ptr_at 16 ctx (offset + 24) of
              Inl e \<Rightarrow> Inl e
            | Inr dst_ip_ptr \<Rightarrow>
                Inr (Some (lookup_key\<lparr>ip_type := 6, ip_v6 := load_bytes ctx dst_ip_ptr 16\<rparr>)))
         else Inr None)"

definition try_xdp_router ::
    "(u32 \<Rightarrow> u64 \<Rightarrow> u32) \<Rightarrow> (RouteKey \<Rightarrow> RouteValue option) \<Rightarrow> xdp_ctx \<Rightarrow> (unit + u32) \<times> xdp_ctx" where
  "try_xdp_router redirect ROUTES_get ctx =
     (case ptr_at sizeof_EthHdr ctx 0 of
        Inl e \<Rightarrow> (Inl e, ctx)
      | Inr eth \<Rightarrow>
          (case parse_vlan ctx eth of
             Inl e \<Rightarrow> (Inl e, ctx)
           | Inr (ether_type, offset, vid) \<Rightarrow>
               (case lookup_key_of ctx ether_type offset vid of
                  Inl e \<Rightarrow> (Inl e, ctx)
                | Inr None \<Rightarrow> (Inr XDP_PASS, ctx)
                | Inr (Some lookup_key) \<Rightarrow>
                    (case ROUTES_get lookup_key of
                       Some route \<Rightarrow>
                         let ctx1 = store_bytes eth (dst_mac route) ctx;
                             ctx2 = store_bytes (eth + 6) (src_mac route) ctx1
                         in (Inr (redirect (if_index route) 0), ctx2)
                     | None \<Rightarrow> (Inr XDP_PASS, ctx)))))"

definition xdp_router ::
    "(u32 \<Rightarrow> u64 \<Rightarrow> u32) \<Rightarrow> (RouteKey \<Rightarrow> RouteValue option) \<Rightarrow> xdp_ctx \<Rightarrow> u32 \<times> xdp_ctx" where
  "xdp_router redirect ROUTES_get ctx =
     (case try_xdp_router redirect ROUTES_get ctx of
        (Inr action, ctx') \<Rightarrow> (action, ctx')
      | (Inl _, ctx') \<Rightarrow> (XDP_PASS, ctx'))"

section \<open>The specification on frames\<close>

text \<open>
  Which route a frame asks for: \<^const>\<open>None\<close> for a frame that is too short for the headers it
  announces or carries neither IPv4 nor IPv6.
\<close>

definition ip_key :: "bytes \<Rightarrow> u16 \<Rightarrow> u16 \<Rightarrow> RouteKey option" where
  "ip_key payload ether_type vid =
     (if ether_type = ETH_P_IP \<and> 20 \<le> length payload then
        Some \<lparr>ip_type = 4, ip_v4 = take 4 (drop 16 payload), ip_v6 = replicate 16 0, key_vlan_id = vid\<rparr>
      else if ether_type = ETH_P_IPV6 \<and> 40 \<le> length payload then
        Some \<lparr>ip_type = 6, ip_v4 = replicate 4 0, ip_v6 = take 16 (drop 24 payload), key_vlan_id = vid\<rparr>
      else None)"

definition frame_key :: "bytes \<Rightarrow> RouteKey option" where
  "frame_key f =
     (if length f < 14 then None
      else if be16 (f ! 12) (f ! 13) = ETH_P_8021Q then
        (if length f < 18 then None
         else ip_key (drop 18 f) (be16 (f ! 16) (f ! 17)) (be16 (f ! 14) (f ! 15) AND 0x0FFF))
      else ip_key (drop 14 f) (be16 (f ! 12) (f ! 13)) 0)"

definition forward ::
    "(u32 \<Rightarrow> u64 \<Rightarrow> u32) \<Rightarrow> (RouteKey \<Rightarrow> RouteValue option) \<Rightarrow> bytes \<Rightarrow> u32 \<times> bytes" where
  "forward redirect ROUTES_get f =
     (case Option.bind (frame_key f) ROUTES_get of
        None \<Rightarrow> (XDP_PASS, f)
      | Some route \<Rightarrow> (redirect (if_index route) 0, dst_mac route @ src_mac route @ drop 12 f))"

definition wf_routes :: "(RouteKey \<Rightarrow> RouteValue option) \<Rightarrow> bool" where
  "wf_routes R \<longleftrightarrow> (\<forall>k v. R k = Some v \<longrightarrow> wf_RouteValue v)"

section \<open>Refinement\<close>

lemma ptr_at_Inr: "ptr_at n ctx i = Inr p \<longleftrightarrow> p = data ctx + i \<and> data ctx + i + n \<le> data_end ctx"
  by (auto simp: ptr_at_def Let_def)

lemma ptr_at_frame:
  "0 < n \<Longrightarrow>
     ptr_at n ctx i = (if i + n \<le> length (frame ctx) then Inr (data ctx + i) else Inl ())"
  by (auto simp: ptr_at_def Let_def)

lemmas sizeof_defs = sizeof_EthHdr_def sizeof_VlanHdr_def

lemma parse_vlan_frame:
  assumes "14 \<le> length (frame ctx)"
  shows "parse_vlan ctx (data ctx) =
    (if be16 (frame ctx ! 12) (frame ctx ! 13) = ETH_P_8021Q then
       (if length (frame ctx) < 18 then Inl ()
        else Inr (be16 (frame ctx ! 16) (frame ctx ! 17), 18,
                  be16 (frame ctx ! 14) (frame ctx ! 15) AND 0x0FFF))
     else Inr (be16 (frame ctx ! 12) (frame ctx ! 13), 14, 0))"
  using assms load_u16_frame [of 12 ctx] load_u16_frame [of 14 ctx] load_u16_frame [of 16 ctx]
  by (simp add: parse_vlan_def ptr_at_frame sizeof_defs Let_def ac_simps)

lemma lookup_key_of_frame:
  assumes "i \<le> length (frame ctx)"
  shows "lookup_key_of ctx t i vid =
    (case ip_key (drop i (frame ctx)) t vid of
       Some k \<Rightarrow> Inr (Some k)
     | None \<Rightarrow> if t = ETH_P_IP \<or> t = ETH_P_IPV6 then Inl () else Inr None)"
  using assms load_bytes_frame [of "i + 16" 4 ctx] load_bytes_frame [of "i + 24" 16 ctx]
  by (auto simp: lookup_key_of_def ip_key_def ptr_at_frame Let_def ac_simps ether_types)

lemma frame_rewrite:
  assumes "12 \<le> length (frame ctx)" and "length d = 6" and "length s = 6"
  shows "frame (store_bytes (data ctx + 6) s (store_bytes (data ctx) d ctx)) = d @ s @ drop 12 (frame ctx)"
  using assms
  by (intro nth_equalityI) (auto simp: frame_nth mem_store_bytes nth_append)

lemma xdp_router_key:
  "xdp_router redirect R ctx =
    (case Option.bind (frame_key (frame ctx)) R of
       None \<Rightarrow> (XDP_PASS, ctx)
     | Some route \<Rightarrow> (redirect (if_index route) 0,
         store_bytes (data ctx + 6) (src_mac route) (store_bytes (data ctx) (dst_mac route) ctx)))"
proof (cases "14 \<le> length (frame ctx)")
  case False
  then show ?thesis
    by (simp add: xdp_router_def try_xdp_router_def ptr_at_frame frame_key_def sizeof_defs)
next
  case True
  let ?f = "frame ctx"
  let ?t = "be16 (?f ! 12) (?f ! 13)"
  have eth: "ptr_at sizeof_EthHdr ctx 0 = Inr (data ctx)"
    using True by (simp add: ptr_at_frame sizeof_defs)
  note vlan = parse_vlan_frame [OF True]
  consider "?t = ETH_P_8021Q" "length ?f < 18" | "?t = ETH_P_8021Q" "18 \<le> length ?f" | "?t \<noteq> ETH_P_8021Q"
    by linarith
  then show ?thesis
  proof cases
    case 1
    with True show ?thesis
      by (simp add: xdp_router_def try_xdp_router_def eth vlan frame_key_def)
  next
    case 2
    let ?k = "ip_key (drop 18 ?f) (be16 (?f ! 16) (?f ! 17)) (be16 (?f ! 14) (?f ! 15) AND 0x0FFF)"
    have k: "frame_key ?f = ?k" using 2 True by (simp add: frame_key_def)
    show ?thesis
      using 2 lookup_key_of_frame [OF 2(2)]
      by (cases ?k) (simp_all add: xdp_router_def try_xdp_router_def eth vlan k Let_def split: option.split)
  next
    case 3
    let ?k = "ip_key (drop 14 ?f) ?t 0"
    have k: "frame_key ?f = ?k" using 3 True by (simp add: frame_key_def)
    show ?thesis
      using 3 lookup_key_of_frame [OF True]
      by (cases ?k) (simp_all add: xdp_router_def try_xdp_router_def eth vlan k Let_def split: option.split)
  qed
qed

lemma xdp_router_refines_spec:
  assumes "wf_routes R"
  shows "(fst (xdp_router redirect R ctx), frame (snd (xdp_router redirect R ctx)))
       = forward redirect R (frame ctx)"
proof (cases "Option.bind (frame_key (frame ctx)) R")
  case None
  then show ?thesis by (simp add: xdp_router_key forward_def)
next
  case (Some route)
  then have "12 \<le> length (frame ctx)"
    by (auto simp: frame_key_def split: if_splits bind_splits)
  moreover have "wf_RouteValue route"
    using Some assms by (auto simp: wf_routes_def split: bind_splits)
  ultimately show ?thesis
    using Some
    by (simp add: xdp_router_key forward_def frame_rewrite wf_RouteValue_def)
qed

text \<open>
  C1: on every packet, the router program (raw pointers and loads over the packet buffer) computes
  exactly the specification on byte lists: a frame with a route is redirected with its two MAC
  addresses replaced and the rest untouched; every other frame, including one too short for the
  headers it announces, passes unchanged.
\<close>

theorem xdp_router_refines_forward:
  assumes "wf_routes ROUTES_get"
  shows "(fst (xdp_router redirect ROUTES_get ctx), frame (snd (xdp_router redirect ROUTES_get ctx)))
       = forward redirect ROUTES_get (frame ctx)"
  using assms by (rule xdp_router_refines_spec)

section \<open>Memory safety\<close>

lemma frame_key_length: "frame_key f = Some k \<Longrightarrow> 14 \<le> length f"
  by (auto simp: frame_key_def split: if_splits)

text \<open>
  With well-formed routes the program meets the memory contract: every load and store falls
  inside the packet.
\<close>

lemma xdp_router_program:
  assumes "wf_routes R"
  shows "xdp_program (xdp_router redirect R)"
proof
  fix c c' :: xdp_ctx and a :: nat
  show "data (snd (xdp_router redirect R c)) = data c"
    "data_end (snd (xdp_router redirect R c)) = data_end c"
    by (simp_all add: xdp_router_key split: option.split)
  show "mem (snd (xdp_router redirect R c)) a = mem c a" if out: "a < data c \<or> data_end c \<le> a"
  proof (cases "Option.bind (frame_key (frame c)) R")
    case None
    then show ?thesis by (simp add: xdp_router_key)
  next
    case (Some route)
    then have "14 \<le> length (frame c)" and "wf_RouteValue route"
      using assms by (auto simp: wf_routes_def split: bind_splits dest: frame_key_length)
    with out Some show ?thesis
      by (auto simp: xdp_router_key mem_store_bytes wf_RouteValue_def)
  qed
  assume "same_packet c c'"
  then have "frame c = frame c'" by (simp add: same_packet_def)
  then show "fst (xdp_router redirect R c) = fst (xdp_router redirect R c') \<and>
      frame (snd (xdp_router redirect R c)) = frame (snd (xdp_router redirect R c'))"
    using xdp_router_refines_spec [OF assms, of redirect c] xdp_router_refines_spec [OF assms, of redirect c']
    by (metis prod.inject)
qed

text \<open>
  C2: the router reads and writes inside the packet only. Two contexts that agree on the packet
  bytes get the same verdict and the same resulting packet, whatever the surrounding memory
  holds, and no byte outside the packet changes.
\<close>

theorem xdp_router_memory_safe:
  assumes "wf_routes ROUTES_get" and "same_packet c c'"
  shows "fst (xdp_router redirect ROUTES_get c) = fst (xdp_router redirect ROUTES_get c') \<and>
    same_packet (snd (xdp_router redirect ROUTES_get c)) (snd (xdp_router redirect ROUTES_get c')) \<and>
    (\<forall>a. a < data c \<or> data_end c \<le> a \<longrightarrow>
       mem (snd (xdp_router redirect ROUTES_get c)) a = mem c a)"
  using xdp_program.confined [OF xdp_router_program [OF assms(1)] assms(2)] by blast

section \<open>Witnesses\<close>

definition demo_route :: RouteValue where
  "demo_route = \<lparr>src_mac = [2, 0, 0, 0, 0, 1], dst_mac = [2, 0, 0, 0, 0, 2], if_index = 7, vlan_id = 0\<rparr>"

definition demo_routes :: "RouteKey \<Rightarrow> RouteValue option" where
  "demo_routes k =
     (if k = \<lparr>ip_type = 4, ip_v4 = [10, 0, 0, 5], ip_v6 = replicate 16 0, key_vlan_id = 0\<rparr>
      then Some demo_route else None)"

definition demo_frame :: bytes where
  "demo_frame = replicate 12 0xAA @ [0x08, 0x00] @ replicate 16 0 @ [10, 0, 0, 5, 1, 2]"

lemma wf_demo_routes [simp]: "wf_routes demo_routes"
  by (auto simp: wf_routes_def demo_routes_def wf_RouteValue_def demo_route_def split: if_splits)

lemma frame_key_demo_frame [simp]: "frame_key demo_frame =
    Some \<lparr>ip_type = 4, ip_v4 = [10, 0, 0, 5], ip_v6 = replicate 16 0, key_vlan_id = 0\<rparr>"
  by code_simp

theorem xdp_router_refines_forward_witness:
  "wf_routes demo_routes \<and>
   frame (snd (xdp_router (\<lambda>i _. i) demo_routes (packet_at 64 demo_frame)))
     = [2, 0, 0, 0, 0, 2, 2, 0, 0, 0, 0, 1] @ drop 12 demo_frame"
  using xdp_router_refines_forward [OF wf_demo_routes, of "\<lambda>i _. i" "packet_at 64 demo_frame"]
  by (simp add: forward_def demo_routes_def demo_route_def)

theorem xdp_router_memory_safe_witness:
  "same_packet (packet_at 64 demo_frame) ((packet_at 64 demo_frame)\<lparr>mem := (mem (packet_at 64 demo_frame))(63 := 9)\<rparr>) \<and>
   mem (snd (xdp_router (\<lambda>i _. i) demo_routes (packet_at 64 demo_frame))) 63
     = mem (packet_at 64 demo_frame) 63"
proof -
  let ?c = "packet_at 64 demo_frame"
  let ?c' = "?c\<lparr>mem := (mem ?c)(63 := 9)\<rparr>"
  have same: "same_packet ?c ?c'"
    by (simp add: same_packet_def frame_def)
  show ?thesis
    using same xdp_router_memory_safe [OF wf_demo_routes same, of "\<lambda>i _. i"] by simp
qed

end
