(* ===== verification/Interfaces.thy ===== *)
theory Interfaces
  imports Rust_Prelude "HOL-Library.AList" "HOL-Library.Multiset"
begin

text \<open>
  The contracts the components share, one locale each:
  \<^item> \<open>inv_system\<close>: a transition system with an invariant every step keeps;
  \<^item> \<open>simulation\<close>: a system with labelled steps whose runs are runs of an abstract one;
  \<^item> \<open>kv_map\<close> and its extensions \<open>kv_retain\<close> and \<open>kv_table\<close>: what a client relies on of a hash map
    (DashMap, the standard HashMap, a table with a unique key);
  \<^item> \<open>bpf_map\<close>: a kernel hash map, whose insertion can fail;
  \<^item> \<open>semaphore\<close>: a counting semaphore;
  \<^item> \<open>batcher\<close> and its extension \<open>bounded_batcher\<close>: a component that accumulates records and hands
    them on in batches.
  The clients' lemmas are proved here once. Each component's theory interprets the locales on its
  own definitions; the container contracts are interpreted here on the model of the standard
  library's HashMap and on a kernel hash map with its capacity bound.
\<close>

section \<open>Transition systems with an invariant\<close>

locale inv_system =
  fixes init :: "'s \<Rightarrow> bool"
    and step :: "'s \<Rightarrow> 's \<Rightarrow> bool"
    and inv :: "'s \<Rightarrow> bool"
  assumes inv_init: "init s \<Longrightarrow> inv s"
    and inv_step: "inv s \<Longrightarrow> step s t \<Longrightarrow> inv t"
begin

lemma inv_steps: "step\<^sup>*\<^sup>* s t \<Longrightarrow> inv s \<Longrightarrow> inv t"
  by (induction rule: rtranclp_induct) (auto intro: inv_step)

lemma inv_reachable: "init s \<Longrightarrow> step\<^sup>*\<^sup>* s t \<Longrightarrow> inv t"
  by (blast intro: inv_steps inv_init)

end

section \<open>Traces and simulation\<close>

text \<open>The runs of a system with labelled steps, and what relates a system to an abstract one.\<close>

inductive trace :: "('s \<Rightarrow> 'e \<Rightarrow> 's \<Rightarrow> bool) \<Rightarrow> 's \<Rightarrow> 'e list \<Rightarrow> 's \<Rightarrow> bool" for step where
  trace_Nil: "trace step s [] s"
| trace_snoc: "trace step s es t \<Longrightarrow> step t e u \<Longrightarrow> trace step s (es @ [e]) u"

inductive_cases trace_snocE: "trace step s (es @ [e]) u"

lemma trace_Nil_iff [simp]: "trace step s [] t \<longleftrightarrow> t = s"
  by (auto intro: trace_Nil elim: trace.cases)

lemma trace_Cons: "trace step t es u \<Longrightarrow> step s e t \<Longrightarrow> trace step s (e # es) u"
proof (induction rule: trace.induct)
  case (trace_snoc t es u f v)
  then show ?case using trace.trace_snoc [of step s "e # es" u f v] by simp
qed (use trace_snoc [OF trace_Nil] in fastforce)

lemma trace_prefix: "trace step s (es @ es') u \<Longrightarrow> \<exists>t. trace step s es t \<and> trace step t es' u"
proof (induction es' arbitrary: u rule: rev_induct)
  case (snoc e es')
  then obtain t where "trace step s (es @ es') t" and "step t e u"
    by (metis append_assoc trace_snocE append1_eq_conv)
  with snoc.IH [of t] show ?case by (blast intro: trace_snoc)
qed (auto intro: trace_Nil)

lemma trace_split:
  assumes "trace step s (pre @ e # post) u"
  obtains t t' where "trace step s pre t" and "step t e t'"
proof -
  from trace_prefix [of step s "pre @ [e]" post u] assms obtain t' where "trace step s (pre @ [e]) t'" by auto
  then show thesis by (rule trace_snocE) (use that in auto)
qed

lemma trace_Cons_iff: "trace step s (e # es) u \<longleftrightarrow> (\<exists>t. step s e t \<and> trace step t es u)"
proof
  assume "trace step s (e # es) u"
  then obtain t where first: "trace step s ([] @ [e]) t" and rest: "trace step t es u"
    using trace_prefix [of step s "[e]" es u] by auto
  from first have "step s e t" by (rule trace_snocE) auto
  with rest show "\<exists>t. step s e t \<and> trace step t es u" by blast
qed (auto intro: trace_Cons)

lemma trace_append_iff: "trace step s (es @ es') u \<longleftrightarrow> (\<exists>t. trace step s es t \<and> trace step t es' u)"
  by (induction es arbitrary: s) (auto simp: trace_Cons_iff)

locale simulation =
  fixes cstep :: "'s \<Rightarrow> 'e \<Rightarrow> 's \<Rightarrow> bool" and astep :: "'a \<Rightarrow> 'e \<Rightarrow> 'a \<Rightarrow> bool"
    and abs :: "'s \<Rightarrow> 'a" and inv :: "'s \<Rightarrow> bool"
  assumes sim_inv: "inv s \<Longrightarrow> cstep s e t \<Longrightarrow> inv t"
    and sim_step: "inv s \<Longrightarrow> cstep s e t \<Longrightarrow> astep (abs s) e (abs t)"
begin

lemma sim_trace: "trace cstep s es t \<Longrightarrow> inv s \<Longrightarrow> trace astep (abs s) es (abs t) \<and> inv t"
  by (induction rule: trace.induct) (auto intro: trace.intros sim_inv sim_step)

text \<open>Every event of a run is a step of the abstract system, after the abstract run of the events before it.\<close>

lemma sim_event:
  assumes "trace cstep s (pre @ e # post) s'" and "inv s"
  shows "\<exists>a a'. trace astep (abs s) pre a \<and> astep a e a'"
proof -
  from assms(1) obtain t t' where "trace cstep s pre t" and "cstep t e t'"
    by (rule trace_split)
  then show ?thesis using assms(2) sim_trace sim_step by blast
qed

end

section \<open>Hash maps\<close>

locale kv_map =
  fixes get :: "'m \<Rightarrow> 'k \<Rightarrow> 'v option"
    and put :: "'k \<Rightarrow> 'v \<Rightarrow> 'm \<Rightarrow> 'm"
  assumes get_put: "get (put k v m) = (get m)(k \<mapsto> v)"
begin

lemma get_put_same [simp]: "get (put k v m) k = Some v"
  by (simp add: get_put)

lemma get_put_other [simp]: "k' \<noteq> k \<Longrightarrow> get (put k v m) k' = get m k'"
  by (simp add: get_put)

lemma dom_put: "dom (get (put k v m)) = insert k (dom (get m))"
  by (simp add: get_put)

end

text \<open>A map that can also keep only the entries that satisfy a predicate, and one that can remove a key.\<close>

locale kv_retain = kv_map get put
  for get :: "'m \<Rightarrow> 'k \<Rightarrow> 'v option" and put :: "'k \<Rightarrow> 'v \<Rightarrow> 'm \<Rightarrow> 'm" +
  fixes retain :: "('k \<Rightarrow> 'v \<Rightarrow> bool) \<Rightarrow> 'm \<Rightarrow> 'm"
  assumes get_retain:
      "get (retain P m) k = (case get m k of None \<Rightarrow> None | Some v \<Rightarrow> if P k v then Some v else None)"
begin

lemma get_retain_Some: "get (retain P m) k = Some v \<longleftrightarrow> get m k = Some v \<and> P k v"
  by (auto simp: get_retain split: option.splits)

lemma get_retain_keep: "get m k = Some v \<Longrightarrow> P k v \<Longrightarrow> get (retain P m) k = Some v"
  by (simp add: get_retain_Some)

end

locale kv_table = kv_retain get put retain
  for get :: "'m \<Rightarrow> 'k \<Rightarrow> 'v option" and put :: "'k \<Rightarrow> 'v \<Rightarrow> 'm \<Rightarrow> 'm"
    and retain :: "('k \<Rightarrow> 'v \<Rightarrow> bool) \<Rightarrow> 'm \<Rightarrow> 'm" +
  fixes del :: "'k \<Rightarrow> 'm \<Rightarrow> 'm"
  assumes get_del: "get (del k m) = (get m)(k := None)"
begin

lemma get_del_same [simp]: "get (del k m) k = None"
  by (simp add: get_del)

end

text \<open>The standard library's HashMap.\<close>

type_synonym ('k, 'v) hashmap = "'k \<rightharpoonup> 'v"

definition hm_get :: "('k, 'v) hashmap \<Rightarrow> 'k \<Rightarrow> 'v option" where
  "hm_get m k = m k"

definition hm_insert :: "'k \<Rightarrow> 'v \<Rightarrow> ('k, 'v) hashmap \<Rightarrow> ('k, 'v) hashmap" where
  "hm_insert k v m = m(k \<mapsto> v)"

definition hm_remove :: "'k \<Rightarrow> ('k, 'v) hashmap \<Rightarrow> ('k, 'v) hashmap" where
  "hm_remove k m = m(k := None)"

definition hm_retain :: "('k \<Rightarrow> 'v \<Rightarrow> bool) \<Rightarrow> ('k, 'v) hashmap \<Rightarrow> ('k, 'v) hashmap" where
  "hm_retain P m = (\<lambda>k. case m k of None \<Rightarrow> None | Some v \<Rightarrow> if P k v then Some v else None)"

lemmas hashmap_defs [rust_defs] = hm_get_def hm_insert_def hm_remove_def hm_retain_def

interpretation hm: kv_table hm_get hm_insert hm_retain hm_remove
  by unfold_locales (auto simp: hashmap_defs fun_eq_iff)

section \<open>Semaphores\<close>

text \<open>A counting semaphore: taking a permit without waiting fails exactly when none is left.\<close>

locale semaphore =
  fixes permits :: "'s \<Rightarrow> nat"
    and try_acquire :: "'s \<Rightarrow> 's option"
    and release :: "'s \<Rightarrow> 's"
  assumes acquire_None: "try_acquire s = None \<longleftrightarrow> permits s = 0"
    and acquire_Some: "try_acquire s = Some s' \<Longrightarrow> permits s = Suc (permits s')"
    and release_permits: "permits (release s) = Suc (permits s)"
begin

lemma acquire_pos: "permits s > 0 \<Longrightarrow> \<exists>s'. try_acquire s = Some s' \<and> permits s' = permits s - 1"
proof -
  assume "permits s > 0"
  then obtain s' where "try_acquire s = Some s'" using acquire_None [of s] by (cases "try_acquire s") auto
  with acquire_Some [OF this] show ?thesis by auto
qed

end

definition count_try_acquire :: "nat \<Rightarrow> nat option" where
  "count_try_acquire n = (if n = 0 then None else Some (n - 1))"

interpretation count: semaphore "\<lambda>n. n" count_try_acquire Suc
  by unfold_locales (auto simp: count_try_acquire_def split: if_splits)

section \<open>Kernel hash maps\<close>

text \<open>
  A BPF hash map as user space and the kernel programs see it: a lookup, and an update with flags
  0 (create or replace) that reports an error instead of a new map when it fails.
\<close>

locale bpf_map =
  fixes lookup :: "'m \<Rightarrow> 'k \<Rightarrow> 'v option"
    and insert :: "'k \<Rightarrow> 'v \<Rightarrow> 'm \<Rightarrow> 'e + 'm"
  assumes insert_ok: "insert k v m = Inr m' \<Longrightarrow> lookup m' = (lookup m)(k \<mapsto> v)"
begin

lemma insert_lookup_same: "insert k v m = Inr m' \<Longrightarrow> lookup m' k = Some v"
  by (simp add: insert_ok)

lemma insert_lookup_other: "insert k v m = Inr m' \<Longrightarrow> k' \<noteq> k \<Longrightarrow> lookup m' k' = lookup m k'"
  by (simp add: insert_ok)

lemma insert_keeps_keys: "insert k v m = Inr m' \<Longrightarrow> lookup m k' \<noteq> None \<Longrightarrow> lookup m' k' \<noteq> None"
  by (auto simp: insert_ok)

text \<open>An update that ignores the error (\<^verbatim>\<open>let _ = map.insert(..)\<close>) changes one key at most.\<close>

lemma insert_ignored:
  "lookup (case insert k v m of Inl _ \<Rightarrow> m | Inr m' \<Rightarrow> m') k' \<in> {lookup m k', ((lookup m)(k \<mapsto> v)) k'}"
  by (auto split: sum.splits simp: insert_ok)

end

text \<open>
  The documented behaviour of \<^verbatim>\<open>BPF_MAP_TYPE_HASH\<close> with \<^verbatim>\<open>max_entries\<close> entries: replacing is
  always possible, a new key is refused once the map is full.
\<close>

datatype bpf_error = E2BIG

definition bpf_hash_insert ::
    "nat \<Rightarrow> 'k \<Rightarrow> 'v \<Rightarrow> ('k \<times> 'v) list \<Rightarrow> bpf_error + ('k \<times> 'v) list" where
  "bpf_hash_insert max_entries k v m =
     (if k \<in> set (map fst m) \<or> length m < max_entries then Inr (AList.update k v m) else Inl E2BIG)"

interpretation bpf_hash: bpf_map map_of "bpf_hash_insert n" for n
  by unfold_locales (auto simp: bpf_hash_insert_def update_conv' split: if_splits)

section \<open>Batching\<close>

text \<open>
  A batching component: \<open>accepted\<close> is everything it was given, \<open>batches\<close> what it has handed on
  and \<open>buffer\<close> what it still holds. The contract is that one step either takes one record in or
  hands the buffer on, and never drops or reorders a record; it holds between the steps of the
  component's loop.
\<close>

locale batcher =
  fixes init :: "'s \<Rightarrow> bool"
    and step :: "'s \<Rightarrow> 's \<Rightarrow> bool"
    and accepted :: "'s \<Rightarrow> 'a list"
    and batches :: "'s \<Rightarrow> 'a list list"
    and buffer :: "'s \<Rightarrow> 'a list"
  assumes init_empty: "init s \<Longrightarrow> accepted s = [] \<and> batches s = [] \<and> buffer s = []"
    and step_cases: "step s t \<Longrightarrow>
       (\<exists>x. accepted t = accepted s @ [x] \<and>
            (batches t = batches s \<and> buffer t = buffer s @ [x] \<or>
             batches t = batches s @ [buffer s @ [x]] \<and> buffer t = []))
       \<or> (accepted t = accepted s \<and> batches t = batches s \<and> buffer t = buffer s)
       \<or> (accepted t = accepted s \<and> buffer s \<noteq> [] \<and>
          batches t = batches s @ [buffer s] \<and> buffer t = [])"
begin

lemma step_conserves:
  "step s t \<Longrightarrow> concat (batches s) @ buffer s = accepted s \<Longrightarrow> concat (batches t) @ buffer t = accepted t"
  by (drule step_cases) auto

lemma conserved:
  assumes "init s" and "step\<^sup>*\<^sup>* s t"
  shows "concat (batches t) @ buffer t = accepted t"
  using assms(2)
proof (induction rule: rtranclp_induct)
  case base
  from init_empty [OF assms(1)] show ?case by simp
next
  case (step y z)
  from step.hyps(2) step.IH show ?case by (rule step_conserves)
qed

lemma batches_nonempty:
  assumes "init s" and "step\<^sup>*\<^sup>* s t"
  shows "[] \<notin> set (batches t)"
  using assms(2)
proof (induction rule: rtranclp_induct)
  case base
  from init_empty [OF assms(1)] show ?case by simp
next
  case (step y z)
  from step_cases [OF step.hyps(2)] step.IH show ?case by auto
qed

lemma exactly_once:
  assumes "init s" and "step\<^sup>*\<^sup>* s t"
  shows "mset (accepted t) = mset (concat (batches t)) + mset (buffer t)"
  using conserved [OF assms] by (metis mset_append)

end

text \<open>A batching component that never holds \<open>n\<close> records between two steps.\<close>

locale bounded_batcher = batcher init step accepted batches buffer
  for init :: "'s \<Rightarrow> bool" and step :: "'s \<Rightarrow> 's \<Rightarrow> bool" and accepted :: "'s \<Rightarrow> 'a list"
    and batches :: "'s \<Rightarrow> 'a list list" and buffer :: "'s \<Rightarrow> 'a list" +
  fixes n :: nat
  assumes n_pos: "0 < n"
    and step_bounded: "step s t \<Longrightarrow> length (buffer s) < n \<Longrightarrow> length (buffer t) < n"
begin

lemma batches_bounded:
  assumes "init s" and "step\<^sup>*\<^sup>* s t"
  shows "length (buffer t) < n \<and> (\<forall>b \<in> set (batches t). length b \<le> n)"
  using assms(2)
proof (induction rule: rtranclp_induct)
  case base
  from init_empty [OF assms(1)] n_pos show ?case by simp
next
  case (step y z)
  from step_cases [OF step.hyps(2)] step_bounded [OF step.hyps(2)] step.IH show ?case by auto
qed

end

end
