(* ===== verification/Rust_Text.thy ===== *)
theory Rust_Text
  imports Rust_Prelude
begin

text \<open>
  Numbers as text, as the standard library reads and prints them: hexadecimal and decimal digits,
  \<^verbatim>\<open>u8::from_str_radix(_, 16)\<close>, the \<^verbatim>\<open>{:02x}\<close> and \<^verbatim>\<open>{}\<close> formats, and \<^verbatim>\<open>Ipv4Addr\<close>'s
  \<^verbatim>\<open>FromStr\<close> and \<^verbatim>\<open>Display\<close> (an address is the list of its four octets). The round-trip lemmas
  here carry the parse/print properties of the components.
\<close>

section \<open>Digits\<close>

definition is_ascii_digit :: "char \<Rightarrow> bool" where
  "is_ascii_digit c \<longleftrightarrow> 48 \<le> byte_val c \<and> byte_val c \<le> 57"

text \<open>\<^verbatim>\<open>char::to_digit(10)\<close> and \<^verbatim>\<open>char::to_digit(16)\<close>.\<close>

definition to_digit10 :: "char \<Rightarrow> nat option" where
  "to_digit10 c = (if is_ascii_digit c then Some (byte_val c - 48) else None)"

definition to_digit16 :: "char \<Rightarrow> nat option" where
  "to_digit16 c =
     (let n = byte_val c in
      if 48 \<le> n \<and> n \<le> 57 then Some (n - 48)
      else if 97 \<le> n \<and> n \<le> 102 then Some (n - 87)
      else if 65 \<le> n \<and> n \<le> 70 then Some (n - 55)
      else None)"

lemma to_digit10_bound: "to_digit10 c = Some d \<Longrightarrow> d < 10"
  by (auto simp: to_digit10_def is_ascii_digit_def split: if_splits)

definition digit_char :: "nat \<Rightarrow> char" where
  "digit_char d = char_of (if d < 10 then 48 + d else 87 + d)"

lemma byte_val_digit_char: "d < 16 \<Longrightarrow> byte_val (digit_char d) = (if d < 10 then 48 + d else 87 + d)"
  by (auto simp: byte_val_def digit_char_def)

lemma to_digit16_digit_char [simp]: "d < 16 \<Longrightarrow> to_digit16 (digit_char d) = Some d"
  by (auto simp: to_digit16_def byte_val_digit_char Let_def)

lemma to_digit10_digit_char [simp]: "d < 10 \<Longrightarrow> to_digit10 (digit_char d) = Some d"
  by (auto simp: to_digit10_def is_ascii_digit_def byte_val_digit_char)

section \<open>Hexadecimal bytes\<close>

text \<open>
  \<^verbatim>\<open>u8::from_str_radix(s, 16)\<close>: an optional \<^verbatim>\<open>+\<close>, then at least one digit, each step checked
  against the range of \<^verbatim>\<open>u8\<close>. Every failure is \<^const>\<open>None\<close> (the callers look at \<^verbatim>\<open>Ok\<close>/\<^verbatim>\<open>Err\<close> only).
\<close>

fun radix16_from :: "nat \<Rightarrow> string \<Rightarrow> nat option" where
  "radix16_from acc [] = Some acc"
| "radix16_from acc (c # cs) =
     (case to_digit16 c of
        None \<Rightarrow> None
      | Some d \<Rightarrow> if acc * 16 + d > 255 then None else radix16_from (acc * 16 + d) cs)"

definition u8_from_str_radix16 :: "string \<Rightarrow> u8 option" where
  "u8_from_str_radix16 s =
     (let ds = (case s of c # cs \<Rightarrow> if c = CHR ''+'' then cs else s | [] \<Rightarrow> [])
      in if ds = [] then None else map_option of_nat (radix16_from 0 ds))"

text \<open>\<^verbatim>\<open>format!("{:02x}", b)\<close>.\<close>

definition hex_byte :: "u8 \<Rightarrow> string" where
  "hex_byte b = [digit_char (unat b div 16), digit_char (unat b mod 16)]"

lemma unat_u8_less: "unat (b :: u8) < 256"
  using unsigned_less [of b] by simp

lemma digit_char_no_plus: "d < 16 \<Longrightarrow> digit_char d \<noteq> CHR ''+''"
proof
  assume "d < 16" and "digit_char d = CHR ''+''"
  then have "byte_val (digit_char d) = 43" by (simp add: byte_val_def)
  with \<open>d < 16\<close> show False by (simp add: byte_val_digit_char split: if_splits)
qed

lemma u8_from_str_radix16_hex_byte [simp]: "u8_from_str_radix16 (hex_byte b) = Some b"
proof -
  have d: "unat b div 16 < 16" using unat_u8_less [of b] by simp
  have m: "unat b mod 16 < 16" by simp
  have s: "unat b div 16 * 16 + unat b mod 16 = unat b" by simp
  show ?thesis
    using d m s unat_u8_less [of b]
    by (simp add: u8_from_str_radix16_def hex_byte_def digit_char_no_plus)
qed

lemma length_hex_byte [simp]: "length (hex_byte b) = 2"
  by (simp add: hex_byte_def)

lemma hex_byte_chars:
  "c \<in> set (hex_byte b) \<Longrightarrow> byte_val c < 128 \<and> (48 \<le> byte_val c \<and> byte_val c \<le> 57 \<or> 97 \<le> byte_val c)"
  using unat_u8_less [of b]
  by (auto simp: hex_byte_def byte_val_digit_char split: if_splits)

section \<open>Decimal numbers\<close>

fun show_nat :: "nat \<Rightarrow> string" where
  "show_nat n = (if n < 10 then [digit_char n] else show_nat (n div 10) @ [digit_char (n mod 10)])"

declare show_nat.simps [simp del]

lemma show_nat_digits: "c \<in> set (show_nat n) \<Longrightarrow> is_ascii_digit c"
proof (induction n rule: show_nat.induct)
  case (1 n)
  have last_digit: "is_ascii_digit (digit_char (n mod 10))"
    by (simp add: is_ascii_digit_def byte_val_digit_char)
  show ?case
  proof (cases "n < 10")
    case True
    with "1.prems" last_digit show ?thesis by (simp add: show_nat.simps [of n])
  next
    case False
    with "1.prems" have "c \<in> set (show_nat (n div 10)) \<or> c = digit_char (n mod 10)"
      by (auto simp: show_nat.simps [of n])
    with "1.IH" [OF False] last_digit show ?thesis by blast
  qed
qed

lemma show_nat_nonempty [simp]: "show_nat n \<noteq> []"
  by (subst show_nat.simps) simp

section \<open>IPv4 addresses\<close>

text \<open>
  One octet of \<^verbatim>\<open>Ipv4Addr::from_str\<close>: one to three decimal digits, no leading zero before
  another digit, at most 255.
\<close>

fun dec_from :: "nat \<Rightarrow> string \<Rightarrow> nat option" where
  "dec_from acc [] = Some acc"
| "dec_from acc (c # cs) =
     (case to_digit10 c of None \<Rightarrow> None | Some d \<Rightarrow> dec_from (acc * 10 + d) cs)"

definition ipv4_octet :: "string \<Rightarrow> u8 option" where
  "ipv4_octet s =
     (if s = [] \<or> length s > 3 \<or> (length s > 1 \<and> hd s = CHR ''0'') then None
      else case dec_from 0 s of
          None \<Rightarrow> None
        | Some n \<Rightarrow> if n \<le> 255 then Some (of_nat n) else None)"

definition ipv4_from_str :: "string \<Rightarrow> bytes option" where
  "ipv4_from_str s =
     (if length s > 15 then None
      else case split_on CHR ''.'' s of
          [a, b, c, d] \<Rightarrow>
            (case (ipv4_octet a, ipv4_octet b, ipv4_octet c, ipv4_octet d) of
               (Some w, Some x, Some y, Some z) \<Rightarrow> Some [w, x, y, z]
             | _ \<Rightarrow> None)
        | _ \<Rightarrow> None)"

definition ipv4_to_string :: "bytes \<Rightarrow> string" where
  "ipv4_to_string octets = join_with CHR ''.'' (map (\<lambda>b. show_nat (unat b)) octets)"

lemma ipv4_from_str_length: "ipv4_from_str s = Some ip \<Longrightarrow> length ip = 4"
  by (auto simp: ipv4_from_str_def split: if_splits list.splits option.splits)

lemma digit_char_zero_iff: "d < 10 \<Longrightarrow> digit_char d = CHR ''0'' \<longleftrightarrow> d = 0"
proof -
  assume d: "d < 10"
  have "digit_char d = CHR ''0'' \<longleftrightarrow> byte_val (digit_char d) = byte_val CHR ''0''" by simp
  also have "\<dots> \<longleftrightarrow> d = 0" using d by (simp add: byte_val_digit_char) (simp add: byte_val_def)
  finally show ?thesis .
qed

lemma show_nat_small:
  "n < 10 \<Longrightarrow> show_nat n = [digit_char n]"
  "10 \<le> n \<Longrightarrow> n < 100 \<Longrightarrow> show_nat n = [digit_char (n div 10), digit_char (n mod 10)]"
  "100 \<le> n \<Longrightarrow> n < 1000 \<Longrightarrow>
     show_nat n = [digit_char (n div 100), digit_char (n div 10 mod 10), digit_char (n mod 10)]"
proof -
  show one: "show_nat n = [digit_char n]" if "n < 10" for n
    using that by (simp add: show_nat.simps [of n])
  show two: "show_nat n = [digit_char (n div 10), digit_char (n mod 10)]"
    if "10 \<le> n" "n < 100" for n
    using that one [of "n div 10"] by (simp add: show_nat.simps [of n])
  show "show_nat n = [digit_char (n div 100), digit_char (n div 10 mod 10), digit_char (n mod 10)]"
    if "100 \<le> n" "n < 1000"
    using that two [of "n div 10"] by (simp add: show_nat.simps [of n] div_mult2_eq [symmetric])
qed

lemma show_nat_octet:
  assumes "n < 256"
  shows "length (show_nat n) \<le> 3"
    and "dec_from 0 (show_nat n) = Some n"
    and "length (show_nat n) > 1 \<Longrightarrow> hd (show_nat n) \<noteq> CHR ''0''"
proof -
  consider "n < 10" | "10 \<le> n" "n < 100" | "100 \<le> n" "n < 1000"
    using assms by linarith
  then have "length (show_nat n) \<le> 3 \<and> dec_from 0 (show_nat n) = Some n \<and>
    (length (show_nat n) > 1 \<longrightarrow> hd (show_nat n) \<noteq> CHR ''0'')"
  proof cases
    case 1
    then show ?thesis by (simp add: show_nat_small)
  next
    case 2
    then show ?thesis by (simp add: show_nat_small digit_char_zero_iff)
  next
    case 3
    have hi: "n div 100 < 10" "n div 100 \<noteq> 0" using 3 by auto
    have "n div 100 = n div 10 div 10" by (simp add: div_mult2_eq [symmetric])
    then have "(n div 100 * 10 + n div 10 mod 10) * 10 + n mod 10 = n"
      by (simp only: div_mult_mod_eq)
    with 3 hi show ?thesis by (simp add: show_nat_small digit_char_zero_iff)
  qed
  then show "length (show_nat n) \<le> 3" "dec_from 0 (show_nat n) = Some n"
    "length (show_nat n) > 1 \<Longrightarrow> hd (show_nat n) \<noteq> CHR ''0''" by auto
qed

lemma length_show_octet: "length (show_nat (unat (b :: u8))) \<le> 3"
  by (rule show_nat_octet(1) [OF unat_u8_less])

lemma ipv4_octet_show [simp]: "ipv4_octet (show_nat (unat (b :: u8))) = Some b"
proof -
  have "length (show_nat (unat b)) \<le> 3" by (rule length_show_octet)
  moreover have "unat b \<le> 255" using unat_u8_less [of b] by simp
  ultimately show ?thesis
    using show_nat_octet [OF unat_u8_less, of b] by (auto simp: ipv4_octet_def)
qed

lemma show_nat_no_dot: "CHR ''.'' \<notin> set (show_nat n)"
  using show_nat_digits [of "CHR ''.''" n] by (auto simp: is_ascii_digit_def byte_val_def)

lemma ipv4_round_trip:
  assumes "length ip = 4"
  shows "ipv4_from_str (ipv4_to_string ip) = Some ip"
proof -
  from assms obtain a b c d where ip: "ip = [a, b, c, d]"
    by (auto simp: length_Suc_conv numeral_eq_Suc)
  have "length (ipv4_to_string ip) \<le> 15"
    using length_show_octet [of a] length_show_octet [of b] length_show_octet [of c]
      length_show_octet [of d]
    by (simp add: ip ipv4_to_string_def)
  moreover have "split_on CHR ''.'' (ipv4_to_string ip) = map (\<lambda>b. show_nat (unat b)) ip"
    unfolding ipv4_to_string_def
    by (rule split_on_join_with) (auto simp: ip show_nat_no_dot)
  ultimately show ?thesis
    by (simp add: ipv4_from_str_def ip)
qed

end
