(* ===== verification/Rust_Net.thy ===== *)
theory Rust_Net
  imports Rust_Text
begin

text \<open>
  \<^verbatim>\<open>IpAddr::from_str\<close> of the standard library, as the recursive-descent parser it is: a reader
  takes the remaining input and returns a value and the rest, or \<^const>\<open>None\<close> and consumes nothing.
  An IPv6 address is the list of its sixteen octets.
\<close>

datatype ip_addr = V4 bytes | V6 bytes

definition wf_ip :: "ip_addr \<Rightarrow> bool" where
  "wf_ip ip \<longleftrightarrow> (case ip of V4 b \<Rightarrow> length b = 4 | V6 b \<Rightarrow> length b = 16)"

text \<open>
  \<^verbatim>\<open>read_number(radix, Some(max_digits), allow_zero_prefix)\<close>: the longest run of digits; a run
  longer than \<open>max_digits\<close>, an empty run, a forbidden leading zero or a value above \<open>limit\<close> fail.
\<close>

definition read_number ::
    "(char \<Rightarrow> nat option) \<Rightarrow> nat \<Rightarrow> nat \<Rightarrow> bool \<Rightarrow> nat \<Rightarrow> string \<Rightarrow> (nat \<times> string) option" where
  "read_number digit radix max_digits allow_zero_prefix limit s =
     (let ds = takeWhile (\<lambda>c. digit c \<noteq> None) s;
          n = foldl (\<lambda>acc c. acc * radix + the (digit c)) 0 ds
      in if ds = [] \<or> length ds > max_digits
            \<or> (\<not> allow_zero_prefix \<and> hd ds = CHR ''0'' \<and> length ds > 1) \<or> n > limit
         then None else Some (n, drop (length ds) s))"

definition read_octet :: "string \<Rightarrow> (nat \<times> string) option" where
  "read_octet s = read_number to_digit10 10 3 False 255 s"

definition read_group :: "string \<Rightarrow> (nat \<times> string) option" where
  "read_group s = read_number to_digit16 16 4 True 65535 s"

text \<open>\<^verbatim>\<open>read_separator(sep, index, inner)\<close>: the separator is required from the second item on.\<close>

definition read_separator ::
    "char \<Rightarrow> nat \<Rightarrow> (string \<Rightarrow> ('a \<times> string) option) \<Rightarrow> string \<Rightarrow> ('a \<times> string) option" where
  "read_separator sep index inner s =
     (if index = 0 then inner s
      else case s of [] \<Rightarrow> None | c # cs \<Rightarrow> if c = sep then inner cs else None)"

fun read_octets :: "nat \<Rightarrow> nat \<Rightarrow> string \<Rightarrow> (nat list \<times> string) option" where
  "read_octets i 0 s = Some ([], s)"
| "read_octets i (Suc n) s =
     (case read_separator CHR ''.'' i read_octet s of
        None \<Rightarrow> None
      | Some (x, s') \<Rightarrow> map_option (\<lambda>(xs, s''). (x # xs, s'')) (read_octets (Suc i) n s'))"

definition read_ipv4_addr :: "string \<Rightarrow> (nat list \<times> string) option" where
  "read_ipv4_addr s = read_octets 0 4 s"

text \<open>
  \<^verbatim>\<open>read_groups\<close>: up to \<open>n\<close> 16-bit groups from index \<open>i\<close>, the last two of which may be an
  embedded IPv4 address; returns the groups read, whether they end in IPv4, and the rest.
\<close>

fun read_groups :: "nat \<Rightarrow> nat \<Rightarrow> string \<Rightarrow> nat list \<times> bool \<times> string" where
  "read_groups i 0 s = ([], False, s)"
| "read_groups i (Suc n) s =
     (case (if n > 0 then read_separator CHR '':'' i read_ipv4_addr s else None) of
        Some ([a, b, c, d], s') \<Rightarrow> ([a * 256 + b, c * 256 + d], True, s')
      | _ \<Rightarrow>
          (case read_separator CHR '':'' i read_group s of
             None \<Rightarrow> ([], False, s)
           | Some (g, s') \<Rightarrow>
               (case read_groups (Suc i) n s' of (gs, v4, s'') \<Rightarrow> (g # gs, v4, s''))))"

definition read_ipv6_addr :: "string \<Rightarrow> (nat list \<times> string) option" where
  "read_ipv6_addr s =
     (case read_groups 0 8 s of
        (head, head_ipv4, s1) \<Rightarrow>
          if length head = 8 then Some (head, s1)
          else if head_ipv4 then None
          else (case s1 of
              c # d # s2 \<Rightarrow>
                if c = CHR '':'' \<and> d = CHR '':'' then
                  (case read_groups 0 (8 - (length head + 1)) s2 of
                     (tail, _, s3) \<Rightarrow>
                       Some (head @ replicate (8 - length head - length tail) 0 @ tail, s3))
                else None
            | _ \<Rightarrow> None))"

definition group_octets :: "nat \<Rightarrow> bytes" where
  "group_octets g = [of_nat (g div 256), of_nat (g mod 256)]"

text \<open>\<^verbatim>\<open>IpAddr::from_str\<close>: IPv4 first, then IPv6; the whole input has to be consumed.\<close>

definition ip_from_str :: "string \<Rightarrow> ip_addr option" where
  "ip_from_str s =
     (case read_ipv4_addr s of
        Some (octets, rest) \<Rightarrow> if rest = [] then Some (V4 (map of_nat octets)) else None
      | None \<Rightarrow>
          (case read_ipv6_addr s of
             Some (groups, rest) \<Rightarrow>
               if rest = [] then Some (V6 (concat (map group_octets groups))) else None
           | None \<Rightarrow> None))"

lemma read_octets_length: "read_octets i n s = Some (xs, s') \<Longrightarrow> length xs = n"
  by (induction i n s arbitrary: xs s' rule: read_octets.induct) (auto split: option.splits)

lemma read_groups_length: "read_groups i n s = (gs, v4, s') \<Longrightarrow> length gs \<le> n"
  by (induction i n s arbitrary: gs v4 s' rule: read_groups.induct)
    (auto split: option.splits prod.splits list.splits if_splits)

lemma read_ipv6_addr_length:
  assumes "read_ipv6_addr s = Some (gs, s')"
  shows "length gs = 8"
proof -
  obtain head v4 s1 where h: "read_groups 0 8 s = (head, v4, s1)" by (rule prod_cases3)
  show ?thesis
    using assms h read_groups_length [OF h]
    by (auto simp: read_ipv6_addr_def split: if_splits list.splits prod.splits dest!: read_groups_length)
qed

lemma length_concat_groups: "length (concat (map group_octets gs)) = 2 * length gs"
  by (induction gs) (auto simp: group_octets_def)

lemma ip_from_str_wf: "ip_from_str s = Some ip \<Longrightarrow> wf_ip ip"
  by (auto simp: ip_from_str_def wf_ip_def read_ipv4_addr_def length_concat_groups
      split: option.splits if_splits prod.splits dest!: read_octets_length read_ipv6_addr_length)

end
