(* ===== verification/Xdp_Router_User.thy ===== *)
theory Xdp_Router_User
  imports Xdp_Router Interfaces Rust_Net
begin

text \<open>
  The user-space half of the XDP router (\<^verbatim>\<open>xdp_router/src/main.rs\<close>): parsing MAC addresses,
  filling the route map from the interface list, and following neighbour (ARP/NDP) updates.
  The kernel map is reached through its lookup and insert operations only; the lemmas about the
  map's content are proved in the context of the contract \<open>bpf_map\<close>.
\<close>

section \<open>Data\<close>

record iface =
  iface_index :: u32
  mac_addr :: "string option"
  iface_addrs :: "ip_addr list"

datatype neigh_attr = Destination bytes | LinkLayerAddress bytes | OtherAttr

section \<open>Operations\<close>

definition parse_mac :: "string \<Rightarrow> bytes" where
  "parse_mac mac_str =
     (let mac = replicate 6 0; parts = split_on CHR '':'' mac_str
      in if length parts = 6
         then fold (\<lambda>i mac. mac[i := (case u8_from_str_radix16 (parts ! i) of Some b \<Rightarrow> b | None \<Rightarrow> 0)])
                [0 ..< 6] mac
         else mac)"

definition key_of_ip :: "ip_addr \<Rightarrow> RouteKey" where
  "key_of_ip ip =
     (let key = \<lparr>ip_type = 0, ip_v4 = replicate 4 0, ip_v6 = replicate 16 0, key_vlan_id = 0\<rparr>
      in case ip of
           V4 v4 \<Rightarrow> key\<lparr>ip_type := 4, ip_v4 := v4\<rparr>
         | V6 v6 \<Rightarrow> key\<lparr>ip_type := 6, ip_v6 := v6\<rparr>)"

definition initial_route :: "bytes \<Rightarrow> u32 \<Rightarrow> RouteValue" where
  "initial_route mac index =
     \<lparr>src_mac = mac, dst_mac = replicate 6 0xff, if_index = index, vlan_id = 0\<rparr>"

fun install_addrs ::
    "(RouteKey \<Rightarrow> RouteValue \<Rightarrow> 'm \<Rightarrow> 'e + 'm) \<Rightarrow> bytes \<Rightarrow> u32 \<Rightarrow> ip_addr list \<Rightarrow> 'm \<Rightarrow> 'e + 'm" where
  "install_addrs ins mac index [] m = Inr m"
| "install_addrs ins mac index (ip # ips) m =
     (case ins (key_of_ip ip) (initial_route mac index) m of
        Inl e \<Rightarrow> Inl e
      | Inr m' \<Rightarrow> install_addrs ins mac index ips m')"

fun install_ifaces ::
    "(RouteKey \<Rightarrow> RouteValue \<Rightarrow> 'm \<Rightarrow> 'e + 'm) \<Rightarrow> iface list \<Rightarrow> 'm \<Rightarrow> 'e + 'm" where
  "install_ifaces ins [] m = Inr m"
| "install_ifaces ins (i # is) m =
     (case mac_addr i of
        None \<Rightarrow> install_ifaces ins is m
      | Some mac_str \<Rightarrow>
          (case install_addrs ins (parse_mac mac_str) (iface_index i) (iface_addrs i) m of
             Inl e \<Rightarrow> Inl e
           | Inr m' \<Rightarrow> install_ifaces ins is m'))"

fun ref_ll_addr :: "neigh_attr list \<Rightarrow> bytes option" where
  "ref_ll_addr [] = None"
| "ref_ll_addr (LinkLayerAddress mac # nlas) = Some mac"
| "ref_ll_addr (_ # nlas) = ref_ll_addr nlas"

text \<open>The loop of lines 110 to 126 over the attributes of one message.\<close>

fun parse_nlas ::
    "neigh_attr list \<Rightarrow> ip_addr option \<times> bytes option \<Rightarrow> ip_addr option \<times> bytes option" where
  "parse_nlas [] st = st"
| "parse_nlas (Destination ip_bytes # nlas) (dst, ll) =
     parse_nlas nlas
       (if length ip_bytes = 4 then Some (V4 ip_bytes)
        else if length ip_bytes = 16 then Some (V6 ip_bytes) else dst, ll)"
| "parse_nlas (LinkLayerAddress mac # nlas) (dst, ll) = parse_nlas nlas (dst, Some mac)"
| "parse_nlas (OtherAttr # nlas) st = parse_nlas nlas st"

definition apply_neighbour ::
    "('m \<Rightarrow> RouteKey \<Rightarrow> RouteValue option) \<Rightarrow> (RouteKey \<Rightarrow> RouteValue \<Rightarrow> 'm \<Rightarrow> 'e + 'm)
      \<Rightarrow> neigh_attr list \<Rightarrow> 'm \<Rightarrow> 'm run" where
  "apply_neighbour lookup ins nlas m =
     (case parse_nlas nlas (None, ref_ll_addr nlas) of
        (Some ip, Some mac) \<Rightarrow>
          if length mac = 6 then
            (case lookup m (key_of_ip ip) of
               Some current_route \<Rightarrow>
                 (case ins (key_of_ip ip) (current_route\<lparr>dst_mac := mac\<rparr>) m of
                    Inl _ \<Rightarrow> Panic
                  | Inr m' \<Rightarrow> Ret m')
             | None \<Rightarrow> Ret m)
          else Ret m
      | _ \<Rightarrow> Ret m)"

text \<open>A stream item is a message or a netlink error, which is logged and skipped.\<close>

fun monitor_arp_updates ::
    "('m \<Rightarrow> RouteKey \<Rightarrow> RouteValue option) \<Rightarrow> (RouteKey \<Rightarrow> RouteValue \<Rightarrow> 'm \<Rightarrow> 'e + 'm)
      \<Rightarrow> ('n + neigh_attr list) list \<Rightarrow> 'm \<Rightarrow> 'm run" where
  "monitor_arp_updates lookup ins [] m = Ret m"
| "monitor_arp_updates lookup ins (Inl _ # msgs) m = monitor_arp_updates lookup ins msgs m"
| "monitor_arp_updates lookup ins (Inr nlas # msgs) m =
     bind_run (apply_neighbour lookup ins nlas m) (monitor_arp_updates lookup ins msgs)"

lemma monitor_cons:
  "monitor_arp_updates lookup ins (msg # msgs) m =
    (case msg of Inl _ \<Rightarrow> monitor_arp_updates lookup ins msgs m
     | Inr nlas \<Rightarrow> bind_run (apply_neighbour lookup ins nlas m) (monitor_arp_updates lookup ins msgs))"
  by (cases msg) auto

section \<open>MAC addresses\<close>

lemma parse_mac_parts:
  assumes "length parts = 6" and "\<And>p. p \<in> set parts \<Longrightarrow> CHR '':'' \<notin> set p"
  shows "parse_mac (join_with CHR '':'' parts) =
    map (\<lambda>p. case u8_from_str_radix16 p of Some b \<Rightarrow> b | None \<Rightarrow> 0) parts"
proof -
  have "split_on CHR '':'' (join_with CHR '':'' parts) = parts"
    using assms by (intro split_on_join_with) auto
  moreover obtain a b c d e f where "parts = [a, b, c, d, e, f]"
    using assms(1) by (auto simp: length_Suc_conv numeral_eq_Suc)
  ultimately show ?thesis
    by (simp add: parse_mac_def upt_rec numeral_eq_Suc)
qed

lemma length_fold_update: "length (fold (\<lambda>i mac. mac[i := g i]) is mac) = length mac"
  by (induction "is" arbitrary: mac) auto

lemma length_parse_mac [simp]: "length (parse_mac s) = 6"
  by (simp add: parse_mac_def Let_def length_fold_update)

lemma hex_byte_no_colon: "CHR '':'' \<notin> set (hex_byte b)"
  using hex_byte_chars [of "CHR '':''" b] by (auto simp: byte_val_def)

text \<open>
  parsing the usual colon-separated hexadecimal form of a MAC address gives back its six
  bytes.
\<close>

lemma parse_mac_round_trip:
  assumes "length mac = 6"
  shows "parse_mac (join_with CHR '':'' (map hex_byte mac)) = mac"
  using assms by (subst parse_mac_parts) (auto simp: hex_byte_no_colon comp_def)

lemma parse_mac_round_trip_example: "parse_mac ''0a:1b:2c:3d:4e:ff'' = [0x0a, 0x1b, 0x2c, 0x3d, 0x4e, 0xff]"
proof -
  have "join_with CHR '':'' (map hex_byte [0x0a, 0x1b, 0x2c, 0x3d, 0x4e, 0xff]) = ''0a:1b:2c:3d:4e:ff''"
    by code_simp
  then show ?thesis
    using parse_mac_round_trip [of "[0x0a, 0x1b, 0x2c, 0x3d, 0x4e, 0xff]"] by simp
qed

section \<open>What the map holds\<close>

text \<open>The entries the interface list asks for, in the order the loop inserts them.\<close>

fun iface_routes :: "iface list \<Rightarrow> (RouteKey \<times> RouteValue) list" where
  "iface_routes [] = []"
| "iface_routes (i # is) =
     (case mac_addr i of
        None \<Rightarrow> []
      | Some s \<Rightarrow> map (\<lambda>ip. (key_of_ip ip, initial_route (parse_mac s) (iface_index i))) (iface_addrs i))
     @ iface_routes is"

text \<open>The shape of every entry user space ever writes.\<close>

definition user_entry :: "RouteKey \<Rightarrow> RouteValue \<Rightarrow> bool" where
  "user_entry k v \<longleftrightarrow> key_vlan_id k = 0 \<and> wf_RouteValue v"

definition user_map :: "('m \<Rightarrow> RouteKey \<Rightarrow> RouteValue option) \<Rightarrow> 'm \<Rightarrow> bool" where
  "user_map lookup m \<longleftrightarrow> (\<forall>k v. lookup m k = Some v \<longrightarrow> user_entry k v)"

lemma key_vlan_id_key_of_ip [simp]: "key_vlan_id (key_of_ip ip) = 0"
  by (simp add: key_of_ip_def Let_def split: ip_addr.split)

lemma wf_initial_route [simp]: "length mac = 6 \<Longrightarrow> wf_RouteValue (initial_route mac i)"
  by (simp add: wf_RouteValue_def initial_route_def)


lemma iface_routes_iff:
  "(k, v) \<in> set (iface_routes is) \<longleftrightarrow>
    (\<exists>i \<in> set is. \<exists>s. mac_addr i = Some s \<and>
       (\<exists>ip \<in> set (iface_addrs i). k = key_of_ip ip \<and> v = initial_route (parse_mac s) (iface_index i)))"
proof (induction "is")
  case (Cons i "is")
  then show ?case by (cases "mac_addr i") auto
qed simp

lemma iface_routes_user: "(k, v) \<in> set (iface_routes is) \<Longrightarrow> user_entry k v"
  by (auto simp: iface_routes_iff user_entry_def)

text \<open>The contract of the kernel map at the types of \<^verbatim>\<open>ROUTES\<close>.\<close>

locale route_map = bpf_map lookup ins
  for lookup :: "'m \<Rightarrow> RouteKey \<Rightarrow> RouteValue option"
    and ins :: "RouteKey \<Rightarrow> RouteValue \<Rightarrow> 'm \<Rightarrow> 'e + 'm"
begin

lemma install_addrs_lookup:
  "install_addrs ins mac index ips m = Inr m' \<Longrightarrow>
     lookup m' = lookup m ++ map_of (rev (map (\<lambda>ip. (key_of_ip ip, initial_route mac index)) ips))"
  by (induction ips arbitrary: m)
    (auto simp: insert_ok map_add_def fun_eq_iff split: sum.splits option.splits)

lemma install_ifaces_lookup:
  "install_ifaces ins is m = Inr m' \<Longrightarrow> lookup m' = lookup m ++ map_of (rev (iface_routes is))"
proof (induction "is" arbitrary: m)
  case (Cons i "is")
  then show ?case
    by (auto dest!: install_addrs_lookup split: option.splits sum.splits simp: map_add_assoc)
qed simp

lemma install_ifaces_user_map:
  assumes "install_ifaces ins is m = Inr m'" and "user_map lookup m"
  shows "user_map lookup m'"
  using assms(2) install_ifaces_lookup [OF assms(1)]
  by (auto simp: user_map_def map_add_Some_iff dest!: map_of_SomeD iface_routes_user)

lemma apply_neighbour_user_map:
  assumes "apply_neighbour lookup ins nlas m = Ret m'" and "user_map lookup m"
  shows "user_map lookup m'"
  using assms
  by (auto simp: apply_neighbour_def user_map_def user_entry_def wf_RouteValue_def insert_ok
      split: prod.splits option.splits if_splits sum.splits)

lemma monitor_user_map:
  "monitor_arp_updates lookup ins msgs m = Ret m' \<Longrightarrow> user_map lookup m \<Longrightarrow> user_map lookup m'"
  by (induction msgs arbitrary: m rule: list.induct)
    (auto simp: monitor_cons bind_run_Ret_iff split: sum.splits dest: apply_neighbour_user_map)

text \<open>A neighbour update changes no key set, and only the destination MAC of one entry.\<close>

lemma apply_neighbour_lookup:
  assumes "apply_neighbour lookup ins nlas m = Ret m'"
    and "parse_nlas nlas (None, ref_ll_addr nlas) = (Some ip, Some mac)" and "length mac = 6"
    and "lookup m (key_of_ip ip) = Some r"
  shows "lookup m' = (lookup m)(key_of_ip ip \<mapsto> r\<lparr>dst_mac := mac\<rparr>)"
  using assms by (auto simp: apply_neighbour_def insert_ok split: sum.splits)

end

interpretation routes: route_map map_of "bpf_hash_insert 1024"
  by (rule route_map.intro) (rule bpf_hash.bpf_map_axioms)

section \<open>The two halves together\<close>


















lemma frame_key_vlan:
  "14 \<le> length f \<Longrightarrow> be16 (f ! 12) (f ! 13) = ETH_P_8021Q \<Longrightarrow> frame_key f = Some k \<Longrightarrow>
     key_vlan_id k = be16 (f ! 14) (f ! 15) AND 0x0FFF"
  by (auto simp: frame_key_def ip_key_def split: if_splits)

text \<open>
  user space writes keys with VLAN id 0 only, so whatever interfaces and neighbour messages it
  has processed, an 802.1Q frame of any VLAN other than 0 is never routed: it passes unchanged to
  the kernel stack.
\<close>

lemma tagged_frames_never_routed:
  assumes "route_map lookup ins" and "lookup m0 = Map.empty"
    and "install_ifaces ins ifs m0 = Inr m1"
    and "monitor_arp_updates lookup ins msgs m1 = Ret m"
    and "14 \<le> length (frame ctx)" and "be16 (frame ctx ! 12) (frame ctx ! 13) = ETH_P_8021Q"
    and "be16 (frame ctx ! 14) (frame ctx ! 15) AND 0x0FFF \<noteq> 0"
  shows "xdp_router redirect (lookup m) ctx = (XDP_PASS, ctx)"
proof -
  have "user_map lookup m0" by (simp add: user_map_def assms(2))
  then have "user_map lookup m"
    using route_map.monitor_user_map [OF assms(1,4)]
      route_map.install_ifaces_user_map [OF assms(1,3)] by blast
  then have "Option.bind (frame_key (frame ctx)) (lookup m) \<noteq> Some r" for r
    using frame_key_vlan [OF assms(5,6)] assms(7)
    by (auto simp: user_map_def user_entry_def bind_eq_Some_conv)
  then have "Option.bind (frame_key (frame ctx)) (lookup m) = None"
    by (cases "Option.bind (frame_key (frame ctx)) (lookup m)") auto
  then show ?thesis by (simp add: xdp_router_key)
qed

section \<open>Witnesses for the end-to-end properties\<close>

definition demo_iface :: iface where
  "demo_iface = \<lparr>iface_index = 7, mac_addr = Some ''02:00:00:00:00:01'', iface_addrs = [V4 [10, 0, 0, 5]]\<rparr>"

definition demo_map :: "(RouteKey \<times> RouteValue) list" where
  "demo_map = [(key_of_ip (V4 [10, 0, 0, 5]), initial_route [2, 0, 0, 0, 0, 1] 7)]"

lemma parse_mac_demo [simp]: "parse_mac ''02:00:00:00:00:01'' = [2, 0, 0, 0, 0, 1]"
  by code_simp

lemma demo_install: "install_ifaces (bpf_hash_insert 1024) [demo_iface] [] = Inr demo_map"
  by (simp add: demo_iface_def demo_map_def bpf_hash_insert_def)







definition demo_tagged :: bytes where
  "demo_tagged = replicate 12 0xAA @ [0x81, 0x00, 0x00, 0x05, 0x08, 0x00] @ replicate 16 0 @ [10, 0, 0, 5]"

lemma tagged_frames_never_routed_example:
  "xdp_router (\<lambda>i _. i) (map_of demo_map) (packet_at 64 demo_tagged) = (XDP_PASS, packet_at 64 demo_tagged)"
proof -
  have "14 \<le> length demo_tagged" "be16 (demo_tagged ! 12) (demo_tagged ! 13) = ETH_P_8021Q"
    "be16 (demo_tagged ! 14) (demo_tagged ! 15) AND 0x0FFF \<noteq> 0"
    by code_simp+
  then show ?thesis
    using tagged_frames_never_routed [OF routes.route_map_axioms _ demo_install, of "[]" demo_map
        "packet_at 64 demo_tagged" "\<lambda>i _. i"]
    by simp
qed

end
