(* ===== verification/Xdp_Firewall.thy ===== *)
theory Xdp_Firewall
  imports Xdp Interfaces Rust_Net
begin

text \<open>
  The XDP firewall: the kernel program (\<^verbatim>\<open>xdp_firewall_ebpf/src/main.rs\<close>) that drops TCP packets
  from blocked sources, and the user-space loop (\<^verbatim>\<open>xdp_firewall/src/main.rs\<close>) that reads the block
  list and fills the longest-prefix-match trie. The trie is reached through its lookup and insert;
  the crate \<^verbatim>\<open>ipnet\<close> is a record of the operations the code calls. The main property ties both
  halves: a packet is dropped exactly when its source lies in a listed network.
\<close>

section \<open>Keys of the trie\<close>

text \<open>
  The kernel's struct starts with the prefix length; user space declares the struct without it and wraps it in
  \<^verbatim>\<open>Key\<close>, which puts the length in front. One record stands for both: it is the layout (length, type, address) of 21
  bytes that the kernel program's struct and the wrapped one of user space have. (The kernel half names its struct, length
  included, as the type parameter of \<^verbatim>\<open>LpmTrie\<close>, which wraps it once more; the model takes the program as it is
  meant, with one length in the key.)
\<close>

record IpKey =
  prefixlen :: u32
  key_ip_type :: u8
  addr :: bytes

definition byte_bits :: "u8 \<Rightarrow> bool list" where
  "byte_bits b = map (\<lambda>i. bit b (7 - i)) [0 ..< 8]"

definition addr_bits :: "bytes \<Rightarrow> bool list" where
  "addr_bits bs = concat (map byte_bits bs)"

definition key_bits :: "IpKey \<Rightarrow> bool list" where
  "key_bits k = addr_bits (key_ip_type k # addr k)"

text \<open>The kernel's rule: a stored prefix matches a key at least as long that starts with its bits.\<close>

definition lpm_match :: "IpKey \<Rightarrow> IpKey \<Rightarrow> bool" where
  "lpm_match e k \<longleftrightarrow>
     prefixlen e \<le> prefixlen k \<and>
     take (unat (prefixlen e)) (key_bits e) = take (unat (prefixlen e)) (key_bits k)"

text \<open>
  What the code relies on of \<^verbatim>\<open>BPF_MAP_TYPE_LPM_TRIE\<close>: after a successful insertion a key is found
  if and only if the new prefix matches it or it was found before.
\<close>

locale lpm_trie =
  fixes get :: "'m \<Rightarrow> IpKey \<Rightarrow> u8 option"
    and ins :: "IpKey \<Rightarrow> u8 \<Rightarrow> 'm \<Rightarrow> 'e + 'm"
  assumes ins_found: "ins e v m = Inr m' \<Longrightarrow> get m' k \<noteq> None \<longleftrightarrow> lpm_match e k \<or> get m k \<noteq> None"

text \<open>A trie of at most \<open>max_entries\<close> prefixes, searched for the longest match.\<close>

fun lpm_longest :: "IpKey \<Rightarrow> (IpKey \<times> u8) list \<Rightarrow> (u32 \<times> u8) option" where
  "lpm_longest k [] = None"
| "lpm_longest k ((e, v) # m) =
     (case lpm_longest k m of
        None \<Rightarrow> if lpm_match e k then Some (prefixlen e, v) else None
      | Some (l, w) \<Rightarrow> if lpm_match e k \<and> l < prefixlen e then Some (prefixlen e, v) else Some (l, w))"

definition lpm_get :: "(IpKey \<times> u8) list \<Rightarrow> IpKey \<Rightarrow> u8 option" where
  "lpm_get m k = map_option snd (lpm_longest k m)"

definition lpm_insert ::
    "nat \<Rightarrow> IpKey \<Rightarrow> u8 \<Rightarrow> (IpKey \<times> u8) list \<Rightarrow> bpf_error + (IpKey \<times> u8) list" where
  "lpm_insert max_entries e v m =
     (if length m < max_entries \<or> e \<in> fst ` set m
      then Inr ((e, v) # filter (\<lambda>x. fst x \<noteq> e) m) else Inl E2BIG)"

lemma lpm_get_found: "lpm_get m k \<noteq> None \<longleftrightarrow> (\<exists>e \<in> fst ` set m. lpm_match e k)"
proof -
  have "lpm_longest k m \<noteq> None \<longleftrightarrow> (\<exists>e \<in> fst ` set m. lpm_match e k)"
    by (induction k m rule: lpm_longest.induct) (auto split: option.splits)
  then show ?thesis by (simp add: lpm_get_def)
qed

interpretation lpm: lpm_trie lpm_get "lpm_insert n" for n
proof
  fix e v k and m m' :: "(IpKey \<times> u8) list"
  assume "lpm_insert n e v m = Inr m'"
  then have "fst ` set m' = insert e (fst ` set m)"
    by (auto simp: lpm_insert_def image_iff split: if_splits)
  then show "lpm_get m' k \<noteq> None \<longleftrightarrow> lpm_match e k \<or> lpm_get m k \<noteq> None"
    unfolding lpm_get_found by simp
qed

section \<open>The kernel program\<close>

definition sizeof_ethhdr :: nat where "sizeof_ethhdr = 14"
definition sizeof_iphdr :: nat where "sizeof_iphdr = 20"
definition sizeof_ipv6hdr :: nat where "sizeof_ipv6hdr = 40"

lemmas header_sizes = sizeof_ethhdr_def sizeof_iphdr_def sizeof_ipv6hdr_def

definition load_u32 :: "xdp_ctx \<Rightarrow> nat \<Rightarrow> u32" where
  "load_u32 ctx a =
     ucast (mem ctx a) OR push_bit 8 (ucast (mem ctx (a + 1)))
     OR push_bit 16 (ucast (mem ctx (a + 2))) OR push_bit 24 (ucast (mem ctx (a + 3)))"

definition to_ne_bytes :: "u32 \<Rightarrow> bytes" where
  "to_ne_bytes w = [ucast w, ucast (drop_bit 8 w), ucast (drop_bit 16 w), ucast (drop_bit 24 w)]"

definition try_xdp_firewall :: "(IpKey \<Rightarrow> u8 option) \<Rightarrow> xdp_ctx \<Rightarrow> unit + u32" where
  "try_xdp_firewall BLOCKED_IPS_get ctx =
     (let start = data ctx; end' = data_end ctx in
      if start + sizeof_ethhdr > end' then Inl ()
      else
        let proto = load_u16 ctx (start + 12) in
        if proto = u16_from_be ETH_P_IP then
          let ip_start = start + sizeof_ethhdr in
          if ip_start + sizeof_iphdr > end' then Inl ()
          else if mem ctx (ip_start + 9) \<noteq> 6 then Inr XDP_PASS
          else
            let src_ip = load_u32 ctx (ip_start + 12);
                addr_bytes = to_ne_bytes src_ip @ replicate 12 0;
                key = \<lparr>prefixlen = 40, key_ip_type = 4, addr = addr_bytes\<rparr>
            in if BLOCKED_IPS_get key \<noteq> None then Inr XDP_DROP else Inr XDP_PASS
        else if proto = u16_from_be ETH_P_IPV6 then
          let ip6_start = start + sizeof_ethhdr in
          if ip6_start + sizeof_ipv6hdr > end' then Inl ()
          else if mem ctx (ip6_start + 6) \<noteq> 6 then Inr XDP_PASS
          else
            let src_ip6 = load_bytes ctx (ip6_start + 8) 16;
                key = \<lparr>prefixlen = 136, key_ip_type = 6, addr = src_ip6\<rparr>
            in if BLOCKED_IPS_get key \<noteq> None then Inr XDP_DROP else Inr XDP_PASS
        else Inr XDP_PASS)"

definition xdp_firewall :: "(IpKey \<Rightarrow> u8 option) \<Rightarrow> xdp_ctx \<Rightarrow> u32" where
  "xdp_firewall BLOCKED_IPS_get ctx =
     (case try_xdp_firewall BLOCKED_IPS_get ctx of Inr action \<Rightarrow> action | Inl _ \<Rightarrow> XDP_PASS)"

section \<open>Its decision, on frames\<close>

text \<open>The source address of a TCP frame the firewall looks at.\<close>

definition tcp_source :: "bytes \<Rightarrow> ip_addr option" where
  "tcp_source f =
     (if length f < 14 then None
      else if be16 (f ! 12) (f ! 13) = ETH_P_IP then
        (if 34 \<le> length f \<and> f ! 23 = 6 then Some (V4 (take 4 (drop 26 f))) else None)
      else if be16 (f ! 12) (f ! 13) = ETH_P_IPV6 then
        (if 54 \<le> length f \<and> f ! 20 = 6 then Some (V6 (take 16 (drop 22 f))) else None)
      else None)"

definition src_key :: "ip_addr \<Rightarrow> IpKey" where
  "src_key ip =
     (case ip of
        V4 a \<Rightarrow> \<lparr>prefixlen = 40, key_ip_type = 4, addr = a @ replicate 12 0\<rparr>
      | V6 a \<Rightarrow> \<lparr>prefixlen = 136, key_ip_type = 6, addr = a\<rparr>)"

lemma to_ne_bytes_load: "to_ne_bytes (load_u32 ctx a) = load_bytes ctx a 4"
proof -
  have "ucast (load_u32 ctx a) = mem ctx a"
    "ucast (drop_bit 8 (load_u32 ctx a)) = mem ctx (a + 1)"
    "ucast (drop_bit 16 (load_u32 ctx a)) = mem ctx (a + 2)"
    "ucast (drop_bit 24 (load_u32 ctx a)) = mem ctx (a + 3)"
    by (rule bit_word_eqI;
        auto simp: load_u32_def bit_ucast_iff bit_or_iff bit_push_bit_iff bit_drop_bit_eq
          dest: bit_imp_le_length)+
  then show ?thesis
    by (simp add: to_ne_bytes_def load_bytes_def upt_rec eval_nat_numeral)
qed

lemma from_be_swap_iff: "le16 a b = u16_from_be (be16 c d) \<longleftrightarrow> be16 a b = be16 c d"
  by (simp add: be16_le16_swap [of c d] be16_inject) (metis be16_inject be16_le16_swap)

lemma ether_be16: "ETH_P_IP = be16 8 0" "ETH_P_IPV6 = be16 0x86 0xDD"
  by (simp_all add: ether_types be16_def)

lemma xdp_firewall_frame:
  "xdp_firewall get ctx =
    (case tcp_source (frame ctx) of
       None \<Rightarrow> XDP_PASS
     | Some src \<Rightarrow> if get (src_key src) \<noteq> None then XDP_DROP else XDP_PASS)"
proof (cases "14 \<le> length (frame ctx)")
  case False
  then show ?thesis
    by (auto simp: xdp_firewall_def try_xdp_firewall_def tcp_source_def header_sizes Let_def)
next
  case True
  let ?f = "frame ctx"
  have win: "start + n > data_end ctx \<longleftrightarrow> \<not> n \<le> length ?f" if "start = data ctx" "0 < n" for start n
    using that by auto
  have proto: "load_u16 ctx (data ctx + 12) = u16_from_be (be16 c d) \<longleftrightarrow> be16 (?f ! 12) (?f ! 13) = be16 c d" for c d
    using True load_u16_frame [of 12 ctx] by (simp add: from_be_swap_iff)
  have v4: "load_bytes ctx (data ctx + 26) 4 = take 4 (drop 26 ?f)" "mem ctx (data ctx + 23) = ?f ! 23"
    if "34 \<le> length ?f"
    using that load_bytes_frame [of 26 4 ctx] by (simp_all add: frame_nth)
  have v6: "load_bytes ctx (data ctx + 22) 16 = take 16 (drop 22 ?f)" "mem ctx (data ctx + 20) = ?f ! 20"
    if "54 \<le> length ?f"
    using that load_bytes_frame [of 22 16 ctx] by (simp_all add: frame_nth)
  consider "be16 (?f ! 12) (?f ! 13) = ETH_P_IP" | "be16 (?f ! 12) (?f ! 13) = ETH_P_IPV6"
    | "be16 (?f ! 12) (?f ! 13) \<noteq> ETH_P_IP" "be16 (?f ! 12) (?f ! 13) \<noteq> ETH_P_IPV6" by blast
  then show ?thesis
  proof cases
    case 1
    then show ?thesis
      using True v4
      by (cases "34 \<le> length ?f")
        (simp_all add: xdp_firewall_def try_xdp_firewall_def tcp_source_def header_sizes Let_def win
          ether_be16 proto to_ne_bytes_load src_key_def add.assoc del: length_frame)
  next
    case 2
    then show ?thesis
      using True v6
      by (cases "54 \<le> length ?f")
        (simp_all add: xdp_firewall_def try_xdp_firewall_def tcp_source_def header_sizes Let_def win
          ether_be16 proto be16_inject src_key_def add.assoc del: length_frame)
  next
    case 3
    then show ?thesis
      using True
      by (simp add: xdp_firewall_def try_xdp_firewall_def tcp_source_def header_sizes Let_def win
          ether_be16 proto add.assoc del: length_frame)
  qed
qed

lemma tcp_source_wf: "tcp_source f = Some ip \<Longrightarrow> wf_ip ip"
  by (auto simp: tcp_source_def wf_ip_def split: if_splits)

interpretation firewall: xdp_program "\<lambda>c. (xdp_firewall get c, c)" for get
  by (rule xdp_program_readonly) (auto simp: xdp_firewall_frame same_packet_def)

section \<open>User space: the block list\<close>

datatype ('n4, 'n6) IpNet = IpNet_V4 'n4 | IpNet_V6 'n6

text \<open>The operations of the crate \<^verbatim>\<open>ipnet\<close> the program calls.\<close>

record ('n4, 'n6) ipnet_ops =
  network4 :: "'n4 \<Rightarrow> bytes"
  prefix_len4 :: "'n4 \<Rightarrow> u8"
  new4 :: "bytes \<Rightarrow> u8 \<Rightarrow> 'n4 option"
  network6 :: "'n6 \<Rightarrow> bytes"
  prefix_len6 :: "'n6 \<Rightarrow> u8"
  new6 :: "bytes \<Rightarrow> u8 \<Rightarrow> 'n6 option"
  net_from_str :: "string \<Rightarrow> ('n4, 'n6) IpNet option"

locale ipnet_api =
  fixes N :: "('n4, 'n6) ipnet_ops"
  assumes len4: "length (network4 N n) = 4" and pfx4: "unat (prefix_len4 N n) \<le> 32"
    and len6: "length (network6 N n') = 16" and pfx6: "unat (prefix_len6 N n') \<le> 128"
    and host4: "length a = 4 \<Longrightarrow> \<exists>n. new4 N a 32 = Some n \<and> network4 N n = a \<and> prefix_len4 N n = 32"
    and host6: "length a = 16 \<Longrightarrow> \<exists>n. new6 N a 128 = Some n \<and> network6 N n = a \<and> prefix_len6 N n = 128"

text \<open>Lines 45 to 61, one line of the file: nothing, a network, or a panic of \<^verbatim>\<open>unwrap\<close>.\<close>

definition parse_entry :: "('n4, 'n6) ipnet_ops \<Rightarrow> string \<Rightarrow> ('n4, 'n6) IpNet option run" where
  "parse_entry N line =
     (let entry = trim line in
      if entry = [] \<or> starts_with entry ''#'' then Ret None
      else case net_from_str N entry of
          Some net \<Rightarrow> Ret (Some net)
        | None \<Rightarrow>
            (case ip_from_str entry of
               Some (V4 v4) \<Rightarrow>
                 (case new4 N v4 32 of Some n \<Rightarrow> Ret (Some (IpNet_V4 n)) | None \<Rightarrow> Panic)
             | Some (V6 v6) \<Rightarrow>
                 (case new6 N v6 128 of Some n \<Rightarrow> Ret (Some (IpNet_V6 n)) | None \<Rightarrow> Panic)
             | None \<Rightarrow> Ret None))"

fun collect_networks ::
    "('n4, 'n6) ipnet_ops \<Rightarrow> string list \<Rightarrow> ('n4, 'n6) IpNet set \<Rightarrow> ('n4, 'n6) IpNet set run" where
  "collect_networks N [] nets = Ret nets"
| "collect_networks N (l # ls) nets =
     bind_run (parse_entry N l)
       (\<lambda>r. collect_networks N ls (case r of None \<Rightarrow> nets | Some net \<Rightarrow> insert net nets))"

text \<open>Lines 66 to 89: the trie key of a network.\<close>

definition net_key :: "('n4, 'n6) ipnet_ops \<Rightarrow> ('n4, 'n6) IpNet \<Rightarrow> IpKey" where
  "net_key N net =
     (case net of
        IpNet_V4 v4net \<Rightarrow>
          \<lparr>prefixlen = ucast (prefix_len4 N v4net + 8), key_ip_type = 4,
           addr = network4 N v4net @ replicate 12 0\<rparr>
      | IpNet_V6 v6net \<Rightarrow>
          \<lparr>prefixlen = ucast (prefix_len6 N v6net + 8), key_ip_type = 6, addr = network6 N v6net\<rparr>)"

definition add_network ::
    "('n4, 'n6) ipnet_ops \<Rightarrow> (IpKey \<Rightarrow> u8 \<Rightarrow> 'm \<Rightarrow> 'e + 'm) \<Rightarrow> ('n4, 'n6) IpNet \<Rightarrow> 'm \<Rightarrow> 'm" where
  "add_network N ins net m = (case ins (net_key N net) 1 m of Inl _ \<Rightarrow> m | Inr m' \<Rightarrow> m')"

text \<open>
  One round of the loop of lines 38 to 97. The file is \<^const>\<open>None\<close> when it cannot be opened or
  read; \<open>iter\<close> is the order in which the standard library's HashSet yields its elements.
\<close>

definition reload_blocked ::
    "('n4, 'n6) ipnet_ops \<Rightarrow> (('n4, 'n6) IpNet set \<Rightarrow> ('n4, 'n6) IpNet list)
      \<Rightarrow> (IpKey \<Rightarrow> u8 \<Rightarrow> 'm \<Rightarrow> 'e + 'm) \<Rightarrow> string option \<Rightarrow> 'm \<Rightarrow> 'm run" where
  "reload_blocked N iter ins src m =
     (case src of
        None \<Rightarrow> Ret m
      | Some contents \<Rightarrow>
          bind_run (collect_networks N (lines contents) {})
            (\<lambda>nets. Ret (fold (add_network N ins) (iter nets) m)))"

section \<open>What the block list means\<close>

definition in_network :: "('n4, 'n6) ipnet_ops \<Rightarrow> ('n4, 'n6) IpNet \<Rightarrow> ip_addr \<Rightarrow> bool" where
  "in_network N net ip =
     (case (net, ip) of
        (IpNet_V4 n, V4 a) \<Rightarrow>
          take (unat (prefix_len4 N n)) (addr_bits a) = take (unat (prefix_len4 N n)) (addr_bits (network4 N n))
      | (IpNet_V6 n, V6 a) \<Rightarrow>
          take (unat (prefix_len6 N n)) (addr_bits a) = take (unat (prefix_len6 N n)) (addr_bits (network6 N n))
      | _ \<Rightarrow> False)"

text \<open>Every insertion of the round succeeds (the trie has room).\<close>

fun all_inserted ::
    "('n4, 'n6) ipnet_ops \<Rightarrow> (IpKey \<Rightarrow> u8 \<Rightarrow> 'm \<Rightarrow> 'e + 'm) \<Rightarrow> ('n4, 'n6) IpNet list \<Rightarrow> 'm \<Rightarrow> bool" where
  "all_inserted N ins [] m = True"
| "all_inserted N ins (net # nets) m =
     (case ins (net_key N net) 1 m of Inl _ \<Rightarrow> False | Inr m' \<Rightarrow> all_inserted N ins nets m')"

lemma length_byte_bits [simp]: "length (byte_bits b) = 8"
  by (simp add: byte_bits_def)

lemma length_addr_bits [simp]: "length (addr_bits bs) = 8 * length bs"
  by (induction bs) (simp_all add: addr_bits_def)

lemma addr_bits_Cons: "addr_bits (b # bs) = byte_bits b @ addr_bits bs"
  by (simp add: addr_bits_def)

lemma addr_bits_append: "addr_bits (xs @ ys) = addr_bits xs @ addr_bits ys"
  by (simp add: addr_bits_def)

lemma byte_bits_4_6: "byte_bits 4 \<noteq> byte_bits 6"
  by code_simp

lemma unat_prefix: "unat (p :: u8) \<le> 128 \<Longrightarrow> unat (ucast (p + 8) :: u32) = unat p + 8"
  by (simp add: unat_word_ariths unsigned_ucast_eq take_bit_eq_mod unsigned_ucast_eq)

lemma take_type_prefix:
  "take (n + 8) (byte_bits t @ xs) = take (n + 8) (byte_bits t' @ ys) \<longleftrightarrow>
     byte_bits t = byte_bits t' \<and> take n xs = take n ys"
  by simp

context ipnet_api begin

text \<open>The prefix lengths of user space fit in \<^verbatim>\<open>u8\<close>, and match the fixed lengths of the kernel keys.\<close>

lemma net_key_prefixlen:
  "unat (prefixlen (net_key N (IpNet_V4 n))) = unat (prefix_len4 N n) + 8"
  "unat (prefixlen (net_key N (IpNet_V6 n'))) = unat (prefix_len6 N n') + 8"
  using pfx4 [of n] pfx6 [of n'] by (simp_all add: net_key_def unat_prefix)

lemma lpm_match_in_network:
  assumes "wf_ip ip"
  shows "lpm_match (net_key N net) (src_key ip) \<longleftrightarrow> in_network N net ip"
proof (cases net)
  case (IpNet_V4 n)
  show ?thesis
  proof (cases ip)
    case (V4 a)
    with assms have "length a = 4" by (simp add: wf_ip_def)
    then show ?thesis
      using pfx4 [of n] len4 [of n]
      by (simp add: IpNet_V4 V4 lpm_match_def word_le_nat_alt net_key_prefixlen in_network_def)
        (auto simp: net_key_def src_key_def key_bits_def addr_bits_Cons addr_bits_append)
  next
    case (V6 a)
    then show ?thesis
      using byte_bits_4_6
      by (simp add: IpNet_V4 lpm_match_def word_le_nat_alt net_key_prefixlen in_network_def)
        (simp add: net_key_def src_key_def key_bits_def addr_bits_Cons)
  qed
next
  case (IpNet_V6 n)
  show ?thesis
  proof (cases ip)
    case (V6 a)
    then show ?thesis
      using pfx6 [of n]
      by (simp add: IpNet_V6 lpm_match_def word_le_nat_alt net_key_prefixlen in_network_def)
        (auto simp: net_key_def src_key_def key_bits_def addr_bits_Cons)
  next
    case (V4 a)
    then show ?thesis
      using byte_bits_4_6
      by (simp add: IpNet_V6 lpm_match_def word_le_nat_alt net_key_prefixlen in_network_def)
        (simp add: net_key_def src_key_def key_bits_def addr_bits_Cons)
  qed
qed

lemma parse_entry_no_panic: "parse_entry N line \<noteq> Panic"
proof (cases "ip_from_str (trim line)")
  case None
  then show ?thesis by (simp add: parse_entry_def Let_def split: option.split)
next
  case (Some ip)
  then have "wf_ip ip" by (rule ip_from_str_wf)
  then have "(\<exists>a n. ip = V4 a \<and> new4 N a 32 = Some n) \<or> (\<exists>a n. ip = V6 a \<and> new6 N a 128 = Some n)"
    using host4 host6 by (cases ip) (fastforce simp: wf_ip_def)+
  with Some show ?thesis
    by (auto simp: parse_entry_def Let_def split: option.split)
qed

lemma collect_networks_total: "\<exists>nets'. collect_networks N ls nets = Ret nets'"
proof (induction ls arbitrary: nets)
  case (Cons l ls)
  from parse_entry_no_panic obtain r where "parse_entry N l = Ret r"
    by (cases "parse_entry N l") auto
  with Cons show ?case by simp
qed simp

lemma reload_total_aux: "\<exists>m'. reload_blocked N iter ins src m = Ret m'"
proof (cases src)
  case (Some contents)
  moreover obtain nets where "collect_networks N (lines contents) {} = Ret nets"
    using collect_networks_total by blast
  ultimately show ?thesis by (simp add: reload_blocked_def)
qed (simp add: reload_blocked_def)

end

lemma collect_networks_finite:
  "collect_networks N ls nets = Ret nets' \<Longrightarrow> finite nets \<Longrightarrow> finite nets'"
  by (induction ls arbitrary: nets) (auto simp: bind_run_Ret_iff split: option.splits)

lemma collect_networks_set:
  "collect_networks N ls nets = Ret nets' \<Longrightarrow>
     nets' = nets \<union> {net. \<exists>l \<in> set ls. parse_entry N l = Ret (Some net)}"
proof (induction ls arbitrary: nets)
  case (Cons l ls)
  from Cons.prems obtain r where r: "parse_entry N l = Ret r"
    and rest: "collect_networks N ls (case r of None \<Rightarrow> nets | Some net \<Rightarrow> insert net nets) = Ret nets'"
    by (auto simp: bind_run_Ret_iff)
  from Cons.IH [OF rest] show ?case
    by (cases r) (auto simp: r)
qed simp

text \<open>The environment of the whole program: a trie and the address library.\<close>

locale firewall_env = lpm_trie get ins + ipnet_api N
  for get :: "'m \<Rightarrow> IpKey \<Rightarrow> u8 option" and ins :: "IpKey \<Rightarrow> u8 \<Rightarrow> 'm \<Rightarrow> 'e + 'm"
    and N :: "('n4, 'n6) ipnet_ops"
begin

lemma add_networks_mono: "get m k \<noteq> None \<Longrightarrow> get (fold (add_network N ins) nets m) k \<noteq> None"
proof (induction nets arbitrary: m)
  case (Cons net nets)
  have "get (add_network N ins net m) k \<noteq> None"
    using Cons.prems ins_found [of "net_key N net" 1 m _ k]
    by (cases "ins (net_key N net) 1 m") (simp_all add: add_network_def del: not_None_eq)
  then show ?case using Cons.IH by simp
qed simp

lemma add_networks_sound:
  "get (fold (add_network N ins) nets m) k \<noteq> None \<Longrightarrow>
     get m k \<noteq> None \<or> (\<exists>net \<in> set nets. lpm_match (net_key N net) k)"
proof (induction nets arbitrary: m)
  case (Cons net nets)
  then consider "get (add_network N ins net m) k \<noteq> None" | "\<exists>net \<in> set nets. lpm_match (net_key N net) k"
    by auto
  then show ?case
  proof cases
    case 1
    then show ?thesis
      using ins_found [of "net_key N net" 1 m _ k]
      by (cases "ins (net_key N net) 1 m") (auto simp: add_network_def)
  qed auto
qed simp

lemma add_networks_found:
  "all_inserted N ins nets m \<Longrightarrow> net \<in> set nets \<Longrightarrow> lpm_match (net_key N net) k \<Longrightarrow>
     get (fold (add_network N ins) nets m) k \<noteq> None"
proof (induction nets arbitrary: m)
  case (Cons n nets)
  from Cons.prems(1) obtain m' where m': "ins (net_key N n) 1 m = Inr m'" "all_inserted N ins nets m'"
    by (auto split: sum.splits)
  then have add: "add_network N ins n m = m'" by (simp add: add_network_def)
  show ?case
  proof (cases "net = n")
    case True
    then have "get m' k \<noteq> None" using m'(1) Cons.prems(3) ins_found by blast
    then have "get (fold (add_network N ins) nets m') k \<noteq> None" by (rule add_networks_mono)
    then show ?thesis by (simp add: add del: not_None_eq)
  next
    case False
    with Cons.prems have "get (fold (add_network N ins) nets m') k \<noteq> None"
      by (intro Cons.IH m'(2)) auto
    then show ?thesis by (simp add: add del: not_None_eq)
  qed
qed simp

lemma add_networks_exact:
  assumes "all_inserted N ins nets m" and "wf_ip ip"
  shows "get (fold (add_network N ins) nets m) (src_key ip) \<noteq> None \<longleftrightarrow>
    get m (src_key ip) \<noteq> None \<or> (\<exists>net \<in> set nets. in_network N net ip)"
  using add_networks_mono add_networks_sound add_networks_found [OF assms(1)]
    lpm_match_in_network [OF assms(2)]
  by metis

end

section \<open>A concrete address library\<close>

text \<open>
  Networks as address and prefix length, the network address with its host bits cleared: one
  implementation of the operations, which shows that the contract can be met.
\<close>

definition mask_byte :: "nat \<Rightarrow> u8 \<Rightarrow> u8" where
  "mask_byte n b = (if n \<ge> 8 then b else push_bit (8 - n) (drop_bit (8 - n) b))"

definition mask_bytes :: "nat \<Rightarrow> nat \<Rightarrow> bytes \<Rightarrow> bytes" where
  "mask_bytes sz n a = map (\<lambda>i. mask_byte (n - 8 * i) (if i < length a then a ! i else 0)) [0 ..< sz]"

definition cidr_ops :: "(string \<Rightarrow> (bytes \<times> u8, bytes \<times> u8) IpNet option) \<Rightarrow> (bytes \<times> u8, bytes \<times> u8) ipnet_ops" where
  "cidr_ops parse =
     \<lparr>network4 = (\<lambda>(a, n). mask_bytes 4 (unat (min n 32)) a), prefix_len4 = (\<lambda>(a, n). min n 32),
      new4 = (\<lambda>a n. if n \<le> 32 then Some (a, n) else None),
      network6 = (\<lambda>(a, n). mask_bytes 16 (unat (min n 128)) a), prefix_len6 = (\<lambda>(a, n). min n 128),
      new6 = (\<lambda>a n. if n \<le> 128 then Some (a, n) else None),
      net_from_str = parse\<rparr>"

lemma mask_bytes_full: "length a = sz \<Longrightarrow> mask_bytes sz (8 * sz) a = a"
  by (rule nth_equalityI) (auto simp: mask_bytes_def mask_byte_def)

interpretation cidr: ipnet_api "cidr_ops parse" for parse
proof
  fix n n' :: "bytes \<times> u8" and a :: bytes
  show "length (network4 (cidr_ops parse) n) = 4" "length (network6 (cidr_ops parse) n') = 16"
    by (simp_all add: cidr_ops_def mask_bytes_def split: prod.split)
  show "unat (prefix_len4 (cidr_ops parse) n) \<le> 32" "unat (prefix_len6 (cidr_ops parse) n') \<le> 128"
    by (simp_all add: cidr_ops_def min_def word_le_nat_alt split: prod.split)
  show "\<exists>n. new4 (cidr_ops parse) a 32 = Some n \<and> network4 (cidr_ops parse) n = a \<and> prefix_len4 (cidr_ops parse) n = 32"
    if "length a = 4"
    using that mask_bytes_full [of a 4] by (simp add: cidr_ops_def)
  show "\<exists>n. new6 (cidr_ops parse) a 128 = Some n \<and> network6 (cidr_ops parse) n = a \<and> prefix_len6 (cidr_ops parse) n = 128"
    if "length a = 16"
    using that mask_bytes_full [of a 16] by (simp add: cidr_ops_def)
qed

interpretation fw: firewall_env lpm_get "lpm_insert 4096" "cidr_ops parse" for parse
  by unfold_locales

section \<open>Properties\<close>

text \<open>
  the firewall decides as its block list says. Starting from an empty trie, after one round of
  the user-space loop in which every insertion succeeded, a packet is dropped if and only if it is
  a TCP packet (IPv4 or IPv6, long enough for its headers) whose source address lies in a network
  of the file; every other packet passes.
\<close>

lemma firewall_drops_exactly_listed_sources:
  assumes "firewall_env get ins N"
    and "set (iter nets) = nets"
    and "\<And>k. get m k = None"
    and "collect_networks N (lines contents) {} = Ret nets"
    and "all_inserted N ins (iter nets) m"
    and "reload_blocked N iter ins (Some contents) m = Ret m'"
  shows "xdp_firewall (get m') ctx =
    (case tcp_source (frame ctx) of
       None \<Rightarrow> XDP_PASS
     | Some src \<Rightarrow> if \<exists>net \<in> nets. in_network N net src then XDP_DROP else XDP_PASS)"
proof (cases "tcp_source (frame ctx)")
  case None
  then show ?thesis by (simp add: xdp_firewall_frame)
next
  case (Some src)
  have m': "m' = fold (add_network N ins) (iter nets) m"
    using assms(4,6) by (simp add: reload_blocked_def)
  have "get m' (src_key src) \<noteq> None \<longleftrightarrow> (\<exists>net \<in> nets. in_network N net src)"
    using firewall_env.add_networks_exact [OF assms(1,5) tcp_source_wf [OF Some]] assms(2,3) m' by simp
  with Some show ?thesis
    by (simp add: xdp_firewall_frame del: not_None_eq)
qed

text \<open>
  a reload never unblocks: a source that is blocked stays blocked after any number of later
  rounds, whatever the file then contains, because the loop only inserts into the trie.
\<close>

lemma reload_never_unblocks:
  assumes "firewall_env get ins N"
    and "xdp_firewall (get m) ctx = XDP_DROP"
    and "reload_blocked N iter ins contents m = Ret m'"
  shows "xdp_firewall (get m') ctx = XDP_DROP"
proof -
  from assms(2) obtain src where src: "tcp_source (frame ctx) = Some src" "get m (src_key src) \<noteq> None"
    by (auto simp: xdp_firewall_frame xdp_verdicts split: option.splits if_splits)
  have "get m' (src_key src) \<noteq> None"
    using assms(3) src(2) firewall_env.add_networks_mono [OF assms(1) src(2)]
    by (auto simp: reload_blocked_def bind_run_Ret_iff split: option.splits)
  with src(1) show ?thesis by (simp add: xdp_firewall_frame)
qed

text \<open>
  a round of the user-space loop never panics: whatever the file holds, every line is skipped
  or becomes a network, and a file that cannot be read changes nothing.
\<close>

lemma reload_total:
  assumes "ipnet_api N"
  shows "\<exists>m'. reload_blocked N iter ins src m = Ret m'"
  using assms by (rule ipnet_api.reload_total_aux)

section \<open>Witnesses\<close>

definition demo_nets :: "string \<Rightarrow> (bytes \<times> u8, bytes \<times> u8) IpNet option" where
  "demo_nets s = (if s = ''10.0.0.0/24'' then Some (IpNet_V4 ([10, 0, 0, 0], 24)) else None)"

definition demo_tcp :: bytes where
  "demo_tcp = replicate 12 0 @ [8, 0] @ replicate 9 0 @ [6, 0, 0, 10, 0, 0, 7, 10, 0, 0, 1]"

abbreviation demo_N :: "(bytes \<times> u8, bytes \<times> u8) ipnet_ops" where
  "demo_N \<equiv> cidr_ops demo_nets"

abbreviation demo_iter :: "(bytes \<times> u8, bytes \<times> u8) IpNet set \<Rightarrow> (bytes \<times> u8, bytes \<times> u8) IpNet list" where
  "demo_iter \<equiv> (\<lambda>_. [IpNet_V4 ([10, 0, 0, 0], 24)])"

lemma demo_collect: "collect_networks demo_N (lines ''10.0.0.0/24'') {} = Ret {IpNet_V4 ([10, 0, 0, 0], 24)}"
  by (simp add: lines_def parse_entry_def trim_def is_ws_def byte_val_def cidr_ops_def demo_nets_def)

lemma demo_tcp_source: "tcp_source demo_tcp = Some (V4 [10, 0, 0, 7])"
  by code_simp

lemma demo_in_network: "in_network demo_N (IpNet_V4 ([10, 0, 0, 0], 24)) (V4 [10, 0, 0, 7])"
  by code_simp

lemma demo_reload:
  "\<exists>m'. reload_blocked demo_N demo_iter (lpm_insert 4096) src m = Ret m'"
  by (rule ipnet_api.reload_total_aux [OF cidr.ipnet_api_axioms])

lemma firewall_drops_exactly_listed_sources_example:
  "\<exists>m'. reload_blocked demo_N demo_iter (lpm_insert 4096) (Some ''10.0.0.0/24'') [] = Ret m' \<and>
     xdp_firewall (lpm_get m') (packet_at 0 demo_tcp) = XDP_DROP"
proof -
  obtain m' where m': "reload_blocked demo_N demo_iter (lpm_insert 4096) (Some ''10.0.0.0/24'') [] = Ret m'"
    using demo_reload by blast
  have "xdp_firewall (lpm_get m') (packet_at 0 demo_tcp) = XDP_DROP"
    using firewall_drops_exactly_listed_sources [OF fw.firewall_env_axioms _ _ demo_collect _ m',
        of "packet_at 0 demo_tcp"] demo_in_network
    by (simp add: lpm_get_def lpm_insert_def demo_tcp_source)
  with m' show ?thesis by blast
qed

lemma reload_never_unblocks_example:
  "\<exists>m m'. xdp_firewall (lpm_get m) (packet_at 0 demo_tcp) = XDP_DROP \<and>
     reload_blocked demo_N demo_iter (lpm_insert 4096) (Some ''# empty'') m = Ret m' \<and>
     xdp_firewall (lpm_get m') (packet_at 0 demo_tcp) = XDP_DROP"
proof -
  let ?m = "[(\<lparr>prefixlen = 8, key_ip_type = 4, addr = replicate 16 0\<rparr>, 1)]"
  obtain m' where m': "reload_blocked demo_N demo_iter (lpm_insert 4096) (Some ''# empty'') ?m = Ret m'"
    using demo_reload by blast
  have "xdp_firewall (lpm_get ?m) (packet_at 0 demo_tcp) = XDP_DROP"
    by (simp add: xdp_firewall_frame demo_tcp_source src_key_def lpm_get_def lpm_match_def key_bits_def
        addr_bits_Cons)
  then show ?thesis
    using m' reload_never_unblocks [OF fw.firewall_env_axioms _ m', of "packet_at 0 demo_tcp"] by blast
qed

lemma reload_total_example:
  "\<exists>m'. reload_blocked demo_N demo_iter (lpm_insert 4096) (Some ''300.1.2.3'') [] = Ret m'"
  by (rule reload_total [OF cidr.ipnet_api_axioms])

end
