(* ===== verification/Lsm_Hooks.thy ===== *)
theory Lsm_Hooks
  imports Interfaces
begin

text \<open>
  The LSM hook on \<^verbatim>\<open>file_open\<close> and the loader of its rules
  (\<^verbatim>\<open>lsm_hooks/common\<close>, \<^verbatim>\<open>lsm_hooks/bpf\<close>, \<^verbatim>\<open>lsm_hooks/userspace\<close>).

  The kernel's helper \<^verbatim>\<open>bpf_d_path\<close> is the parameter \<open>d_path\<close>: it maps a path and the buffer it is
  given to its return value and the buffer after the call. The rule map is a parameter with the
  contract \<open>bpf_map\<close>. The file of rules is a sequence of lines each of which can fail to be read.
\<close>

section \<open>The common crate\<close>

definition MAX_PATH_LEN :: nat where "MAX_PATH_LEN = 256"
definition AUTH_OPEN :: u32 where "AUTH_OPEN = push_bit 0 1"
definition AUTH_READ :: u32 where "AUTH_READ = push_bit 1 1"
definition AUTH_WRITE :: u32 where "AUTH_WRITE = push_bit 2 1"
definition AUTH_EXEC :: u32 where "AUTH_EXEC = push_bit 3 1"

record FileRuleKey = key_path :: bytes
record FileRuleValue = allowed_mask :: u32

section \<open>The hook\<close>

record 'path kfile =
  f_path :: 'path
  f_flags :: u32

definition requested_mask :: "u32 \<Rightarrow> u32" where
  "requested_mask flags =
     (let m0 = 0;
          m1 = (if flags AND 0x0003 = 0x0000 then m0 OR AUTH_READ else m0);
          m2 = (if flags AND 0x0003 = 0x0001 then m1 OR AUTH_WRITE else m1);
          m3 = (if flags AND 0x0003 = 0x0002 then m2 OR (AUTH_READ OR AUTH_WRITE) else m2);
          m4 = (if flags AND 0x0020 \<noteq> 0 then m3 OR AUTH_EXEC else m3)
      in m4 OR AUTH_OPEN)"

definition file_open ::
    "(FileRuleKey \<Rightarrow> FileRuleValue option) \<Rightarrow> ('path \<Rightarrow> bytes \<Rightarrow> int \<times> bytes) \<Rightarrow> 'path kfile option \<Rightarrow> int" where
  "file_open rules_get d_path f =
     (case f of
        None \<Rightarrow> 0
      | Some f \<Rightarrow>
          (let (len, path_buf) = d_path (f_path f) (replicate MAX_PATH_LEN 0)
           in if len \<le> 0 then 0
              else case rules_get \<lparr>key_path = path_buf\<rparr> of
                  None \<Rightarrow> 0
                | Some rule \<Rightarrow>
                    (if allowed_mask rule AND requested_mask (f_flags f) \<noteq> requested_mask (f_flags f)
                     then - 13 else 0)))"

section \<open>The loader\<close>

definition path_key :: "string \<Rightarrow> FileRuleKey" where
  "path_key file_path =
     (let src_bytes = as_bytes file_path;
          len = min (length src_bytes) (MAX_PATH_LEN - 1)
      in \<lparr>key_path = take len src_bytes @ replicate (MAX_PATH_LEN - len) 0\<rparr>)"

definition rule_mask :: "string list \<Rightarrow> u32" where
  "rule_mask parts =
     (let m0 = 0;
          m1 = (if parts ! 1 = ''1'' then m0 OR AUTH_OPEN else m0);
          m2 = (if parts ! 2 = ''1'' then m1 OR AUTH_READ else m1);
          m3 = (if parts ! 3 = ''1'' then m2 OR AUTH_WRITE else m2)
      in if parts ! 4 = ''1'' then m3 OR AUTH_EXEC else m3)"

text \<open>What is printed to the standard error, and what the reload returns.\<close>

datatype rule_log = Incorrect_format string | Cannot_insert string

datatype line_result = Skip | Bad_format | Insert_rule string FileRuleKey FileRuleValue

definition read_rule :: "string \<Rightarrow> line_result" where
  "read_rule line =
     (if trim line = [] \<or> starts_with line ''#'' then Skip
      else let parts = split_whitespace line
           in if length parts \<noteq> 5 then Bad_format
              else Insert_rule (parts ! 0) (path_key (parts ! 0)) \<lparr>allowed_mask = rule_mask parts\<rparr>)"

fun reload_lines ::
    "(FileRuleKey \<Rightarrow> FileRuleValue \<Rightarrow> 'm \<Rightarrow> 'e + 'm) \<Rightarrow> ('io + string) list \<Rightarrow> 'm \<Rightarrow> ('io + unit) \<times> 'm \<times> rule_log list" where
  "reload_lines ins [] m = (Inr (), m, [])"
| "reload_lines ins (Inl e # ls) m = (Inl e, m, [])"
| "reload_lines ins (Inr line # ls) m =
     (case read_rule line of
        Skip \<Rightarrow> reload_lines ins ls m
      | Bad_format \<Rightarrow>
          (let (r, m', out) = reload_lines ins ls m in (r, m', Incorrect_format line # out))
      | Insert_rule p k v \<Rightarrow>
          (case ins k v m of
             Inr m1 \<Rightarrow> reload_lines ins ls m1
           | Inl e \<Rightarrow>
               (let (r, m', out) = reload_lines ins ls m in (r, m', Cannot_insert p # out))))"

definition reload_rules ::
    "(FileRuleKey \<Rightarrow> FileRuleValue \<Rightarrow> 'm \<Rightarrow> 'e + 'm) \<Rightarrow> ('io + ('io + string) list) \<Rightarrow> 'm
     \<Rightarrow> ('io + unit) \<times> 'm \<times> rule_log list" where
  "reload_rules ins opened m =
     (case opened of Inl e \<Rightarrow> (Inl e, m, []) | Inr reader \<Rightarrow> reload_lines ins reader m)"

text \<open>
  The watcher's events: the loop reloads on a modification or a creation and goes on after an error.
  Each event comes with what opening the file gives at that moment.
\<close>

datatype event = Modify | Create | Other_event

fun watch_loop ::
    "(FileRuleKey \<Rightarrow> FileRuleValue \<Rightarrow> 'm \<Rightarrow> 'e + 'm) \<Rightarrow> (('n + event) \<times> ('io + ('io + string) list)) list \<Rightarrow> 'm \<Rightarrow> 'm" where
  "watch_loop ins [] m = m"
| "watch_loop ins ((res, opened) # evs) m =
     watch_loop ins evs
       (case res of
          Inr kind \<Rightarrow> if kind = Modify \<or> kind = Create then fst (snd (reload_rules ins opened m)) else m
        | Inl _ \<Rightarrow> m)"

section \<open>Masks as permission sets\<close>

datatype perm = Open | Read | Write | Exec

definition needs :: "u32 \<Rightarrow> perm set" where
  "needs flags = {Open}
     \<union> (if flags AND 3 = 0 \<or> flags AND 3 = 2 then {Read} else {})
     \<union> (if flags AND 3 = 1 \<or> flags AND 3 = 2 then {Write} else {})
     \<union> (if flags AND 0x20 \<noteq> 0 then {Exec} else {})"

definition grants :: "string list \<Rightarrow> perm set" where
  "grants parts = (if parts ! 1 = ''1'' then {Open} else {}) \<union> (if parts ! 2 = ''1'' then {Read} else {})
     \<union> (if parts ! 3 = ''1'' then {Write} else {}) \<union> (if parts ! 4 = ''1'' then {Exec} else {})"

lemma mask_covers_iff:
  "rule_mask parts AND requested_mask flags = requested_mask flags \<longleftrightarrow> needs flags \<subseteq> grants parts"
  by (cases "parts ! 1 = ''1''"; cases "parts ! 2 = ''1''"; cases "parts ! 3 = ''1''"; cases "parts ! 4 = ''1''")
    (simp_all add: rule_mask_def requested_mask_def needs_def grants_def Let_def
       AUTH_OPEN_def AUTH_READ_def AUTH_WRITE_def AUTH_EXEC_def)

section \<open>What a reload does to the map\<close>

definition sets_key :: "FileRuleKey \<Rightarrow> 'io + string \<Rightarrow> bool" where
  "sets_key k x = (case x of Inl e \<Rightarrow> False
     | Inr line \<Rightarrow> (case read_rule line of Insert_rule p k' v \<Rightarrow> k' = k | _ \<Rightarrow> False))"

lemma sets_key_iff: "sets_key k x \<longleftrightarrow> (\<exists>line p v. x = Inr line \<and> read_rule line = Insert_rule p k v)"
proof (cases x)
  case (Inr line)
  then show ?thesis by (cases "read_rule line") (auto simp: sets_key_def)
qed (simp add: sets_key_def)

text \<open>The loader's view of the rule map: the contract of a kernel map, at the loader's types.\<close>

locale rule_map = bpf_map lookup ins
  for lookup :: "'m \<Rightarrow> FileRuleKey \<Rightarrow> FileRuleValue option"
    and ins :: "FileRuleKey \<Rightarrow> FileRuleValue \<Rightarrow> 'm \<Rightarrow> 'e + 'm"
begin

lemma reload_lines_other:
  "list_all (\<lambda>x. \<not> sets_key k x) ls \<Longrightarrow> reload_lines ins ls m = (r, m', out) \<Longrightarrow> lookup m' k = lookup m k"
proof (induction ls arbitrary: m r out)
  case (Cons x ls)
  show ?case
  proof (cases x)
    case (Inr line)
    with Cons show ?thesis
      by (cases "read_rule line")
        (fastforce simp: sets_key_def insert_ok split: sum.splits prod.splits)+
  qed (use Cons.prems in auto)
qed auto

text \<open>The last line that names a key decides its rule, unless its insertion is reported to have failed.\<close>

lemma reload_lines_last:
  assumes "list_all (\<lambda>x. \<not> isl x) pre" and "read_rule line = Insert_rule p k v"
    and "list_all (\<lambda>x. \<not> sets_key k x) post"
    and "reload_lines ins (pre @ Inr line # post) m = (r, m', out)" and "Cannot_insert p \<notin> set out"
  shows "lookup m' k = Some v"
  using assms
proof (induction pre arbitrary: m r out)
  case Nil
  show ?case
  proof (cases "ins k v m")
    case (Inl e)
    with Nil.prems show ?thesis by (auto split: prod.splits)
  next
    case (Inr m1)
    with Nil.prems have "reload_lines ins post m1 = (r, m', out)" by simp
    with Nil.prems(3) Inr show ?thesis by (simp add: reload_lines_other insert_ok)
  qed
next
  case (Cons x pre)
  then obtain l where x: "x = Inr l" by (cases x) auto
  show ?case
  proof (cases "read_rule l")
    case (Insert_rule p' k' v')
    with Cons x show ?thesis
      by (cases "ins k' v' m") (auto split: prod.splits)
  qed (use Cons x in \<open>auto split: prod.splits\<close>)
qed

text \<open>A key that a reload puts into the map belongs to one of its lines.\<close>

lemma reload_lines_keys:
  "reload_lines ins ls m = (r, m', out) \<Longrightarrow> lookup m' k \<noteq> None \<Longrightarrow> lookup m k \<noteq> None \<or> list_ex (sets_key k) ls"
  using reload_lines_other [of k ls m r m' out] by (cases "list_ex (sets_key k) ls") (simp_all add: list_ex_iff list_all_iff)

lemma reload_lines_keeps_keys:
  "reload_lines ins ls m = (r, m', out) \<Longrightarrow> lookup m k \<noteq> None \<Longrightarrow> lookup m' k \<noteq> None"
proof (induction ls arbitrary: m r out)
  case (Cons x ls)
  show ?case
  proof (cases x)
    case (Inr line)
    with Cons show ?thesis
      by (cases "read_rule line")
        (fastforce simp: insert_ok simp del: not_None_eq split: sum.splits prod.splits)+
  qed (use Cons.prems in auto)
qed auto

lemma watch_loop_keeps_keys: "lookup m k \<noteq> None \<Longrightarrow> lookup (watch_loop ins evs m) k \<noteq> None"
proof (induction evs arbitrary: m)
  case (Cons ev evs)
  obtain res opened where ev: "ev = (res, opened)" by (cases ev)
  have "lookup (fst (snd (reload_rules ins opened m))) k \<noteq> None"
  proof (cases opened)
    case (Inr reader)
    obtain r m' out where "reload_lines ins reader m = (r, m', out)" by (cases "reload_lines ins reader m") auto
    with reload_lines_keeps_keys [OF this Cons.prems] Inr show ?thesis by (simp add: reload_rules_def)
  qed (use Cons.prems in \<open>simp add: reload_rules_def\<close>)
  with Cons.prems show ?case
    by (auto simp: ev simp del: not_None_eq intro!: Cons.IH split: sum.split)
qed simp

end

interpretation rules: rule_map map_of "bpf_hash_insert 1024"
  by (rule rule_map.intro) (rule bpf_hash.bpf_map_axioms)

section \<open>Keys\<close>

lemma key_path_key: "key_path (path_key p) = take 255 (as_bytes p) @ replicate (256 - min (length p) 255) 0"
  by (simp add: path_key_def MAX_PATH_LEN_def min_def Let_def)

lemma path_key_short: "length p \<le> 255 \<Longrightarrow> key_path (path_key p) = as_bytes p @ replicate (256 - length p) 0"
  by (simp add: key_path_key min_def)

lemma split_whitespace_chars: "w \<in> set (split_whitespace s) \<Longrightarrow> c \<in> set w \<Longrightarrow> c \<in> set s"
proof (induction s rule: split_whitespace.induct)
  case (1 s)
  show ?case
  proof (cases "dropWhile is_ws s")
    case Nil
    with "1.prems" show ?thesis by (simp add: split_whitespace.simps [of s])
  next
    case (Cons d ds)
    have sub: "set (d # ds) \<subseteq> set s"
      by (metis Cons set_dropWhileD subsetI)
    from "1.prems"(1) Cons consider "w = d # takeWhile (\<lambda>x. \<not> is_ws x) ds"
      | "w \<in> set (split_whitespace (dropWhile (\<lambda>x. \<not> is_ws x) ds))"
      by (auto simp: split_whitespace.simps [of s])
    then show ?thesis
    proof cases
      case 1
      with "1.prems"(2) sub show ?thesis by (auto dest: set_takeWhileD)
    next
      case 2
      from "1.IH" [OF Cons this "1.prems"(2)] sub show ?thesis by (auto dest: set_dropWhileD)
    qed
  qed
qed

text \<open>In the key of a path without NUL bytes, everything after the first zero is zero.\<close>

lemma path_key_zero_tail:
  assumes "CHR 0x00 \<notin> set p" and "key_path (path_key p) = xs @ 0 # ys"
  shows "set ys \<subseteq> {0}"
proof -
  have nz: "0 \<notin> set (as_bytes p)"
  proof
    assume "0 \<in> set (as_bytes p)"
    then obtain c where "c \<in> set p" "(of_char c :: u8) = of_char (CHR 0x00)" by (auto simp: as_bytes_def)
    then show False using assms(1) as_bytes_inject [of "[c]" "[CHR 0x00]"] by (simp add: as_bytes_def)
  qed
  let ?p = "take 255 (as_bytes p)" and ?n = "256 - min (length p) 255"
  from assms(2) have eq: "?p @ replicate ?n 0 = xs @ 0 # ys" by (simp add: key_path_key)
  have "length ?p \<le> length xs"
  proof (rule ccontr)
    assume "\<not> length ?p \<le> length xs"
    then have less: "length xs < length ?p" by (simp only: not_le)
    have "(?p @ replicate ?n 0) ! length xs = 0" unfolding eq by simp
    with less have "?p ! length xs = 0" by (simp only: nth_append if_True)
    with nth_mem [OF less] have "0 \<in> set ?p" by simp
    with nz show False by (meson in_set_takeD)
  qed
  then have "0 # ys = drop (length xs - length ?p) (replicate ?n 0)"
    using arg_cong [OF eq, of "drop (length xs)"] by simp
  then show ?thesis by (cases "?n - (length xs - length ?p)") (auto simp: drop_replicate)
qed

section \<open>Properties\<close>

text \<open>
  What \<^verbatim>\<open>bpf_d_path\<close> reports for the path \<open>p\<close>: its length with the terminator, and the path, the
  terminator and some \<open>tail\<close> in the 256 bytes of the buffer.
\<close>

definition reports :: "('path \<Rightarrow> bytes \<Rightarrow> int \<times> bytes) \<Rightarrow> 'path \<Rightarrow> string \<Rightarrow> bytes \<Rightarrow> bool" where
  "reports d_path fp p tail \<longleftrightarrow> length p + 1 + length tail = MAX_PATH_LEN
     \<and> d_path fp (replicate MAX_PATH_LEN 0) = (int (length p) + 1, as_bytes p @ 0 # tail)"

text \<open>
  C9: A rule of the file is enforced: after a reload in which every line up to the rule's was readable, no later
  line names the same path and its insertion was not reported as failed, opening the file whose reported path
  is the rule's (at most 255 bytes, and the rest of the buffer zero) returns 0 if the line grants every
  permission that the open flags ask for (open always, read, write or both by the access mode, exec by the
  exec flag) and -13 otherwise.\<close>

theorem lsm_rule_enforced:
  assumes "rule_map lookup ins"
    and "reload_rules ins (Inr (pre @ Inr line # post)) m = (r, m', out)"
    and "list_all (\<lambda>x. \<not> isl x) pre"
    and "trim line \<noteq> []" and "\<not> starts_with line ''#''" and "split_whitespace line = [p, c1, c2, c3, c4]"
    and "list_all (\<lambda>x. \<not> sets_key (path_key p) x) post"
    and "Cannot_insert p \<notin> set out"
    and "reports d_path (f_path f) p (replicate (255 - length p) 0)" and "length p \<le> 255"
  shows "file_open (lookup m') d_path (Some f)
     = (if needs (f_flags f) \<subseteq> grants [p, c1, c2, c3, c4] then 0 else - 13)"
proof -
  have rule: "read_rule line = Insert_rule p (path_key p) \<lparr>allowed_mask = rule_mask [p, c1, c2, c3, c4]\<rparr>"
    using assms(4-6) by (simp add: read_rule_def)
  have reload: "reload_lines ins (pre @ Inr line # post) m = (r, m', out)"
    using assms(2) by (simp add: reload_rules_def)
  have get: "lookup m' (path_key p) = Some \<lparr>allowed_mask = rule_mask [p, c1, c2, c3, c4]\<rparr>"
    by (rule rule_map.reload_lines_last [OF assms(1,3) rule assms(7) reload assms(8)])
  have "256 - length p = Suc (255 - length p)" using assms(10) by simp
  then have key: "\<lparr>key_path = as_bytes p @ 0 # replicate (255 - length p) 0\<rparr> = path_key p"
    using path_key_short [OF assms(10)] by (cases "path_key p") simp
  show ?thesis
    using assms(9) mask_covers_iff [of "[p, c1, c2, c3, c4]" "f_flags f"]
    by (simp add: file_open_def reports_def key get)
qed

text \<open>For the examples: helpers that leave the rest of the buffer alone, or use its end as work space.\<close>

definition d_path_plain :: "string \<Rightarrow> bytes \<Rightarrow> int \<times> bytes" where
  "d_path_plain p buf = (int (length p) + 1, as_bytes p @ 0 # drop (length p + 1) buf)"

definition d_path_moving :: "string \<Rightarrow> bytes \<Rightarrow> int \<times> bytes" where
  "d_path_moving p buf =
     (let s = as_bytes p @ [0]; tmp = take (length buf - length s) buf @ s
      in (int (length s), s @ drop (length s) tmp))"

definition demo_lines :: "(unit + string) list" where
  "demo_lines = [Inr ''# rules'', Inr ''/a 1 1 0 0'']"

definition demo_rules where
  "demo_rules = reload_rules (bpf_hash_insert 1024) (Inr demo_lines) []"

lemma demo_rules_eq: "demo_rules = (Inr (), [(path_key ''/a'', \<lparr>allowed_mask = 3\<rparr>)], [])"
proof -
  have "read_rule ''# rules'' = Skip" by code_simp
  moreover have "read_rule ''/a 1 1 0 0'' = Insert_rule ''/a'' (path_key ''/a'') \<lparr>allowed_mask = 3\<rparr>" by code_simp
  ultimately show ?thesis
    by (simp add: demo_rules_def reload_rules_def demo_lines_def bpf_hash_insert_def)
qed

theorem lsm_rule_enforced_witness:
  "file_open (map_of (fst (snd demo_rules))) d_path_plain (Some \<lparr>f_path = ''/a'', f_flags = 1\<rparr>)
     = (if needs 1 \<subseteq> grants [''/a'', ''1'', ''1'', ''0'', ''0''] then 0 else - 13)
   \<and> \<not> needs 1 \<subseteq> grants [''/a'', ''1'', ''1'', ''0'', ''0'']"
proof
  have eq: "reload_rules (bpf_hash_insert 1024) (Inr ([Inr ''# rules'' :: unit + string] @ Inr ''/a 1 1 0 0'' # [])) []
      = (Inr () :: unit + unit, fst (snd demo_rules), [] :: rule_log list)"
    using demo_rules_eq by (simp add: demo_rules_def demo_lines_def)
  have "file_open (map_of (fst (snd demo_rules))) d_path_plain (Some \<lparr>f_path = ''/a'', f_flags = 1\<rparr>)
     = (if needs (f_flags \<lparr>f_path = ''/a'', f_flags = 1\<rparr>) \<subseteq> grants [''/a'', ''1'', ''1'', ''0'', ''0''] then 0 else - 13)"
  proof (rule lsm_rule_enforced [OF rules.rule_map_axioms eq])
    show "trim ''/a 1 1 0 0'' \<noteq> []" by code_simp
    show "split_whitespace ''/a 1 1 0 0'' = [''/a'', ''1'', ''1'', ''0'', ''0'']" by code_simp
  qed (simp_all add: reports_def d_path_plain_def MAX_PATH_LEN_def)
  then show "file_open (map_of (fst (snd demo_rules))) d_path_plain (Some \<lparr>f_path = ''/a'', f_flags = 1\<rparr>)
     = (if needs 1 \<subseteq> grants [''/a'', ''1'', ''1'', ''0'', ''0''] then 0 else - 13)" by simp
  show "\<not> needs 1 \<subseteq> grants [''/a'', ''1'', ''1'', ''0'', ''0'']"
    by (simp add: needs_def grants_def)
qed

text \<open>
  C37: The kernel helper leaves the bytes after the terminator unspecified, and the hook uses the whole buffer as
  the key: if any of these bytes is not zero, no rule loaded from a file without NUL bytes is ever found, and
  every open is granted, whatever the rules say.\<close>

theorem lsm_stale_tail_bypass:
  assumes "rule_map lookup ins" and "\<And>k. lookup m k = None"
    and "reload_rules ins (Inr ls) m = (r, m', out)"
    and "\<And>line. Inr line \<in> set ls \<Longrightarrow> CHR 0x00 \<notin> set line"
    and "reports d_path (f_path f) p tail" and "\<not> set tail \<subseteq> {0}"
  shows "file_open (lookup m') d_path (Some f) = 0"
proof -
  let ?k = "\<lparr>key_path = as_bytes p @ 0 # tail\<rparr>"
  have "lookup m' ?k = None"
  proof (rule ccontr)
    assume "lookup m' ?k \<noteq> None"
    with rule_map.reload_lines_keys [OF assms(1), of ls m r m' out ?k] assms(2,3)
    have "list_ex (sets_key ?k) ls" by (simp add: reload_rules_def)
    then obtain line q v where q: "Inr line \<in> set ls" "read_rule line = Insert_rule q ?k v"
      by (auto simp: list_ex_iff sets_key_iff)
    then have qk: "path_key q = ?k" "q \<in> set (split_whitespace line)"
      by (auto simp: read_rule_def Let_def split: if_splits)
    then have "CHR 0x00 \<notin> set q"
      using assms(4) [OF q(1)] split_whitespace_chars by blast
    from path_key_zero_tail [OF this, of "as_bytes p" tail] qk assms(6) show False by simp
  qed
  with assms(5) show ?thesis by (simp add: file_open_def reports_def)
qed

theorem lsm_stale_tail_bypass_witness:
  "file_open (map_of (fst (snd demo_rules))) d_path_moving (Some \<lparr>f_path = ''/a'', f_flags = 1\<rparr>) = 0"
proof (rule lsm_stale_tail_bypass [OF rules.rule_map_axioms])
  show "map_of [] k = None" for k :: FileRuleKey by simp
  show "reload_rules (bpf_hash_insert 1024) (Inr demo_lines) [] = (Inr (), fst (snd demo_rules), [] :: rule_log list)"
    using demo_rules_eq by (simp add: demo_rules_def)
  show "CHR 0x00 \<notin> set line" if "Inr line \<in> set demo_lines" for line
    using that by (auto simp: demo_lines_def)
  show "reports d_path_moving (f_path \<lparr>f_path = ''/a'', f_flags = 1\<rparr>) ''/a'' (replicate 250 0 @ [0x2F, 0x61, 0])"
    by (simp add: reports_def d_path_moving_def MAX_PATH_LEN_def as_bytes_def take_replicate drop_replicate numeral_eq_Suc)
  show "\<not> set (replicate 250 0 @ [0x2F, 0x61, 0]) \<subseteq> {0 :: u8}" by simp
qed

text \<open>
  Reloading never revokes a rule: whatever the watcher reports and the file then holds, a path that has a
  rule keeps one, also when its line was deleted from the file.\<close>

lemma lsm_rules_never_revoked:
  assumes "rule_map lookup ins" and "lookup m (path_key p) \<noteq> None"
  shows "lookup (watch_loop ins events m) (path_key p) \<noteq> None"
  by (rule rule_map.watch_loop_keeps_keys [OF assms])

end
