(* ===== verification/Rust_Utf8.thy ===== *)
theory Rust_Utf8
  imports Rust_Prelude
begin

text \<open>
  The conversions between bytes and strings of \<^verbatim>\<open>core::str\<close> that the programs reading foreign
  data call: \<^verbatim>\<open>str::from_utf8\<close> (the whole input must be well formed), \<^verbatim>\<open>String::from_utf8_lossy\<close>
  (each maximal ill-formed piece becomes U+FFFD) and \<^verbatim>\<open>CStr::from_ptr\<close> on a fixed array. A string
  is the list of its bytes, so a successful \<^verbatim>\<open>from_utf8\<close> keeps the bytes as they are.
\<close>

section \<open>One character at the head of a byte list\<close>

definition byte_char :: "u8 \<Rightarrow> char" where
  "byte_char b = char_of (unat b)"

definition bytes_str :: "bytes \<Rightarrow> string" where
  "bytes_str bs = map byte_char bs"

definition utf8_cont :: "u8 \<Rightarrow> bool" where
  "utf8_cont b \<longleftrightarrow> 0x80 \<le> b \<and> b \<le> 0xBF"

text \<open>The length a leading byte announces, 0 for a byte that cannot lead.\<close>

definition utf8_char_width :: "u8 \<Rightarrow> nat" where
  "utf8_char_width b =
     (if b < 0x80 then 1 else if 0xC2 \<le> b \<and> b \<le> 0xDF then 2
      else if 0xE0 \<le> b \<and> b \<le> 0xEF then 3 else if 0xF0 \<le> b \<and> b \<le> 0xF4 then 4 else 0)"

text \<open>The second byte excludes overlong forms, surrogates and values over U+10FFFF.\<close>

definition utf8_second :: "u8 \<Rightarrow> u8 \<Rightarrow> bool" where
  "utf8_second b0 b1 \<longleftrightarrow>
     (if b0 = 0xE0 then 0xA0 \<le> b1 \<and> b1 \<le> 0xBF
      else if b0 = 0xED then 0x80 \<le> b1 \<and> b1 \<le> 0x9F
      else if b0 = 0xF0 then 0x90 \<le> b1 \<and> b1 \<le> 0xBF
      else if b0 = 0xF4 then 0x80 \<le> b1 \<and> b1 \<le> 0x8F
      else utf8_cont b1)"

fun utf8_conts :: "nat \<Rightarrow> bytes \<Rightarrow> nat" where
  "utf8_conts (Suc n) (b # bs) = (if utf8_cont b then Suc (utf8_conts n bs) else 0)"
| "utf8_conts _ _ = 0"

text \<open>
  Whether the list starts with a character, and how many bytes the character, or the maximal
  ill-formed piece, takes.
\<close>

fun utf8_next :: "bytes \<Rightarrow> bool \<times> nat" where
  "utf8_next [] = (False, 0)"
| "utf8_next (b0 # bs) =
     (let w = utf8_char_width b0
      in if w = 0 then (False, 1)
         else if w = 1 then (True, 1)
         else case bs of
             [] \<Rightarrow> (False, 1)
           | b1 # r \<Rightarrow>
               (if \<not> utf8_second b0 b1 then (False, 1)
                else let k = 2 + utf8_conts (w - 2) r in (k = w, k)))"

lemma utf8_conts_le: "utf8_conts n bs \<le> n" "utf8_conts n bs \<le> length bs"
  by (induction n bs rule: utf8_conts.induct) auto

lemma utf8_next_pos: "bs \<noteq> [] \<Longrightarrow> 0 < snd (utf8_next bs)"
  by (cases bs) (auto simp: Let_def split: list.splits)

lemma utf8_next_le: "snd (utf8_next bs) \<le> length bs"
  using utf8_conts_le(2)
  by (cases bs) (auto simp: Let_def split: list.splits)

lemma utf8_conts_append: "utf8_conts n bs = n \<Longrightarrow> utf8_conts n (bs @ cs) = n"
  by (induction n bs rule: utf8_conts.induct) (auto split: if_splits)

lemma utf8_next_append: "utf8_next bs = (True, k) \<Longrightarrow> utf8_next (bs @ cs) = (True, k)"
proof (cases bs)
  case (Cons b0 r)
  assume *: "utf8_next bs = (True, k)"
  then show ?thesis
    using Cons utf8_conts_append [of "utf8_char_width b0 - 2"]
    by (auto simp: Let_def split: list.splits if_splits)
qed simp

lemma utf8_conts_take: "utf8_conts n bs = n \<Longrightarrow> n \<le> m \<Longrightarrow> utf8_conts n (take m bs) = n"
proof (induction n bs arbitrary: m rule: utf8_conts.induct)
  case (1 n b bs)
  then show ?case by (cases m) (auto split: if_splits)
qed auto

lemma utf8_next_take:
  assumes "utf8_next bs = (True, k)"
  shows "utf8_next (take k bs) = (True, k)"
proof (cases bs)
  case Nil
  with assms show ?thesis by simp
next
  case (Cons b0 r)
  then show ?thesis
    using assms utf8_conts_take [of "utf8_char_width b0 - 2" _ "k - 2"]
    by (cases r) (auto simp: Let_def take_Cons' numeral_2_eq_2 split: if_splits)
qed

section \<open>Whole inputs\<close>

function utf8_valid :: "bytes \<Rightarrow> bool" where
  "utf8_valid bs =
     (if bs = [] then True
      else if fst (utf8_next bs) then utf8_valid (drop (snd (utf8_next bs)) bs) else False)"
  by pat_completeness auto
termination
proof (relation "measure length", simp)
  fix bs :: bytes
  assume "bs \<noteq> []"
  then show "(drop (snd (utf8_next bs)) bs, bs) \<in> measure length"
    using utf8_next_pos [of bs] by (cases bs) (auto simp del: utf8_next.simps)
qed

declare utf8_valid.simps [simp del]

definition from_utf8 :: "bytes \<Rightarrow> string option" where
  "from_utf8 bs = (if utf8_valid bs then Some (bytes_str bs) else None)"

definition replacement_char :: bytes where
  "replacement_char = [0xEF, 0xBF, 0xBD]"

function utf8_lossy :: "bytes \<Rightarrow> bytes" where
  "utf8_lossy bs =
     (if bs = [] then []
      else let (ok, k) = utf8_next bs
           in (if ok then take k bs else replacement_char) @ utf8_lossy (drop k bs))"
  by pat_completeness auto
termination
proof (relation "measure length", simp)
  fix bs :: bytes and x ok k
  assume "bs \<noteq> []" "x = utf8_next bs" "(ok, k) = x"
  then show "(drop k bs, bs) \<in> measure length"
    using utf8_next_pos [of bs] by (cases bs) (auto simp del: utf8_next.simps dest: arg_cong [where f = snd])
qed

declare utf8_lossy.simps [simp del]

definition from_utf8_lossy :: "bytes \<Rightarrow> string" where
  "from_utf8_lossy bs = bytes_str (utf8_lossy bs)"

text \<open>\<^verbatim>\<open>CStr::from_ptr\<close>: the bytes before the first NUL.\<close>

definition c_str :: "bytes \<Rightarrow> bytes" where
  "c_str bs = takeWhile (\<lambda>b. b \<noteq> 0) bs"

lemma utf8_valid_Nil [simp]: "utf8_valid []"
  by (simp add: utf8_valid.simps)

lemma utf8_lossy_Nil [simp]: "utf8_lossy [] = []"
  by (simp add: utf8_lossy.simps)

lemma utf8_valid_append: "utf8_valid as \<Longrightarrow> utf8_valid (as @ bs) = utf8_valid bs"
proof (induction as rule: utf8_valid.induct)
  case (1 as)
  show ?case
  proof (cases "as = []")
    case False
    obtain k where k: "utf8_next as = (True, k)" and rest: "utf8_valid (drop k as)"
      using 1(2) False by (cases "utf8_next as") (auto simp: utf8_valid.simps [of as] split: if_splits)
    have "k \<le> length as"
      using utf8_next_le [of as] k by simp
    then have "utf8_valid (as @ bs) = utf8_valid (drop k as @ bs)"
      using False utf8_next_append [OF k] by (subst utf8_valid.simps) simp
    also have "\<dots> = utf8_valid bs"
      using 1(1) [OF False] k rest by simp
    finally show ?thesis .
  qed simp
qed

lemma utf8_valid_char: "utf8_next bs = (True, k) \<Longrightarrow> utf8_valid (take k bs)"
  using utf8_next_take [of bs k]
  by (simp add: utf8_valid.simps [of "take k bs"])

lemma utf8_valid_replacement: "utf8_valid replacement_char"
  by code_simp

text \<open>The lossy conversion always gives well-formed UTF-8, and changes nothing that is already.\<close>

lemma utf8_lossy_valid: "utf8_valid (utf8_lossy bs)"
proof (induction bs rule: utf8_lossy.induct)
  case (1 bs)
  show ?case
  proof (cases "bs = []")
    case False
    obtain ok k where n: "utf8_next bs = (ok, k)" by force
    have "utf8_valid (if ok then take k bs else replacement_char)"
      using n utf8_valid_char utf8_valid_replacement by auto
    then show ?thesis
      using 1 [OF False n [symmetric] refl] False n
      by (simp add: utf8_lossy.simps [of bs] utf8_valid_append)
  qed simp
qed

lemma utf8_lossy_id: "utf8_valid bs \<Longrightarrow> utf8_lossy bs = bs"
proof (induction bs rule: utf8_valid.induct)
  case (1 bs)
  then show ?case
    by (cases "bs = []"; cases "utf8_next bs")
       (auto simp: utf8_valid.simps [of bs] utf8_lossy.simps [of bs])
qed

lemma utf8_valid_ascii: "(\<And>b. b \<in> set bs \<Longrightarrow> b < 0x80) \<Longrightarrow> utf8_valid bs"
proof (induction bs)
  case (Cons b bs)
  then have "utf8_next (b # bs) = (True, 1)"
    by (simp add: utf8_char_width_def)
  with Cons show ?case
    by (simp add: utf8_valid.simps [of "b # bs"])
qed simp

lemma utf8_lossy_ascii: "(\<And>b. b \<in> set bs \<Longrightarrow> b < 0x80) \<Longrightarrow> utf8_lossy bs = bs"
  by (simp add: utf8_lossy_id utf8_valid_ascii)

lemma utf8_lossy_ascii_inv: "(\<And>b. b \<in> set (utf8_lossy bs) \<Longrightarrow> b < 0x80) \<Longrightarrow> utf8_lossy bs = bs"
proof (induction bs rule: utf8_lossy.induct)
  case (1 bs)
  show ?case
  proof (cases "bs = []")
    case False
    obtain ok k where n: "utf8_next bs = (ok, k)" by force
    have eq: "utf8_lossy bs = (if ok then take k bs else replacement_char) @ utf8_lossy (drop k bs)"
      using False n by (simp add: utf8_lossy.simps [of bs])
    have ok
    proof (rule ccontr)
      assume "\<not> ok"
      then have "0xEF \<in> set (utf8_lossy bs)"
        by (simp add: eq replacement_char_def)
      from 1(2) [OF this] show False by simp
    qed
    with eq 1(1) [OF False n [symmetric] refl] 1(2) show ?thesis by simp
  qed simp
qed

lemma from_utf8_lossy_valid: "from_utf8 bs = Some s \<Longrightarrow> from_utf8_lossy bs = s"
  by (auto simp: from_utf8_def from_utf8_lossy_def utf8_lossy_id split: if_splits)

lemma byte_char_of_char [simp]: "byte_char (of_char c) = c"
  by (simp add: byte_char_def of_char_eq_byte_val unat_of_nat) (simp add: byte_val_def)

lemma bytes_str_as_bytes [simp]: "bytes_str (as_bytes s) = s"
  by (simp add: bytes_str_def as_bytes_def comp_def)

lemma of_char_byte_char [simp]: "(of_char (byte_char b) :: u8) = b"
  using unsigned_less [of b, where ?'a = nat] by (simp add: byte_char_def of_char_eq_byte_val byte_val_def mod_less)

lemma as_bytes_bytes_str [simp]: "as_bytes (bytes_str bs) = bs"
  by (simp add: bytes_str_def as_bytes_def comp_def)

lemma length_bytes_str [simp]: "length (bytes_str bs) = length bs"
  by (simp add: bytes_str_def)

lemma bytes_str_append [simp]: "bytes_str (as @ bs) = bytes_str as @ bytes_str bs"
  by (simp add: bytes_str_def)

lemma u8_byte_val: "byte_val (byte_char b) = unat b"
  using unsigned_less [of b, where ?'a = nat] by (simp add: byte_char_def byte_val_def)

lemma bytes_str_inject: "bytes_str as = bytes_str bs \<longleftrightarrow> as = bs"
  by (metis as_bytes_bytes_str)

lemma from_utf8_Some: "from_utf8 bs = Some s \<longleftrightarrow> utf8_valid bs \<and> as_bytes s = bs"
  by (auto simp: from_utf8_def)

lemma c_str_no_nul: "0 \<notin> set (c_str bs)"
  by (auto simp: c_str_def dest: set_takeWhileD)

lemma c_str_pad: "0 \<notin> set bs \<Longrightarrow> c_str (bs @ replicate (Suc n) 0) = bs"
  by (induction bs) (auto simp: c_str_def)

text \<open>
  An ASCII byte is never part of an ill-formed piece: the lossy conversion works separately on what
  is before and what is after it.
\<close>

lemma utf8_cont_ascii: "a < 0x80 \<Longrightarrow> \<not> utf8_cont a"
  by (simp add: utf8_cont_def not_le)

lemma utf8_second_cont: "utf8_second b0 b1 \<Longrightarrow> utf8_cont b1"
  by (auto simp: utf8_second_def utf8_cont_def word_le_nat_alt split: if_splits)

lemma utf8_conts_stop: "\<not> utf8_cont a \<Longrightarrow> utf8_conts n (bs @ a # cs) = utf8_conts n bs"
  by (induction n bs rule: utf8_conts.induct) (auto elim: utf8_conts.elims, metis utf8_conts.elims utf8_conts.simps(1))

lemma utf8_next_stop:
  assumes "a < 0x80" and "bs \<noteq> []"
  shows "utf8_next (bs @ a # cs) = utf8_next bs"
proof (cases bs)
  case (Cons b0 r)
  show ?thesis
  proof (cases r)
    case Nil
    then show ?thesis
      using Cons utf8_second_cont [of b0 a] utf8_cont_ascii [OF assms(1)] by (auto simp: Let_def)
  next
    case (Cons b1 r')
    then show ?thesis
      using \<open>bs = b0 # r\<close> utf8_conts_stop [OF utf8_cont_ascii [OF assms(1)]] by (simp add: Let_def)
  qed
qed (use assms in simp)

lemma utf8_lossy_ascii_Cons: "a < 0x80 \<Longrightarrow> utf8_lossy (a # bs) = a # utf8_lossy bs"
  by (simp add: utf8_lossy.simps [of "a # bs"] utf8_char_width_def)

lemma utf8_lossy_split: "a < 0x80 \<Longrightarrow> utf8_lossy (bs @ a # cs) = utf8_lossy bs @ a # utf8_lossy cs"
proof (induction bs rule: utf8_lossy.induct)
  case (1 bs)
  show ?case
  proof (cases "bs = []")
    case True
    then show ?thesis by (simp add: utf8_lossy_ascii_Cons 1(2))
  next
    case False
    obtain ok k where n: "utf8_next bs = (ok, k)" by force
    have "k \<le> length bs" using utf8_next_le [of bs] n by simp
    with 1(1) [OF False n [symmetric] refl 1(2)] False n utf8_next_stop [OF 1(2) False, of cs]
    show ?thesis
      by (simp add: utf8_lossy.simps [of bs] utf8_lossy.simps [of "bs @ a # cs"])
  qed
qed

lemma utf8_lossy_infix:
  "(\<And>b. b \<in> set t \<Longrightarrow> b < 0x80) \<Longrightarrow> t \<noteq> [] \<Longrightarrow> utf8_lossy (p @ t @ q) = utf8_lossy p @ t @ utf8_lossy q"
proof (induction t arbitrary: p)
  case (Cons a t)
  have split: "utf8_lossy (p @ (a # t) @ q) = utf8_lossy p @ a # utf8_lossy (t @ q)"
    using Cons.prems(1) by (simp add: utf8_lossy_split)
  have "utf8_lossy (t @ q) = t @ utf8_lossy q"
    using Cons.IH [of "[]"] Cons.prems(1) by (cases "t = []") auto
  with split show ?case by simp
qed simp

text \<open>Text that is padded with NUL bytes.\<close>

lemma utf8_lossy_no_nul: "0 \<notin> set bs \<Longrightarrow> 0 \<notin> set (utf8_lossy bs)"
proof (induction bs rule: utf8_lossy.induct)
  case (1 bs)
  show ?case
  proof (cases "bs = []")
    case False
    obtain ok k where n: "utf8_next bs = (ok, k)" by force
    have "0 \<notin> set (utf8_lossy (drop k bs))"
      using 1(1) [OF False n [symmetric] refl] 1(2) by (meson in_set_dropD)
    then show ?thesis
      using False n 1(2) by (auto simp: utf8_lossy.simps [of bs] replacement_char_def dest: in_set_takeD)
  qed simp
qed

lemma utf8_lossy_pad: "utf8_lossy (bs @ replicate n 0) = utf8_lossy bs @ replicate n 0"
proof (cases n)
  case (Suc k)
  have "utf8_lossy (replicate k 0) = replicate k 0" by (rule utf8_lossy_ascii) simp
  then show ?thesis using utf8_lossy_split [of 0 bs "replicate k 0"] by (simp add: Suc)
qed simp

lemma utf8_valid_pad: "utf8_valid (bs @ replicate n 0) \<longleftrightarrow> utf8_valid bs"
proof
  assume "utf8_valid (bs @ replicate n 0)"
  then have "utf8_lossy bs = bs"
    using utf8_lossy_id [of "bs @ replicate n 0"] by (simp add: utf8_lossy_pad)
  then show "utf8_valid bs" by (metis utf8_lossy_valid)
next
  have "utf8_valid (replicate n 0)" by (rule utf8_valid_ascii) simp
  then show "utf8_valid bs \<Longrightarrow> utf8_valid (bs @ replicate n 0)" by (simp add: utf8_valid_append)
qed

end
