(* ===== verification/Rust_Bytes.thy ===== *)
theory Rust_Bytes
  imports Rust_Prelude
begin

text \<open>
  Records laid out in memory on a little-endian target (\<^verbatim>\<open>repr(C)\<close>): the number in a list of bytes,
  the bytes of a number, and fields at fixed offsets. The programs that cast a buffer of the kernel to
  a structure read their fields this way.
\<close>

fun le_nat :: "bytes \<Rightarrow> nat" where
  "le_nat [] = 0"
| "le_nat (b # bs) = unat b + 256 * le_nat bs"

fun le_bytes :: "nat \<Rightarrow> nat \<Rightarrow> bytes" where
  "le_bytes 0 x = []"
| "le_bytes (Suc n) x = of_nat (x mod 256) # le_bytes n (x div 256)"

lemma length_le_bytes [simp]: "length (le_bytes n x) = n"
  by (induction n arbitrary: x) auto

lemma u8_unat_less: "unat (b :: u8) < 256"
  using unsigned_less [of b, where ?'a = nat] by simp

lemma le_nat_bytes: "x < 256 ^ n \<Longrightarrow> le_nat (le_bytes n x) = x"
proof (induction n arbitrary: x)
  case (Suc n)
  then have "le_nat (le_bytes n (x div 256)) = x div 256"
    by (simp add: less_mult_imp_div_less mult.commute)
  then show ?case by (simp add: unat_of_nat)
qed simp

lemma le_bytes_nat: "le_bytes (length bs) (le_nat bs) = bs"
proof (induction bs)
  case (Cons b bs)
  have "(unat b + 256 * le_nat bs) mod 256 = unat b" "(unat b + 256 * le_nat bs) div 256 = le_nat bs"
    using u8_unat_less [of b] by (simp_all add: mod_less)
  with Cons show ?case by simp
qed simp

text \<open>A field of \<open>n\<close> bytes at an offset, as a word.\<close>

definition field :: "nat \<Rightarrow> nat \<Rightarrow> bytes \<Rightarrow> 'a::len word" where
  "field off n bs = of_nat (le_nat (take n (drop off bs)))"

definition word_bytes :: "nat \<Rightarrow> 'a::len word \<Rightarrow> bytes" where
  "word_bytes n w = le_bytes n (unat w)"

lemma length_word_bytes [simp]: "length (word_bytes n w) = n"
  by (simp add: word_bytes_def)

lemma le_nat_word_bytes: "LENGTH('a) = 8 * n \<Longrightarrow> le_nat (word_bytes n (w :: 'a::len word)) = unat w"
proof -
  assume n: "LENGTH('a) = 8 * n"
  have "unat w < 2 ^ (8 * n)"
    using unsigned_less [of w, where ?'a = nat] by (simp add: n)
  then have "unat w < 256 ^ n"
    by (simp add: power_mult)
  then show ?thesis
    by (simp add: word_bytes_def le_nat_bytes)
qed

lemma field_word_bytes:
  "LENGTH('a) = 8 * n \<Longrightarrow> length pre = off \<Longrightarrow> field off n (pre @ word_bytes n w @ post) = (w :: 'a::len word)"
  by (simp add: field_def le_nat_word_bytes)

lemma field_drop: "field off n (drop k bs) = field (k + off) n bs"
  by (simp add: field_def add.commute)

lemma field_append: "off + n \<le> length bs \<Longrightarrow> field off n (bs @ cs) = field off n bs"
  by (simp add: field_def)

lemma field_word_bytes_first: "LENGTH('a) = 8 * n \<Longrightarrow> field 0 n (word_bytes n w @ post) = (w :: 'a::len word)"
  using field_word_bytes [of n "[]" 0] by simp

lemma field_word_bytes_skip:
  "k \<le> off \<Longrightarrow> field off n (word_bytes k w @ post) = field (off - k) n post"
  by (simp add: field_def)

end
