(* ===== verification/Proc_Control.thy ===== *)
theory Proc_Control
  imports Rust_Utf8 Rust_Bytes
begin

text \<open>
  Process control (\<^verbatim>\<open>proc-control\<close>): three tracepoint programs that fill a record of a ring buffer and
  the loop of the loader that prints the records.

  Parameters: the ring buffer (record \<open>ringbuf_ops\<close>, contract \<open>ring_buffer\<close>: a bounded queue whose
  reserved records hold what the memory held before) and the helpers of the running task (record
  \<open>task_env\<close>). The tracepoint record is a list of bytes; \<^verbatim>\<open>read_at\<close> fails outside it.
\<close>

section \<open>The common crate\<close>

definition EVENT_EXEC :: u32 where "EVENT_EXEC = 1"
definition EVENT_OPEN :: u32 where "EVENT_OPEN = 2"
definition EVENT_MEMFD :: u32 where "EVENT_MEMFD = 3"

record ProcessEvent =
  ev_pid :: u32
  ev_tgid :: u32
  event_type :: u32
  ev_comm :: bytes
  filename :: bytes

definition process_event_size :: nat where "process_event_size = 92"

text \<open>The cast of a record of the ring buffer, and the bytes a filled record has.\<close>

definition process_event_of :: "bytes \<Rightarrow> ProcessEvent" where
  "process_event_of b =
     \<lparr>ev_pid = field 0 4 b, ev_tgid = field 4 4 b, event_type = field 8 4 b,
      ev_comm = take 16 (drop 12 b), filename = take 64 (drop 28 b)\<rparr>"

definition process_event_bytes :: "ProcessEvent \<Rightarrow> bytes" where
  "process_event_bytes e =
     word_bytes 4 (ev_pid e) @ word_bytes 4 (ev_tgid e) @ word_bytes 4 (event_type e) @ ev_comm e @ filename e"

section \<open>The system interface\<close>

record 'r ringbuf_ops =
  rb_reserve :: "nat \<Rightarrow> 'r \<Rightarrow> (bytes \<times> 'r) option"
  rb_submit :: "bytes \<Rightarrow> 'r \<Rightarrow> 'r"
  rb_next :: "'r \<Rightarrow> (bytes \<times> 'r) option"

record task_env =
  current_pid_tgid :: u64
  current_comm :: "bytes \<Rightarrow> bytes"
  read_user_str :: "u64 \<Rightarrow> bytes \<Rightarrow> bytes"
  tp_record :: bytes

definition read_at :: "bytes \<Rightarrow> nat \<Rightarrow> u64 option" where
  "read_at ctx off = (if off + 8 \<le> length ctx then Some (field off 8 ctx) else None)"

section \<open>The tracepoint programs\<close>

definition init_event :: "'r ringbuf_ops \<Rightarrow> task_env \<Rightarrow> u32 \<Rightarrow> 'r \<Rightarrow> (ProcessEvent \<times> 'r) option" where
  "init_event R t etype r =
     (case rb_reserve R process_event_size r of
        None \<Rightarrow> None
      | Some (entry, r1) \<Rightarrow>
          (let e0 = process_event_of entry;
               e1 = e0\<lparr>event_type := etype\<rparr>;
               pid_tgid = current_pid_tgid t;
               e2 = e1\<lparr>ev_pid := ucast (drop_bit 32 pid_tgid)\<rparr>;
               e3 = e2\<lparr>ev_tgid := ucast pid_tgid\<rparr>
           in Some (e3\<lparr>ev_comm := current_comm t (ev_comm e3)\<rparr>, r1)))"

definition fill_filename :: "task_env \<Rightarrow> nat \<Rightarrow> ProcessEvent \<Rightarrow> ProcessEvent" where
  "fill_filename t off e =
     (let ptr = (case read_at (tp_record t) off of Some p \<Rightarrow> p | None \<Rightarrow> 0)
      in if ptr \<noteq> 0 then e\<lparr>filename := read_user_str t ptr (filename e)\<rparr> else e)"

definition sys_enter_execve :: "'r ringbuf_ops \<Rightarrow> task_env \<Rightarrow> 'r \<Rightarrow> 'r" where
  "sys_enter_execve R t r =
     (case init_event R t EVENT_EXEC r of
        Some (e, r1) \<Rightarrow> rb_submit R (process_event_bytes (fill_filename t 8 e)) r1
      | None \<Rightarrow> r)"

definition sys_enter_openat :: "'r ringbuf_ops \<Rightarrow> task_env \<Rightarrow> 'r \<Rightarrow> 'r" where
  "sys_enter_openat R t r =
     (case init_event R t EVENT_OPEN r of
        Some (e, r1) \<Rightarrow> rb_submit R (process_event_bytes (fill_filename t 16 e)) r1
      | None \<Rightarrow> r)"

definition sys_enter_memfd_create :: "'r ringbuf_ops \<Rightarrow> task_env \<Rightarrow> 'r \<Rightarrow> 'r" where
  "sys_enter_memfd_create R t r =
     (case init_event R t EVENT_MEMFD r of
        Some (e, r1) \<Rightarrow> rb_submit R (process_event_bytes (fill_filename t 8 e)) r1
      | None \<Rightarrow> r)"

section \<open>The loader\<close>

datatype proc_line =
    Exec_line u32 string string
  | Open_line u32 string string
  | Memfd_line u32 string string

definition c_text :: "bytes \<Rightarrow> string" where
  "c_text b = trim_matches CHR 0x00 (from_utf8_lossy b)"

definition print_event :: "ProcessEvent \<Rightarrow> proc_line list" where
  "print_event event =
     (let comm = c_text (ev_comm event); fname = c_text (filename event)
      in if event_type event = EVENT_EXEC then [Exec_line (ev_pid event) comm fname]
         else if event_type event = EVENT_OPEN then [Open_line (ev_pid event) comm fname]
         else if event_type event = EVENT_MEMFD then [Memfd_line (ev_pid event) comm fname]
         else [])"

text \<open>One round of the polling loop, and a number of rounds.\<close>

definition poll_once :: "'r ringbuf_ops \<Rightarrow> 'r \<Rightarrow> proc_line list \<times> 'r" where
  "poll_once R r =
     (case rb_next R r of
        None \<Rightarrow> ([], r)
      | Some (item, r1) \<Rightarrow>
          (if length item \<ge> process_event_size then (print_event (process_event_of item), r1) else ([], r1)))"

fun poll_rounds :: "'r ringbuf_ops \<Rightarrow> nat \<Rightarrow> 'r \<Rightarrow> proc_line list \<times> 'r" where
  "poll_rounds R 0 r = ([], r)"
| "poll_rounds R (Suc n) r =
     (let (ls, r1) = poll_once R r; (ls', r2) = poll_rounds R n r1 in (ls @ ls', r2))"

section \<open>The contract of the ring buffer\<close>

text \<open>
  \<open>q\<close> is the queue of submitted records, \<open>cap\<close> the number of records that fit. A reservation that
  succeeds gives memory of the requested size with arbitrary contents.
\<close>

locale ring_buffer =
  fixes R :: "'r ringbuf_ops" and q :: "'r \<Rightarrow> bytes list" and cap :: nat
  assumes reserve_ok: "length (q r) < cap \<Longrightarrow>
      \<exists>entry r1. rb_reserve R n r = Some (entry, r1) \<and> length entry = n \<and> q r1 = q r"
    and reserve_full: "cap \<le> length (q r) \<Longrightarrow> rb_reserve R n r = None"
    and submit_q: "q (rb_submit R e r) = q r @ [e]"
    and next_q: "rb_next R r = (case q r of [] \<Rightarrow> None | e # es \<Rightarrow> Some (e, snd (the (rb_next R r)))) \<and>
      (q r \<noteq> [] \<longrightarrow> q (snd (the (rb_next R r))) = tl (q r))"

text \<open>A reference buffer: records that were read leave their bytes behind for the next reservation.\<close>

record ref_ring =
  rr_queue :: "bytes list"
  rr_old :: bytes

definition rr_cap :: nat where "rr_cap = 2520"

definition ref_ring_ops :: "ref_ring ringbuf_ops" where
  "ref_ring_ops =
     \<lparr>rb_reserve = (\<lambda>n r. if length (rr_queue r) < rr_cap
          then Some (take n (rr_old r) @ replicate (n - length (rr_old r)) 0, r) else None),
      rb_submit = (\<lambda>e r. r\<lparr>rr_queue := rr_queue r @ [e]\<rparr>),
      rb_next = (\<lambda>r. case rr_queue r of [] \<Rightarrow> None | e # es \<Rightarrow> Some (e, \<lparr>rr_queue = es, rr_old = e\<rparr>))\<rparr>"

interpretation rr: ring_buffer ref_ring_ops rr_queue rr_cap
  by unfold_locales (auto simp: ref_ring_ops_def split: list.splits)

section \<open>Records\<close>

text \<open>The memory of a record is cast on both sides: the layout loses nothing.\<close>

lemma process_event_round_trip:
  "length (ev_comm e) = 16 \<Longrightarrow> length (filename e) = 64 \<Longrightarrow> process_event_of (process_event_bytes e) = e"
  by (simp add: process_event_of_def process_event_bytes_def field_word_bytes_first field_word_bytes_skip)

lemma length_process_event_bytes:
  "length (ev_comm e) = 16 \<Longrightarrow> length (filename e) = 64 \<Longrightarrow> length (process_event_bytes e) = process_event_size"
  by (simp add: process_event_bytes_def process_event_size_def)

lemma process_event_of_lengths:
  "length b = process_event_size \<Longrightarrow> length (ev_comm (process_event_of b)) = 16 \<and> length (filename (process_event_of b)) = 64"
  by (simp add: process_event_of_def process_event_size_def)

datatype traced_call = Execve | Openat | Memfd_create

fun run_hook :: "'r ringbuf_ops \<Rightarrow> traced_call \<times> task_env \<Rightarrow> 'r \<Rightarrow> 'r" where
  "run_hook R (Execve, t) r = sys_enter_execve R t r"
| "run_hook R (Openat, t) r = sys_enter_openat R t r"
| "run_hook R (Memfd_create, t) r = sys_enter_memfd_create R t r"

fun call_type :: "traced_call \<Rightarrow> u32" where
  "call_type Execve = EVENT_EXEC"
| "call_type Openat = EVENT_OPEN"
| "call_type Memfd_create = EVENT_MEMFD"

fun call_slot :: "traced_call \<Rightarrow> nat" where
  "call_slot Execve = 8"
| "call_slot Openat = 16"
| "call_slot Memfd_create = 8"

fun call_line :: "traced_call \<Rightarrow> u32 \<Rightarrow> string \<Rightarrow> string \<Rightarrow> proc_line" where
  "call_line Execve = Exec_line"
| "call_line Openat = Open_line"
| "call_line Memfd_create = Memfd_line"

lemma run_hook_eq:
  "run_hook R (c, t) r =
     (case init_event R t (call_type c) r of
        Some (e, r1) \<Rightarrow> rb_submit R (process_event_bytes (fill_filename t (call_slot c) e)) r1
      | None \<Rightarrow> r)"
  by (cases c) (auto simp: sys_enter_execve_def sys_enter_openat_def sys_enter_memfd_create_def split: option.splits)

lemma print_event_call:
  "event_type e = call_type c \<Longrightarrow> print_event e = [call_line c (ev_pid e) (c_text (ev_comm e)) (c_text (filename e))]"
  by (cases c) (simp_all add: print_event_def EVENT_EXEC_def EVENT_OPEN_def EVENT_MEMFD_def)

text \<open>The helpers write inside the buffer they get.\<close>

definition task_ok :: "task_env \<Rightarrow> bool" where
  "task_ok t \<longleftrightarrow> (\<forall>b. length (current_comm t b) = length b) \<and> (\<forall>p b. length (read_user_str t p b) = length b)"

definition shown_pid :: "task_env \<Rightarrow> u32" where
  "shown_pid t = ucast (drop_bit 32 (current_pid_tgid t))"

lemma fill_filename_other [simp]:
  "ev_pid (fill_filename t off e) = ev_pid e" "event_type (fill_filename t off e) = event_type e"
  "ev_comm (fill_filename t off e) = ev_comm e"
  by (simp_all add: fill_filename_def Let_def)

lemma fill_filename_length: "task_ok t \<Longrightarrow> length (filename (fill_filename t off e)) = length (filename e)"
  by (simp add: fill_filename_def Let_def task_ok_def)

context ring_buffer
begin

lemma hook_queues_event:
  assumes "length (q r) < cap" and "task_ok t"
  shows "\<exists>e old. q (run_hook R (c, t) r) = q r @ [process_event_bytes e] \<and> length (filename e) = 64 \<and>
           event_type e = call_type c \<and> ev_pid e = shown_pid t \<and> length old = 16 \<and> ev_comm e = current_comm t old"
proof -
  obtain b r1 where res: "rb_reserve R process_event_size r = Some (b, r1)"
    and len: "length b = process_event_size" and q1: "q r1 = q r"
    using reserve_ok [OF assms(1)] by blast
  define e where "e = fill_filename t (call_slot c) ((process_event_of b)\<lparr>event_type := call_type c,
      ev_pid := shown_pid t, ev_tgid := ucast (current_pid_tgid t), ev_comm := current_comm t (ev_comm (process_event_of b))\<rparr>)"
  have "run_hook R (c, t) r = rb_submit R (process_event_bytes e) r1"
    by (simp add: run_hook_eq init_event_def res e_def shown_pid_def Let_def)
  then show ?thesis
    using q1 process_event_of_lengths [OF len] assms(2)
    by (intro exI [of _ e] exI [of _ "ev_comm (process_event_of b)"])
       (simp add: submit_q e_def fill_filename_length)
qed

lemma full_ring_drops: "cap \<le> length (q r) \<Longrightarrow> run_hook R (c, t) r = r"
  by (simp add: run_hook_eq init_event_def reserve_full)

lemma poll_once_event:
  assumes "q r = process_event_bytes e # es" and "length (ev_comm e) = 16" and "length (filename e) = 64"
  shows "\<exists>r1. poll_once R r = (print_event e, r1) \<and> q r1 = es"
proof -
  obtain r1 where "rb_next R r = Some (process_event_bytes e, r1)" and "q r1 = es"
    using next_q [of r] assms(1) by auto
  then show ?thesis
    using assms by (simp add: poll_once_def length_process_event_bytes process_event_round_trip)
qed

lemma poll_rounds_events:
  "q r = map process_event_bytes es \<Longrightarrow>
   (\<And>e. e \<in> set es \<Longrightarrow> length (ev_comm e) = 16 \<and> length (filename e) = 64) \<Longrightarrow>
   \<exists>r1. poll_rounds R (length es) r = (concat (map print_event es), r1) \<and> q r1 = []"
proof (induction es arbitrary: r)
  case (Cons e es)
  obtain r1 where "poll_once R r = (print_event e, r1)" and "q r1 = map process_event_bytes es"
    using poll_once_event [of r e "map process_event_bytes es"] Cons.prems by auto
  moreover from Cons.IH [OF this(2)] Cons.prems(2)
  obtain r2 where "poll_rounds R (length es) r1 = (concat (map print_event es), r2)" "q r2 = []" by auto
  ultimately show ?case by simp
qed simp

end

section \<open>Names\<close>

lemma trim_end_matches_replicate: "trim_end_matches c (s @ replicate n c) = trim_end_matches c s"
proof (induction n)
  case (Suc n)
  have "s @ replicate (Suc n) c = (s @ replicate n c) @ [c]"
    by (simp add: replicate_append_same)
  then show ?case using Suc by (simp only: trim_end_matches_snoc)
qed simp

lemma trim_end_matches_decomp: "\<exists>n. s = trim_end_matches c s @ replicate n c"
proof (induction s rule: rev_induct)
  case (snoc x s)
  show ?case
  proof (cases "x = c")
    case True
    then obtain n where "s = trim_end_matches c s @ replicate n c" using snoc by blast
    then have "s @ [x] = trim_end_matches c s @ replicate (Suc n) c"
      by (metis True append.assoc replicate_Suc replicate_append_same)
    then show ?thesis using True by (metis trim_end_matches_snoc)
  next
    case False
    then show ?thesis by (intro exI [of _ 0]) (simp add: trim_end_matches_id)
  qed
qed (simp add: trim_end_matches_def)

lemma trim_end_matches_exact:
  assumes "s \<noteq> []" and "last s \<noteq> c"
  shows "trim_end_matches c (s @ c # t) = s \<longleftrightarrow> (\<forall>x \<in> set t. x = c)"
proof
  assume eq: "trim_end_matches c (s @ c # t) = s"
  obtain n where "s @ c # t = s @ replicate n c"
    using trim_end_matches_decomp [of "s @ c # t" c] eq by auto
  then have "c # t = replicate n c" by simp
  then show "\<forall>x \<in> set t. x = c" by (metis in_set_replicate list.set_intros(2))
next
  assume "\<forall>x \<in> set t. x = c"
  then have "c # t = replicate (Suc (length t)) c" by (simp add: replicate_length_same)
  then show "trim_end_matches c (s @ c # t) = s"
    using assms by (metis trim_end_matches_id trim_end_matches_replicate)
qed

lemma byte_char_nul: "byte_char b = CHR 0x00 \<longleftrightarrow> b = 0"
proof -
  have "of_char (CHR 0x00) = (0 :: u8)" by simp
  then show ?thesis by (metis byte_char_of_char of_char_byte_char)
qed

text \<open>The name of a file in ASCII, without NUL.\<close>

definition plain_name :: "bytes \<Rightarrow> bool" where
  "plain_name nm \<longleftrightarrow> (\<forall>b \<in> set nm. 0 < b \<and> b < 0x80)"

lemma plain_name_chars: "plain_name nm \<Longrightarrow> c \<in> set (bytes_str nm) \<Longrightarrow> c \<noteq> CHR 0x00"
  by (auto simp: plain_name_def bytes_str_def byte_char_nul)

lemma plain_name_last: "plain_name nm \<Longrightarrow> nm \<noteq> [] \<Longrightarrow> last (bytes_str nm) \<noteq> CHR 0x00"
  by (rule plain_name_chars) (auto simp: bytes_str_def last_map)

lemma trim_matches_plain:
  "plain_name nm \<Longrightarrow> nm \<noteq> [] \<Longrightarrow> trim_matches CHR 0x00 (bytes_str nm @ t) = trim_end_matches CHR 0x00 (bytes_str nm @ t)"
  using plain_name_chars [of nm]
  by (cases nm) (auto simp: trim_matches_def bytes_str_def)

lemma trim_padded:
  assumes "0 \<notin> set nm"
  shows "trim_matches CHR 0x00 (bytes_str (nm @ replicate n 0)) = bytes_str nm"
proof -
  have nul: "c \<noteq> CHR 0x00" if "c \<in> set (bytes_str nm)" for c
    using that assms by (auto simp: bytes_str_def byte_char_nul)
  have pad: "bytes_str (replicate n 0) = replicate n CHR 0x00"
    by (simp add: bytes_str_def byte_char_nul)
  show ?thesis
  proof (cases nm)
    case Nil
    then show ?thesis using pad by (simp add: trim_matches_def bytes_str_def trim_end_matches_def)
  next
    case (Cons b bs)
    then have "bytes_str nm \<noteq> []" by (simp add: bytes_str_def)
    then have "last (bytes_str nm) \<noteq> CHR 0x00" "hd (bytes_str nm) \<noteq> CHR 0x00" using nul by simp_all
    moreover have "dropWhile (\<lambda>x. x = CHR 0x00) (bytes_str nm @ replicate n CHR 0x00) = bytes_str nm @ replicate n CHR 0x00"
      using \<open>bytes_str nm \<noteq> []\<close> \<open>hd (bytes_str nm) \<noteq> CHR 0x00\<close> by (cases "bytes_str nm") auto
    ultimately show ?thesis
      using pad by (simp add: trim_matches_def trim_end_matches_replicate trim_end_matches_id)
  qed
qed

lemma c_text_padded: "0 \<notin> set nm \<Longrightarrow> c_text (nm @ replicate n 0) = from_utf8_lossy nm"
  using trim_padded [OF utf8_lossy_no_nul] by (simp add: c_text_def from_utf8_lossy_def utf8_lossy_pad)

lemma c_text_exact:
  assumes "plain_name nm" and "nm \<noteq> []"
  shows "c_text (nm @ 0 # tl') = bytes_str nm \<longleftrightarrow> (\<forall>b \<in> set tl'. b = 0)"
proof -
  have "utf8_lossy nm = nm"
    using assms by (intro utf8_lossy_ascii) (auto simp: plain_name_def)
  then have "c_text (nm @ 0 # tl') = trim_end_matches CHR 0x00 (bytes_str nm @ CHR 0x00 # bytes_str (utf8_lossy tl'))"
    using trim_matches_plain [OF assms] byte_char_nul [of 0]
    by (simp add: c_text_def from_utf8_lossy_def utf8_lossy_split) (simp add: bytes_str_def)
  moreover have "last (bytes_str nm) \<noteq> CHR 0x00" "bytes_str nm \<noteq> []"
    using plain_name_last [OF assms] assms(2) by (simp_all add: bytes_str_def)
  ultimately have "c_text (nm @ 0 # tl') = bytes_str nm \<longleftrightarrow> (\<forall>c \<in> set (bytes_str (utf8_lossy tl')). c = CHR 0x00)"
    by (simp add: trim_end_matches_exact)
  also have "\<dots> \<longleftrightarrow> (\<forall>b \<in> set (utf8_lossy tl'). b = 0)"
    by (simp add: bytes_str_def byte_char_nul)
  also have "\<dots> \<longleftrightarrow> (\<forall>b \<in> set tl'. b = 0)"
    using utf8_lossy_ascii [of tl'] utf8_lossy_ascii_inv [of tl'] by fastforce
  finally show ?thesis .
qed

section \<open>Properties\<close>

text \<open>
  What the helper for the task name documents: the name, any bytes but NUL, padded with zeros to 16 bytes of which the
  last is zero.
\<close>

definition task_named :: "task_env \<Rightarrow> bytes \<Rightarrow> bool" where
  "task_named t nm \<longleftrightarrow> 0 \<notin> set nm \<and> length nm < 16 \<and>
     (\<forall>b. length b = 16 \<longrightarrow> current_comm t b = nm @ replicate (16 - length nm) 0)"

text \<open>The record a call leaves in the ring buffer.\<close>

definition event_for :: "traced_call \<times> task_env \<Rightarrow> ProcessEvent \<Rightarrow> bool" where
  "event_for c e \<longleftrightarrow> event_type e = call_type (fst c) \<and> ev_pid e = shown_pid (snd c) \<and> length (filename e) = 64 \<and>
     (\<exists>old. length old = 16 \<and> ev_comm e = current_comm (snd c) old)"

definition run_hooks :: "'r ringbuf_ops \<Rightarrow> (traced_call \<times> task_env) list \<Rightarrow> 'r \<Rightarrow> 'r" where
  "run_hooks R cs r = fold (run_hook R) cs r"

context ring_buffer
begin

lemma run_hooks_queue:
  "length (q r) + length cs \<le> cap \<Longrightarrow> (\<And>c. c \<in> set cs \<Longrightarrow> task_ok (snd c)) \<Longrightarrow>
   \<exists>es. q (run_hooks R cs r) = q r @ map process_event_bytes es \<and>
        list_all2 event_for cs es"
proof (induction cs arbitrary: r)
  case (Cons ct cs)
  obtain c t where ct: "ct = (c, t)" by force
  have "length (q r) < cap" "task_ok t"
    using Cons.prems(1) Cons.prems(2) [of ct] ct by auto
  from hook_queues_event [OF this, of c]
  obtain e old where e: "q (run_hook R ct r) = q r @ [process_event_bytes e]" "length (filename e) = 64"
    "event_type e = call_type c" "ev_pid e = shown_pid t" "length old = 16" "ev_comm e = current_comm t old"
    using ct by auto
  then have "length (q (run_hook R ct r)) + length cs \<le> cap" using Cons.prems by simp
  with Cons.IH [OF this] Cons.prems(2)
  obtain es where es: "q (run_hooks R cs (run_hook R ct r)) = q (run_hook R ct r) @ map process_event_bytes es"
    and all: "list_all2 event_for cs es"
    by auto
  have "q (run_hooks R (ct # cs) r) = q r @ map process_event_bytes (e # es)"
    using es e(1) by (simp add: run_hooks_def)
  moreover have "list_all2 event_for (ct # cs) (e # es)"
    using all e(2-) ct by (auto simp: event_for_def)
  ultimately show ?case by blast
qed (simp add: run_hooks_def)

end

text \<open>
  C32: If the ring buffer has room for them, traced calls are reported exactly once each and in their
  order: polling as often prints, for every call, the line of its kind with the process id of the caller
  and its name, and empties the buffer. A name is any sequence of less than 16 bytes other than NUL; it is printed with every
  part that is not UTF-8 replaced by U+FFFD, and as it is if it is UTF-8.
\<close>
theorem traced_calls_printed:
  assumes "ring_buffer R q cap" and "q r = []" and "length cs \<le> cap"
    and "\<forall>c \<in> set cs. task_ok (snd c) \<and> task_named (snd c) (nm c)"
  shows "\<exists>ls r'. poll_rounds R (length cs) (run_hooks R cs r) = (ls, r') \<and> q r' = [] \<and>
           list_all2 (\<lambda>c l. \<exists>f. l = call_line (fst c) (shown_pid (snd c)) (from_utf8_lossy (nm c)) f) cs ls \<and>
           (\<forall>c \<in> set cs. utf8_valid (nm c) \<longrightarrow> from_utf8_lossy (nm c) = bytes_str (nm c))"
proof -
  obtain es where es: "q (run_hooks R cs r) = map process_event_bytes es"
    and all: "list_all2 event_for cs es"
    using ring_buffer.run_hooks_queue [OF assms(1), of r cs] assms by auto
  have shape: "print_event e = [call_line (fst c) (shown_pid (snd c)) (from_utf8_lossy (nm c)) (c_text (filename e))] \<and>
      length (ev_comm e) = 16 \<and> length (filename e) = 64"
    if "c \<in> set cs" "event_for c e" for c e
    using assms(4) that by (auto simp: event_for_def print_event_call task_named_def c_text_padded)
  have len: "length es = length cs" using all by (simp add: list_all2_lengthD)
  have "\<And>e. e \<in> set es \<Longrightarrow> length (ev_comm e) = 16 \<and> length (filename e) = 64"
    using all shape by (metis (no_types, lifting) in_set_conv_nth list_all2_conv_all_nth)
  from ring_buffer.poll_rounds_events [OF assms(1) es this]
  obtain r' where "poll_rounds R (length cs) (run_hooks R cs r) = (concat (map print_event es), r')" "q r' = []"
    using len by auto
  moreover have "list_all2 (\<lambda>c l. \<exists>f. l = call_line (fst c) (shown_pid (snd c)) (from_utf8_lossy (nm c)) f) cs (concat (map print_event es))"
    using all shape
  proof (induction rule: list_all2_induct)
    case (Cons c cs e es)
    have "print_event e = [call_line (fst c) (shown_pid (snd c)) (from_utf8_lossy (nm c)) (c_text (filename e))]"
      using Cons.hyps(1) Cons.prems [of c e] by simp
    moreover have "list_all2 (\<lambda>c l. \<exists>f. l = call_line (fst c) (shown_pid (snd c)) (from_utf8_lossy (nm c)) f) cs (concat (map print_event es))"
      by (rule Cons.IH) (rule Cons.prems; simp)
    ultimately show ?case by auto
  qed simp
  ultimately show ?thesis by (auto simp: from_utf8_lossy_def utf8_lossy_id)
qed

definition demo_task :: "string \<Rightarrow> u64 \<Rightarrow> bytes \<Rightarrow> task_env" where
  "demo_task nm pt rec =
     \<lparr>current_pid_tgid = pt, current_comm = (\<lambda>b. take (length b) (as_bytes nm @ replicate 16 0) @ drop (length nm + 16) b),
      read_user_str = (\<lambda>p b. if length b < 3 then b else as_bytes ''ls'' @ 0 # drop 3 b), tp_record = rec\<rparr>"

definition demo_record :: bytes where
  "demo_record = replicate 8 0 @ word_bytes 8 (0x1000 :: u64) @ word_bytes 8 (0 :: u64) @ []"

theorem traced_calls_printed_witness:
  "\<exists>ls r'. poll_rounds ref_ring_ops 2 (run_hooks ref_ring_ops
       [(Execve, demo_task ''sh'' 0x700000007 []), (Openat, demo_task ''cat'' 0x900000009 [])]
       \<lparr>rr_queue = [], rr_old = []\<rparr>) = (ls, r') \<and>
     (\<exists>f g. ls = [Exec_line 7 ''sh'' f, Open_line 9 ''cat'' g])"
proof -
  let ?cs = "[(Execve, demo_task ''sh'' 0x700000007 []), (Openat, demo_task ''cat'' 0x900000009 [])]"
  let ?nm = "\<lambda>c :: traced_call \<times> task_env. if fst c = Execve then as_bytes ''sh'' else as_bytes ''cat''"
  have pids: "shown_pid (demo_task ''sh'' 0x700000007 []) = 7" "shown_pid (demo_task ''cat'' 0x900000009 []) = 9"
    by code_simp+
  have "utf8_valid (as_bytes ''sh'')" "utf8_valid (as_bytes ''cat'')"
    by code_simp+
  moreover have "0 \<notin> set (as_bytes ''sh'')" "0 \<notin> set (as_bytes ''cat'')"
    by code_simp+
  then have "\<forall>c \<in> set ?cs. task_ok (snd c) \<and> task_named (snd c) (?nm c)"
    by (auto simp: task_ok_def task_named_def demo_task_def as_bytes_def)
  ultimately show ?thesis
    using traced_calls_printed [OF rr.ring_buffer_axioms, of "\<lparr>rr_queue = [], rr_old = []\<rparr>" ?cs ?nm] pids
    by (auto simp: rr_cap_def list_all2_Cons1 numeral_2_eq_2 simp del: poll_rounds.simps)
qed

text \<open>
  The record of a \<^verbatim>\<open>sys_enter\<close> tracepoint starts with 8 bytes of common fields and the number of the
  call; the arguments follow from byte 16. So the programs take the number of the call, and for
  \<^verbatim>\<open>openat\<close> the directory descriptor, for the pointer to the name.
\<close>
lemma name_read_from_wrong_slot:
  assumes "tp_record t = hdr @ word_bytes 8 (nr :: u64) @ word_bytes 8 (arg0 :: u64) @ args" and "length hdr = 8"
  shows "read_at (tp_record t) (call_slot Execve) = Some nr"
    and "read_at (tp_record t) (call_slot Openat) = Some arg0"
    and "read_at (tp_record t) (call_slot Memfd_create) = Some nr"
  using assms field_word_bytes [of 8 hdr 8 nr] field_word_bytes [of 8 "hdr @ word_bytes 8 nr" 16 arg0 args]
  by (simp_all add: read_at_def)

text \<open>
  The name of the file is printed as the caller passed it exactly when the memory that the ring
  buffer handed out held only zeros behind it; otherwise the end of an earlier record is printed with it.
\<close>
lemma filename_shows_old_record:
  assumes "ring_buffer R q cap" and "q r = []" and "task_ok t"
    and res: "rb_reserve R process_event_size r = Some (entry, r1)"
    and ptr: "read_at (tp_record t) (call_slot c) = Some p" "p \<noteq> 0"
    and str: "\<And>b. length b = 64 \<Longrightarrow> read_user_str t p b = nm @ 0 # drop (Suc (length nm)) b"
    and nm: "plain_name nm" "nm \<noteq> []"
  shows "\<exists>cm f r2. poll_once R (run_hook R (c, t) r) = ([call_line c (shown_pid t) cm f], r2) \<and>
           (f = bytes_str nm \<longleftrightarrow> (\<forall>b \<in> set (drop (28 + Suc (length nm)) entry). b = 0))"
proof -
  have len: "length entry = process_event_size" and q1: "q r1 = q r"
    using ring_buffer.reserve_ok [OF assms(1), of r process_event_size]
      ring_buffer.reserve_full [OF assms(1), of r process_event_size] res
    by (cases "length (q r) < cap"; auto)+
  define e0 where "e0 = (process_event_of entry)\<lparr>event_type := call_type c, ev_pid := shown_pid t,
      ev_tgid := ucast (current_pid_tgid t), ev_comm := current_comm t (ev_comm (process_event_of entry))\<rparr>"
  define e where "e = fill_filename t (call_slot c) e0"
  have name_field: "filename e = nm @ 0 # drop (Suc (length nm)) (drop 28 entry)"
    using ptr str process_event_of_lengths [OF len] len
    by (simp add: e_def e0_def fill_filename_def process_event_of_def process_event_size_def)
  have "run_hook R (c, t) r = rb_submit R (process_event_bytes e) r1"
    by (simp add: run_hook_eq init_event_def res e_def e0_def shown_pid_def Let_def)
  then have "q (run_hook R (c, t) r) = [process_event_bytes e]"
    using ring_buffer.submit_q [OF assms(1)] q1 assms(2) by simp
  moreover have "length (ev_comm e) = 16" "length (filename e) = 64"
    using process_event_of_lengths [OF len] \<open>task_ok t\<close>
    by (simp_all add: e_def e0_def fill_filename_length task_ok_def [THEN iffD1, THEN conjunct1, rule_format])
  ultimately obtain r2 where "poll_once R (run_hook R (c, t) r) = (print_event e, r2)"
    using ring_buffer.poll_once_event [OF assms(1)] by blast
  moreover have "print_event e = [call_line c (shown_pid t) (c_text (ev_comm e)) (c_text (filename e))]"
    using print_event_call [of e c] by (simp add: e_def e0_def)
  moreover have "c_text (filename e) = bytes_str nm \<longleftrightarrow> (\<forall>b \<in> set (drop (28 + Suc (length nm)) entry). b = 0)"
    unfolding name_field c_text_exact [OF nm] by (simp add: add.commute)
  ultimately show ?thesis by auto
qed

lemma filename_shows_old_record_example:
  "\<exists>cm f r2. poll_once ref_ring_ops (run_hook ref_ring_ops (Execve, demo_task ''sh'' 7 demo_record)
       \<lparr>rr_queue = [], rr_old = replicate 92 0x41\<rparr>) = ([Exec_line 0 cm f], r2) \<and> f \<noteq> ''ls''"
proof -
  let ?t = "demo_task ''sh'' 7 demo_record" and ?r = "\<lparr>rr_queue = [], rr_old = replicate 92 0x41\<rparr>"
  have "rb_reserve ref_ring_ops process_event_size ?r = Some (replicate 92 0x41, ?r)"
    by (simp add: ref_ring_ops_def process_event_size_def rr_cap_def)
  moreover have "task_ok ?t" by (auto simp: task_ok_def demo_task_def as_bytes_def)
  moreover have "read_at (tp_record ?t) (call_slot Execve) = Some 0x1000"
    by (rule name_read_from_wrong_slot [where hdr = "replicate 8 0" and args = "[]" and ?arg0.0 = 0]) (simp_all add: demo_task_def demo_record_def)
  moreover have "plain_name (as_bytes ''ls'')" "shown_pid ?t = 0" by code_simp+
  moreover have "as_bytes ''ls'' \<noteq> []" by (simp add: as_bytes_def)
  moreover have "\<not> (\<forall>b \<in> set (drop (28 + Suc (length (as_bytes ''ls''))) (replicate 92 0x41)). b = (0 :: u8))"
    by simp
  moreover have "read_user_str ?t 0x1000 b = as_bytes ''ls'' @ 0 # drop (Suc (length (as_bytes ''ls''))) b" if "length b = 64" for b
    using that by (simp add: demo_task_def numeral_3_eq_3)
  ultimately show ?thesis
    using filename_shows_old_record [OF rr.ring_buffer_axioms, of ?r ?t "replicate 92 0x41" ?r Execve
        "0x1000" "as_bytes ''ls''"]
    by auto
qed

end
