(* ===== verification/Syscall_Tracer.thy ===== *)
theory Syscall_Tracer
  imports Proc_Control
begin

text \<open>
  The system call tracer (\<^verbatim>\<open>syscall_tracer\<close>): the program on \<^verbatim>\<open>raw_syscalls/sys_enter\<close> and the reader
  of the perf buffers. The helpers of the running task are those of \<open>task_env\<close>; the reader gets the
  batches that \<^verbatim>\<open>read_events\<close> delivers, an error being unwrapped.
\<close>

section \<open>The program\<close>

record Event =
  tr_pid :: u32
  tr_syscall_id :: u32
  tr_comm :: bytes

text \<open>The memory of an event, and the cast of a perf buffer.\<close>

definition trace_event_bytes :: "Event \<Rightarrow> bytes" where
  "trace_event_bytes e = word_bytes 4 (tr_pid e) @ word_bytes 4 (tr_syscall_id e) @ tr_comm e"

definition trace_event_of :: "bytes \<Rightarrow> Event" where
  "trace_event_of b = \<lparr>tr_pid = field 0 4 b, tr_syscall_id = field 4 4 b, tr_comm = take 16 (drop 8 b)\<rparr>"

definition read_u32_at :: "bytes \<Rightarrow> nat \<Rightarrow> u32 option" where
  "read_u32_at ctx off = (if off + 4 \<le> length ctx then Some (field off 4 ctx) else None)"

definition sys_enter_syscall :: "task_env \<Rightarrow> bytes" where
  "sys_enter_syscall t =
     (let event = \<lparr>tr_pid = ucast (drop_bit 32 (current_pid_tgid t)),
                   tr_syscall_id = (case read_u32_at (tp_record t) 0 of Some i \<Rightarrow> i | None \<Rightarrow> 0),
                   tr_comm = replicate 16 0\<rparr>
      in trace_event_bytes (event\<lparr>tr_comm := current_comm t (tr_comm event)\<rparr>))"

section \<open>The reader\<close>

record trace_line =
  line_pid :: u32
  line_comm :: string
  line_syscall :: u32

definition trace_print :: "bytes \<Rightarrow> trace_line" where
  "trace_print buf =
     (let event = trace_event_of buf;
          comm = trim_matches CHR 0x00 (case from_utf8 (tr_comm event) of Some s \<Rightarrow> s | None \<Rightarrow> ''unknown'')
      in \<lparr>line_pid = tr_pid event, line_comm = comm, line_syscall = tr_syscall_id event\<rparr>)"

fun trace_reader :: "bytes list option list \<Rightarrow> trace_line list run" where
  "trace_reader [] = Ret []"
| "trace_reader (None # bs) = Panic"
| "trace_reader (Some buffers # bs) = bind_run (trace_reader bs) (\<lambda>ls. Ret (map trace_print buffers @ ls))"

section \<open>Properties\<close>

lemma trace_event_round_trip: "length (tr_comm e) = 16 \<Longrightarrow> trace_event_of (trace_event_bytes e) = e"
  by (simp add: trace_event_of_def trace_event_bytes_def field_word_bytes_first field_word_bytes_skip)

text \<open>The name as it is printed: one that is not UTF-8 is not shown.\<close>

definition shown_name :: "bytes \<Rightarrow> string" where
  "shown_name nm = (if utf8_valid nm then bytes_str nm else ''unknown'')"

lemma trace_print_call:
  assumes "task_named t nm" and "4 \<le> length (tp_record t)"
  shows "trace_print (sys_enter_syscall t) =
         \<lparr>line_pid = shown_pid t, line_comm = shown_name nm, line_syscall = field 0 4 (tp_record t)\<rparr>"
proof -
  have comm: "current_comm t (replicate 16 0) = nm @ replicate (16 - length nm) 0"
    and nul: "0 \<notin> set nm" and len: "length nm < 16"
    using assms(1) by (auto simp: task_named_def)
  have "trim_matches CHR 0x00 ''unknown'' = ''unknown''" by code_simp
  then show ?thesis
    using assms(2) len trim_padded [OF nul, of "16 - length nm"]
    by (simp add: sys_enter_syscall_def trace_print_def trace_event_round_trip comm read_u32_at_def
        from_utf8_def shown_pid_def shown_name_def utf8_valid_pad Let_def del: bytes_str_append)
qed

lemma trace_reader_batches: "trace_reader (map Some bs) = Ret (map trace_print (concat bs))"
  by (induction bs) auto

text \<open>
  Whatever batches the events are delivered in, the tracer prints one line per system call, in
  order, with the process id and the name of the caller (if it is UTF-8). The number it prints is the first word of the
  common header of the tracepoint record: the number of the system call, which the record holds behind
  that header, has no influence on the line.
\<close>
lemma tracer_prints_header_word:
  assumes "\<forall>t \<in> set (concat tss). task_named t (nm t) \<and> length (hdr t) = 8 \<and>
             (\<exists>args. tp_record t = hdr t @ word_bytes 8 (nr t :: u64) @ args)"
  shows "trace_reader (map (\<lambda>ts. Some (map sys_enter_syscall ts)) tss) =
         Ret (map (\<lambda>t. \<lparr>line_pid = shown_pid t, line_comm = shown_name (nm t), line_syscall = field 0 4 (hdr t)\<rparr>)
               (concat tss))"
proof -
  have line: "trace_print (sys_enter_syscall t) =
      \<lparr>line_pid = shown_pid t, line_comm = shown_name (nm t), line_syscall = field 0 4 (hdr t)\<rparr>"
    if "t \<in> set (concat tss)" for t
  proof -
    obtain args where "tp_record t = hdr t @ word_bytes 8 (nr t) @ args" "length (hdr t) = 8" "task_named t (nm t)"
      using assms \<open>t \<in> set (concat tss)\<close> by blast
    then show ?thesis
      using trace_print_call [of t "nm t"] field_append [of 0 4 "hdr t"] by simp
  qed
  have "trace_reader (map (\<lambda>ts. Some (map sys_enter_syscall ts)) tss) =
        Ret (map trace_print (concat (map (map sys_enter_syscall) tss)))"
    using trace_reader_batches [of "map (map sys_enter_syscall) tss"] by (simp add: comp_def)
  also have "map trace_print (concat (map (map sys_enter_syscall) tss)) =
      map (\<lambda>t. trace_print (sys_enter_syscall t)) (concat tss)"
    by (simp add: map_concat comp_def)
  also have "\<dots> = map (\<lambda>t. \<lparr>line_pid = shown_pid t, line_comm = shown_name (nm t), line_syscall = field 0 4 (hdr t)\<rparr>)
               (concat tss)"
    using line by (intro map_cong) auto
  finally show ?thesis .
qed

definition demo_sys_enter :: "u64 \<Rightarrow> bytes" where
  "demo_sys_enter nr = [0x15, 0, 0, 0, 7, 0, 0, 0] @ word_bytes 8 nr @ []"

lemma tracer_prints_header_word_example:
  "trace_reader [Some [sys_enter_syscall (demo_task ''sh'' 0x700000007 (demo_sys_enter 59)),
                       sys_enter_syscall (demo_task ''sh'' 0x700000007 (demo_sys_enter 257))]] =
   Ret [\<lparr>line_pid = 7, line_comm = ''sh'', line_syscall = 0x15\<rparr>, \<lparr>line_pid = 7, line_comm = ''sh'', line_syscall = 0x15\<rparr>]"
proof -
  let ?t = "\<lambda>nr. demo_task ''sh'' 0x700000007 (demo_sys_enter nr)"
  let ?nr = "\<lambda>t. field 8 8 (tp_record t) :: u64"
  have plain: "0 \<notin> set (as_bytes ''sh'')" "shown_name (as_bytes ''sh'') = ''sh''" and pid: "shown_pid (?t 59) = 7" "shown_pid (?t 257) = 7"
    and word: "field 0 4 [0x15, 0, 0, 0, 7, 0, 0, 0] = (0x15 :: u32)"
    by code_simp+
  have rec: "?nr (?t nr) = nr" for nr
    using field_word_bytes [of 8 "[0x15, 0, 0, 0, 7, 0, 0, 0]" 8 nr "[]"]
    by (simp add: demo_task_def demo_sys_enter_def)
  have "task_named (?t nr) (as_bytes ''sh'')" for nr
    using plain(1) by (simp add: task_named_def demo_task_def as_bytes_def)
  then show ?thesis
    using tracer_prints_header_word [of "[[?t 59, ?t 257]]" "\<lambda>_. as_bytes ''sh''" "\<lambda>_. [0x15, 0, 0, 0, 7, 0, 0, 0]" ?nr]
      pid word rec plain(2)
    by (simp add: demo_task_def demo_sys_enter_def)
qed

end
