(* ===== verification/Loaders.thy ===== *)
theory Loaders
  imports Aya Xdp_Router_User Xdp_Firewall Lsm_Hooks Syscall_Tracer
begin

text \<open>
  The \<^verbatim>\<open>main\<close> functions of the programs with a kernel half: \<^verbatim>\<open>xdp_router\<close>, \<^verbatim>\<open>xdp_firewall\<close>,
  \<^verbatim>\<open>lsm_hooks/userspace\<close>, \<^verbatim>\<open>proc-control\<close> and \<^verbatim>\<open>syscall_tracer\<close>. Each is the sequence of fallible calls of
  \<open>Aya\<close> around the operations of the component; what runs for ever is given a finite sequence of inputs
  (contents of a file, events, messages). A result carries the state of the system and what the
  program has done to its map.
\<close>

section \<open>XDP firewall\<close>

fun firewall_rounds ::
    "('n4, 'n6) ipnet_ops \<Rightarrow> (('n4, 'n6) IpNet set \<Rightarrow> ('n4, 'n6) IpNet list)
      \<Rightarrow> (IpKey \<Rightarrow> u8 \<Rightarrow> 'm \<Rightarrow> 'e + 'm) \<Rightarrow> string option list \<Rightarrow> 'm \<Rightarrow> 'm run" where
  "firewall_rounds N iter ins [] m = Ret m"
| "firewall_rounds N iter ins (src # srcs) m =
     bind_run (reload_blocked N iter ins src m) (firewall_rounds N iter ins srcs)"

definition firewall_main ::
    "('k, 'z) aya_sys_scheme \<Rightarrow> ('n4, 'n6) ipnet_ops \<Rightarrow> (('n4, 'n6) IpNet set \<Rightarrow> ('n4, 'n6) IpNet list)
      \<Rightarrow> (IpKey \<Rightarrow> u8 \<Rightarrow> 'm \<Rightarrow> 'e + 'm) \<Rightarrow> string option list \<Rightarrow> 'k \<Rightarrow> 'm \<Rightarrow> ('k, 'k \<times> 'm run) start_result" where
  "firewall_main S N iter ins srcs k m =
     or_fail k (bpf_load S ''target/bpfel-unknown-none/release/xdp_firewall'' k) (\<lambda>k1.
     start_program S ''Xdp'' ''xdp_firewall'' [''eth0'', ''default''] k1 (\<lambda>k2.
     take_map S ''LpmTrie'' ''BLOCKED_IPS'' k2 (Finished (k2, firewall_rounds N iter ins srcs m))))"

section \<open>XDP router\<close>

text \<open>
  The task of lines 73 to 77: without a netlink socket it ends with a message. It holds the map; a panic
  ends the task and not the program.
\<close>

definition router_task ::
    "('m \<Rightarrow> RouteKey \<Rightarrow> RouteValue option) \<Rightarrow> (RouteKey \<Rightarrow> RouteValue \<Rightarrow> 'm \<Rightarrow> 'e + 'm)
      \<Rightarrow> ('n + neigh_attr list) list option \<Rightarrow> 'm \<Rightarrow> 'm run" where
  "router_task lookup ins netlink m =
     (case netlink of None \<Rightarrow> Ret m | Some msgs \<Rightarrow> monitor_arp_updates lookup ins msgs m)"

definition router_main ::
    "('k, 'z) aya_sys_scheme \<Rightarrow> ('m \<Rightarrow> RouteKey \<Rightarrow> RouteValue option) \<Rightarrow> (RouteKey \<Rightarrow> RouteValue \<Rightarrow> 'm \<Rightarrow> 'e + 'm)
      \<Rightarrow> iface list option \<Rightarrow> ('n + neigh_attr list) list option \<Rightarrow> 'k \<Rightarrow> 'm \<Rightarrow> ('k, 'k \<times> 'm run) start_result" where
  "router_main S lookup ins interfaces netlink k m =
     or_fail k (bpf_load S ''target/bpfel-unknown-none/release/xdp-router'' k) (\<lambda>k1.
     start_program S ''Xdp'' ''xdp_router'' [''eth0'', ''default''] k1 (\<lambda>k2.
     take_map S ''HashMap'' ''ROUTES'' k2
       (case interfaces of
          None \<Rightarrow> Failed k2
        | Some ifs \<Rightarrow>
            (case install_ifaces ins ifs m of
               Inl e \<Rightarrow> Failed k2
             | Inr m1 \<Rightarrow> await_ctrl_c S k2 (k2, router_task lookup ins netlink m1)))))"

section \<open>LSM file hook\<close>

definition RULES_FILE_PATH :: string where "RULES_FILE_PATH = ''/etc/lsm_hooks/ebpf_file_rules.txt''"

text \<open>\<^verbatim>\<open>Path::parent\<close> for an absolute path without repeated or trailing slashes.\<close>

definition path_parent :: "string \<Rightarrow> string option" where
  "path_parent p =
     (let q = dropWhile (\<lambda>c. c \<noteq> CHR ''/'') (rev p)
      in if tl p = [] then None else if tl q = [] then Some ''/'' else Some (rev (tl q)))"

record 'k lsm_sys = "'k aya_sys" +
  btf_from_sys_fs :: "'k \<Rightarrow> bool"
  watcher_new :: "'k \<Rightarrow> 'k option"
  watcher_watch :: "string \<Rightarrow> 'k \<Rightarrow> 'k option"

definition lsm_main ::
    "'k lsm_sys \<Rightarrow> (FileRuleKey \<Rightarrow> FileRuleValue \<Rightarrow> 'm \<Rightarrow> 'e + 'm) \<Rightarrow> ('io + ('io + string) list)
      \<Rightarrow> (('n + event) \<times> ('io + ('io + string) list)) list \<Rightarrow> 'k \<Rightarrow> 'm \<Rightarrow> ('k, 'k \<times> 'm) start_result" where
  "lsm_main S ins opened evs k m =
     (if \<not> btf_from_sys_fs S k then Failed k
      else or_fail k (bpf_load S ''bpf_program.o'' k) (\<lambda>k1.
        or_fail k1 (logger_init S k1) (\<lambda>k2.
        start_program S ''Lsm'' ''file_open'' [] k2 (\<lambda>k3.
        take_map S ''HashMap'' ''RULES'' k3
          (let m1 = fst (snd (reload_rules ins opened m))
           in or_fail k3 (watcher_new S k3) (\<lambda>k4.
              or_fail k4 (case path_parent RULES_FILE_PATH of
                            None \<Rightarrow> Some k4 | Some parent \<Rightarrow> watcher_watch S parent k4)
                (\<lambda>k5. Finished (k5, watch_loop ins evs m1))))))))"

section \<open>Process control\<close>

definition proc_main :: "('k, 'z) aya_sys_scheme \<Rightarrow> 'r ringbuf_ops \<Rightarrow> nat \<Rightarrow> 'k \<Rightarrow> 'r \<Rightarrow> ('k, 'k \<times> proc_line list) start_result" where
  "proc_main S R n k r =
     or_fail k (bpf_load S ''proc-control'' k) (\<lambda>k1.
     let k2 = (case logger_init S k1 of Some k' \<Rightarrow> k' | None \<Rightarrow> k1) in
     start_program S ''TracePoint'' ''sys_enter_execve'' [''sys_calls'', ''sys_enter_execve''] k2 (\<lambda>k3.
     start_program S ''TracePoint'' ''sys_enter_openat'' [''sys_calls'', ''sys_enter_openat''] k3 (\<lambda>k4.
     start_program S ''TracePoint'' ''sys_enter_memfd_create'' [''sys_calls'', ''sys_enter_memfd_create''] k4 (\<lambda>k5.
     take_map S ''RingBuf'' ''EVENTS'' k5
       (await_ctrl_c S k5 (k5, fst (poll_rounds R n r)))))))"

section \<open>System call tracer\<close>

record 'k tracer_sys = "'k aya_sys" +
  online_cpus :: "'k \<Rightarrow> nat list option"
  perf_open :: "nat \<Rightarrow> 'k \<Rightarrow> 'k option"

text \<open>One buffer and one reading task per processor; \<open>spawned\<close> collects the processors that have one.\<close>

fun open_buffers ::
    "'k tracer_sys \<Rightarrow> nat list \<Rightarrow> nat list \<Rightarrow> 'k \<Rightarrow> ('k \<Rightarrow> nat list \<Rightarrow> ('k, 'a) start_result) \<Rightarrow> ('k, 'a) start_result" where
  "open_buffers S [] spawned k f = f k spawned"
| "open_buffers S (cpu # cpus) spawned k f =
     or_fail k (perf_open S cpu k) (\<lambda>k'. open_buffers S cpus (spawned @ [cpu]) k' f)"

definition tracer_main ::
    "'k tracer_sys \<Rightarrow> (nat \<Rightarrow> bytes list option list) \<Rightarrow> 'k \<Rightarrow> ('k, 'k \<times> (nat \<times> trace_line list run) list) start_result" where
  "tracer_main S batches k =
     or_fail k (bpf_load S ''my_ebpf_prog'' k) (\<lambda>k1.
     or_fail k1 (logger_init S k1) (\<lambda>k2.
     start_program S ''TracePoint'' ''sys_enter_syscall'' [''raw_syscalls'', ''sys_enter''] k2 (\<lambda>k3.
     take_map S ''AsyncPerfEventArray'' ''EVENTS'' k3
       (case online_cpus S k3 of
          None \<Rightarrow> Failed k3
        | Some cpus \<Rightarrow>
            open_buffers S cpus [] k3 (\<lambda>k4 spawned.
              await_ctrl_c S k4 (k4, map (\<lambda>c. (c, trace_reader (batches c))) spawned))))))"

section \<open>What a start attaches\<close>

text \<open>
  Whatever call fails, a loader has attached at most the programs it names, in the places it names, and
  all of them when it goes on to its work.
\<close>

context aya_kernel
begin

lemma bpf_load_end_state:
  assumes "\<And>k'. attached k' = attached k \<Longrightarrow> attached (end_state g (f k')) \<subseteq> A" and "attached k \<subseteq> A"
  shows "attached (end_state g (or_fail k (bpf_load S img k) f)) \<subseteq> A"
  using assms by (cases "bpf_load S img k") (simp_all add: bpf_load_attached)

lemma take_map_end_state:
  assumes "attached (end_state g r) \<subseteq> A" and "attached k \<subseteq> A"
  shows "attached (end_state g (take_map S kind name k r)) \<subseteq> A"
  using assms by (simp add: take_map_def)

lemma await_ctrl_c_end_state:
  "attached k \<subseteq> A \<Longrightarrow> attached (g a) \<subseteq> A \<Longrightarrow> attached (end_state g (await_ctrl_c S k a)) \<subseteq> A"
  by (simp add: await_ctrl_c_def)

lemma logger_optional: "attached (case logger_init S k of Some k' \<Rightarrow> k' | None \<Rightarrow> k) = attached k"
  by (simp add: logger_attached split: option.split)

lemmas end_state_rules = bpf_load_end_state take_map_end_state await_ctrl_c_end_state start_program_end_state

lemma firewall_main_attaches:
  "attached (end_state fst (firewall_main S N iter ins srcs k m)) \<subseteq>
     insert (''xdp_firewall'', [''eth0'', ''default'']) (attached k)"
  unfolding firewall_main_def by (intro end_state_rules) auto

lemma router_main_attaches:
  "attached (end_state fst (router_main S lookup ins interfaces netlink k m)) \<subseteq>
     insert (''xdp_router'', [''eth0'', ''default'']) (attached k)"
  unfolding router_main_def
  by (intro end_state_rules) (auto simp: await_ctrl_c_def split: option.split sum.split)

lemma proc_main_attaches:
  "attached (end_state fst (proc_main S R n k r)) \<subseteq>
     attached k \<union> (\<lambda>s. (s, [''sys_calls'', s])) ` {''sys_enter_execve'', ''sys_enter_openat'', ''sys_enter_memfd_create''}"
  unfolding proc_main_def Let_def
  by (intro end_state_rules) (auto simp: logger_optional)

lemma proc_main_finished:
  assumes "proc_main S R n k r = Finished (k', ls)"
  shows "attached k' = attached k \<union>
    (\<lambda>s. (s, [''sys_calls'', s])) ` {''sys_enter_execve'', ''sys_enter_openat'', ''sys_enter_memfd_create''}"
  using assms
  by (auto simp: proc_main_def Let_def await_ctrl_c_def logger_optional bpf_load_attached split: if_splits
      elim!: or_fail_cases start_program_Finished)

end

section \<open>Process control never starts\<close>

text \<open>
  The tracepoints are attached in the category sys_calls. On a kernel that has no such category,
  so that attaching there fails, the loader of process control never gets to its polling loop and leaves
  the attachments of the system as they were.
\<close>
lemma proc_control_never_starts:
  assumes "aya_kernel S attached"
    and "\<And>name cat ev k. cat \<notin> categories \<Longrightarrow> program_attach S name [cat, ev] k = None"
    and "''sys_calls'' \<notin> categories"
  shows "\<exists>k'. proc_main S R n k r \<in> {Failed k', Unwrap_panic k'} \<and> attached k' = attached k"
proof (cases "bpf_load S ''proc-control'' k")
  case None
  then show ?thesis by (auto simp: proc_main_def)
next
  case (Some k1)
  let ?k2 = "case logger_init S k1 of Some k' \<Rightarrow> k' | None \<Rightarrow> k1"
  have k2: "attached ?k2 = attached k"
    using aya_kernel.logger_optional [OF assms(1)] aya_kernel.bpf_load_attached [OF assms(1) Some] by simp
  have "program_load S nm ?k2 = Some k3 \<Longrightarrow> attached k3 = attached k" for nm k3
    using aya_kernel.program_load_attached [OF assms(1)] k2 by simp
  then show ?thesis
    using k2 assms(2) [OF assms(3)]
    by (cases "program_load S ''sys_enter_execve'' ?k2") (auto simp: proc_main_def Some start_program_def Let_def)
qed

definition plain_kernel :: ref_kernel where
  "plain_kernel = \<lparr>rk_attached = [], rk_rejects = [''sys_calls'']\<rparr>"

text \<open>A system whose tracepoint categories are fixed, whatever its state.\<close>

definition cat_aya :: "ref_kernel aya_sys" where
  "cat_aya = ref_aya\<lparr>program_attach := (\<lambda>name target k. if hd target \<in> {''syscalls'', ''raw_syscalls''}
     then Some (k\<lparr>rk_attached := (name, target) # rk_attached k\<rparr>) else None)\<rparr>"

interpretation cat_aya: aya_kernel cat_aya "\<lambda>k. set (rk_attached k)"
  by unfold_locales (auto simp: cat_aya_def ref_aya_def split: if_splits)

lemma proc_control_never_starts_example:
  "\<exists>k'. proc_main cat_aya ref_ring_ops 5 plain_kernel \<lparr>rr_queue = [], rr_old = []\<rparr> \<in> {Failed k', Unwrap_panic k'} \<and>
     set (rk_attached k') = set (rk_attached plain_kernel)"
  by (rule proc_control_never_starts [OF cat_aya.aya_kernel_axioms, of "{''syscalls'', ''raw_syscalls''}"])
    (simp_all add: cat_aya_def)

section \<open>The firewall over any number of rounds\<close>










section \<open>The hook without rules\<close>

locale lsm_kernel = aya_kernel S attached
  for S :: "'k lsm_sys" and attached :: "'k \<Rightarrow> (string \<times> string list) set" +
  assumes watcher_new_attached: "watcher_new S k = Some k' \<Longrightarrow> attached k' = attached k"
    and watcher_watch_attached: "watcher_watch S dir k = Some k' \<Longrightarrow> attached k' = attached k"
begin

lemma lsm_main_finished:
  assumes "lsm_main S ins opened evs k m = Finished (k', m')"
  shows "attached k' = insert (''file_open'', []) (attached k) \<and>
         m' = watch_loop ins evs (fst (snd (reload_rules ins opened m)))"
  using assms
  by (auto simp: lsm_main_def Let_def bpf_load_attached logger_attached watcher_new_attached watcher_watch_attached
      split: if_splits option.splits elim!: or_fail_cases start_program_Finished)

end

definition ref_lsm :: "ref_kernel lsm_sys" where
  "ref_lsm =
     \<lparr>bpf_load = bpf_load ref_aya, logger_init = logger_init ref_aya, has_program = has_program ref_aya,
      program_is = program_is ref_aya, program_load = program_load ref_aya, program_attach = program_attach ref_aya,
      has_map = has_map ref_aya, map_is = map_is ref_aya, ctrl_c = ctrl_c ref_aya,
      btf_from_sys_fs = (\<lambda>_. True), watcher_new = Some, watcher_watch = (\<lambda>_. Some)\<rparr>"

interpretation ref_lsm: lsm_kernel ref_lsm "\<lambda>k. set (rk_attached k)"
  by (rule lsm_kernel.intro [OF ref_aya_kernel]) (unfold_locales, auto simp: ref_lsm_def)

lemma watch_loop_unopened: "list_all (\<lambda>(res, opened). isl opened) evs \<Longrightarrow> watch_loop ins evs m = m"
  by (induction evs) (auto simp: reload_rules_def isl_def split: sum.split)

text \<open>
  The file hook fails open. When the file with the rules cannot be opened at the start nor at any event
  after it, the loader goes on with the hook attached and every open of every file is allowed.
\<close>
lemma lsm_hook_without_rules:
  assumes "lsm_kernel S attached" and "lookup m = Map.empty"
    and "list_all (\<lambda>(res, opened). isl opened) evs"
    and "lsm_main S ins (Inl e) evs k m = Finished (k', m')"
  shows "(''file_open'', []) \<in> attached k' \<and> file_open (lookup m') d_path f = 0"
proof -
  have "lookup m' = Map.empty" and "(''file_open'', []) \<in> attached k'"
    using lsm_kernel.lsm_main_finished [OF assms(1,4)] assms(2)
    by (simp_all add: reload_rules_def watch_loop_unopened [OF assms(3)])
  then show ?thesis
    by (simp add: file_open_def split: option.split prod.split)
qed

lemma lsm_hook_without_rules_example:
  "\<exists>k' m'. lsm_main ref_lsm (bpf_hash_insert 1024) (Inl ()) [(Inr Modify, Inl ()), (Inl (), Inl ())] plain_kernel [] =
       Finished (k', m') \<and> (''file_open'', []) \<in> set (rk_attached k') \<and>
     file_open (map_of m') d_path_plain (Some \<lparr>f_path = ''/etc/shadow'', f_flags = 2\<rparr>) = 0"
proof -
  obtain k' m' where fin: "lsm_main ref_lsm (bpf_hash_insert 1024) (Inl () :: unit + (unit + string) list)
      [(Inr Modify, Inl ()), (Inl (), Inl ())] plain_kernel [] = Finished (k', m')"
    by (simp add: lsm_main_def ref_lsm_def ref_aya_def start_program_def take_map_def path_parent_def RULES_FILE_PATH_def
        plain_kernel_def Let_def)
  show ?thesis
    using lsm_hook_without_rules [OF ref_lsm.lsm_kernel_axioms _ _ fin, of map_of d_path_plain] fin by fastforce
qed

section \<open>Routes and readers\<close>

text \<open>The map the router works with only ever holds entries of the shape its packet path needs.\<close>

lemma router_main_user_map:
  assumes "route_map lookup ins" and "lookup m = Map.empty"
    and "router_main S lookup ins interfaces netlink k m = Finished (k', Ret m')"
  shows "user_map lookup m'"
proof -
  from assms(3) obtain ifs m1 where m1: "install_ifaces ins ifs m = Inr m1"
    and task: "router_task lookup ins netlink m1 = Ret m'"
    by (auto simp: router_main_def start_program_def await_ctrl_c_def elim!: or_fail_cases
        split: if_splits option.splits sum.splits)
  have "user_map lookup m1"
    using route_map.install_ifaces_user_map [OF assms(1) m1] assms(2) by (simp add: user_map_def)
  then show ?thesis
    using task route_map.monitor_user_map [OF assms(1)] by (auto simp: router_task_def split: option.splits)
qed

lemma open_buffers_Finished:
  "open_buffers S cpus spawned k f = Finished a \<Longrightarrow> \<exists>k'. f k' (spawned @ cpus) = Finished a"
  by (induction cpus arbitrary: spawned k) (fastforce elim!: or_fail_cases)+

text \<open>Once the tracer waits for its signal, there is exactly one reader for every processor.\<close>

lemma tracer_reads_every_cpu:
  assumes "tracer_main S batches k = Finished (k', rs)"
  shows "\<exists>k3. online_cpus S k3 = Some (map fst rs) \<and> (\<forall>(c, out) \<in> set rs. out = trace_reader (batches c))"
  using assms
  by (auto simp: tracer_main_def start_program_def await_ctrl_c_def elim!: or_fail_cases dest!: open_buffers_Finished
      split: if_splits option.splits) (auto simp: comp_def)

end
