(* ===== verification/Small_Samples.thy ===== *)
theory Small_Samples
  imports Rust_Text Rust_Utf8
begin

text \<open>
  The small programs around a library: \<^verbatim>\<open>md5_hasher\<close> (three calls of OpenSSL and a hexadecimal string), and
  the client and the stored procedure of \<^verbatim>\<open>tarantool\<close>. The libraries are records of operations: the C
  functions return a status and change the context, the calls of \<^verbatim>\<open>tarantool\<close> change the state of the
  server or fail.
\<close>

section \<open>MD5 hasher\<close>

record 'c md5_ffi =
  MD5_Init :: "'c \<Rightarrow> int \<times> 'c"
  MD5_Update :: "bytes \<Rightarrow> nat \<Rightarrow> 'c \<Rightarrow> int \<times> 'c"
  MD5_Final :: "bytes \<Rightarrow> 'c \<Rightarrow> int \<times> bytes"
  MD5_DIGEST_LENGTH :: nat

text \<open>
  The context starts as uninitialised memory, \<open>ctx\<close>. The pointer and the length of the data go to
  \<^verbatim>\<open>MD5_Update\<close> separately; \<^verbatim>\<open>hex::encode\<close> is the parameter \<open>encode\<close>.
\<close>

definition compute_md5 :: "'c md5_ffi \<Rightarrow> (bytes \<Rightarrow> string) \<Rightarrow> 'c \<Rightarrow> bytes \<Rightarrow> string run" where
  "compute_md5 F encode ctx data =
     (case MD5_Init F ctx of (r, ctx1) \<Rightarrow>
        if r \<noteq> 1 then Panic
        else case MD5_Update F data (length data) ctx1 of (r, ctx2) \<Rightarrow>
          if r \<noteq> 1 then Panic
          else case MD5_Final F (replicate (MD5_DIGEST_LENGTH F) 0) ctx2 of (r, digest) \<Rightarrow>
            if r \<noteq> 1 then Panic else Ret (encode digest))"

text \<open>
  What OpenSSL documents: the three calls succeed, and the digest depends on the first \<open>n\<close> bytes given to
  \<^verbatim>\<open>MD5_Update\<close> only, here as the function \<open>H\<close>. The result is then the digest of exactly the input,
  whatever the memory of the context held.
\<close>

lemma compute_md5_digest:
  assumes "MD5_Init F ctx = (1, c1)" and "MD5_Update F data (length data) c1 = (1, c2)"
    and "MD5_Final F (replicate (MD5_DIGEST_LENGTH F) 0) c2 = (1, H (take (length data) data))"
  shows "compute_md5 F encode ctx data = Ret (encode (H data))"
  using assms by (simp add: compute_md5_def)

lemma compute_md5_panics:
  "fst (MD5_Init F ctx) \<noteq> 1 \<Longrightarrow> compute_md5 F encode ctx data = Panic"
  by (cases "MD5_Init F ctx") (simp add: compute_md5_def)

definition md5_input :: bytes where
  "md5_input = as_bytes ''Hello from rust and OpenSSL!''"

definition md5_main :: "'c md5_ffi \<Rightarrow> (bytes \<Rightarrow> string) \<Rightarrow> 'c \<Rightarrow> string list run" where
  "md5_main F encode ctx =
     bind_run (compute_md5 F encode ctx md5_input) (\<lambda>hash_string.
       Ret [''input string: '' @ from_utf8_lossy md5_input, ''MD5 hash:     '' @ hash_string])"

text \<open>The program prints its input as it is, and the digest of it.\<close>

lemma md5_main_prints:
  assumes "compute_md5 F encode ctx md5_input = Ret h"
  shows "md5_main F encode ctx = Ret [''input string: Hello from rust and OpenSSL!'', ''MD5 hash:     '' @ h]"
proof -
  have "from_utf8_lossy md5_input = ''Hello from rust and OpenSSL!''" by code_simp
  then show ?thesis using assms by (simp add: md5_main_def)
qed

section \<open>Tarantool: the stored procedure\<close>

record CustomPayload =
  pl_user_id :: u32
  pl_points :: u32

record ('s, 't) tnt_module =
  space_find :: "string \<Rightarrow> 's option"
  space_get :: "'s \<Rightarrow> u32 \<Rightarrow> 't option option"
  return_tuple :: "'t \<Rightarrow> int option"

text \<open>
  \<open>args\<close> is what decoding the arguments gives; \<open>space_get\<close> is \<^const>\<open>None\<close> for an error and
  \<^term>\<open>Some None\<close> for a missing row.
\<close>

definition add_some_action :: "('s, 't) tnt_module \<Rightarrow> CustomPayload option \<Rightarrow> int run" where
  "add_some_action T args =
     (case args of
        None \<Rightarrow> Ret (- 1)
      | Some payload \<Rightarrow>
          (case space_find T ''users'' of
             None \<Rightarrow> Panic
           | Some space \<Rightarrow>
               (case space_get T space (pl_user_id payload) of
                  Some (Some tuple) \<Rightarrow>
                    (case return_tuple T tuple of Some r \<Rightarrow> Ret r | None \<Rightarrow> Panic)
                | _ \<Rightarrow> Panic)))"

text \<open>
  The row that goes back is the stored one: the points of the payload have no effect. A user that does
  not exist makes the procedure panic, inside the process of the database.
\<close>

lemma add_some_action_ignores_points:
  "add_some_action T (Some p) = add_some_action T (Some (p\<lparr>pl_points := n\<rparr>))"
  by (cases "space_find T ''users''") (simp_all add: add_some_action_def)

lemma add_some_action_missing_user:
  "space_find T ''users'' = Some sp \<Longrightarrow> space_get T sp (pl_user_id p) = Some None \<Longrightarrow> add_some_action T (Some p) = Panic"
  by (simp add: add_some_action_def)

section \<open>Tarantool: the client\<close>

record UserRow =
  row_id :: u32
  username :: string
  bucket_id :: u32

datatype tnt_args = Rows "UserRow list" | Key u32

record 'k tnt_conn =
  conn_new :: "string \<times> nat \<Rightarrow> 'k option"
  wait_connected :: "'k \<Rightarrow> 'k option"
  conn_call :: "string \<Rightarrow> tnt_args \<Rightarrow> 'k \<Rightarrow> (UserRow list option \<times> 'k) option"

datatype tnt_print = Connected | Saved "UserRow list" | Retrieved "UserRow list"

datatype tnt_end = Tnt_ok | Tnt_error | Tnt_panic

definition new_user :: UserRow where
  "new_user = \<lparr>row_id = 101, username = ''rust_developer'', bucket_id = 1\<rparr>"

definition tnt_client_main :: "'k tnt_conn \<Rightarrow> tnt_print list \<times> tnt_end" where
  "tnt_client_main T =
     (case Option.bind (conn_new T (''127.0.0.1'', 3301)) (wait_connected T) of
        None \<Rightarrow> ([], Tnt_error)
      | Some k \<Rightarrow>
          (case conn_call T ''box.space.users:insert'' (Rows [new_user]) k of
             None \<Rightarrow> ([Connected], Tnt_error)
           | Some (None, _) \<Rightarrow> ([Connected], Tnt_panic)
           | Some (Some result, k1) \<Rightarrow>
               (case conn_call T ''box.space.users:get'' (Key 101) k1 of
                  None \<Rightarrow> ([Connected, Saved result], Tnt_error)
                | Some (None, _) \<Rightarrow> ([Connected, Saved result], Tnt_panic)
                | Some (Some select_result, _) \<Rightarrow> ([Connected, Saved result, Retrieved select_result], Tnt_ok))))"

text \<open>
  A server with a unique primary key, as \<^verbatim>\<open>box.space.users\<close> has: the first run of the client saves its row
  and reads it back, and a second run on the same server ends with the error of the duplicate key.
\<close>

definition ref_tnt :: "(u32 \<times> UserRow) list \<Rightarrow> (u32 \<times> UserRow) list tnt_conn" where
  "ref_tnt rows =
     \<lparr>conn_new = (\<lambda>_. Some rows), wait_connected = Some,
      conn_call = (\<lambda>f a k. case a of
         Rows [r] \<Rightarrow> (if map_of k (row_id r) = None then Some (Some [r], (row_id r, r) # k) else None)
       | Rows _ \<Rightarrow> None
       | Key i \<Rightarrow> Some (Some (case map_of k i of None \<Rightarrow> [] | Some r \<Rightarrow> [r]), k))\<rparr>"

lemma tnt_client_first_run:
  "map_of rows 101 = None \<Longrightarrow> tnt_client_main (ref_tnt rows) = ([Connected, Saved [new_user], Retrieved [new_user]], Tnt_ok)"
  by (simp add: tnt_client_main_def ref_tnt_def new_user_def)

lemma tnt_client_second_run:
  "map_of rows 101 = Some r \<Longrightarrow> tnt_client_main (ref_tnt rows) = ([Connected], Tnt_error)"
  by (simp add: tnt_client_main_def ref_tnt_def new_user_def)

end
