(* ===== verification/Doge_Chain.thy ===== *)
theory Doge_Chain
  imports Interfaces Rust_Text
begin

text \<open>
  The toy blockchain (\<^verbatim>\<open>doge-rust/src/main.rs\<close>): transactions and their signatures, blocks and
  proof of work, the chain's operations, and the handling of network messages.

  SHA-256, ed25519, serde and the \<^verbatim>\<open>Display\<close> of \<^verbatim>\<open>f64\<close> are the fields of the record \<open>crypto\<close>;
  the clock is an argument. An amount is the 64 bits of its IEEE 754 representation. (The field
  \<^verbatim>\<open>amount\<close> is used throughout the file but missing from the declaration of the struct.)
\<close>

section \<open>Data\<close>

record Transaction =
  sender :: string
  receiver :: string
  amount :: u64
  signature :: "bytes option"

record Block =
  index :: u32
  timestamp :: u64
  transactions :: "Transaction list"
  previous_hash :: string
  hash :: string
  nonce :: u64

record Blockchain =
  chain :: "Block list"
  pending_transactions :: "Transaction list"

datatype Message = NewTransaction Transaction | NewBlock Block

record ('sk, 'vk, 'sg) crypto =
  sha256 :: "bytes \<Rightarrow> bytes"
  fmt_f64 :: "u64 \<Rightarrow> string"
  json_txs :: "Transaction list \<Rightarrow> string"
  json_msg :: "bytes \<Rightarrow> Message option"
  json_vec :: "Message \<Rightarrow> bytes"
  vk_from_bytes :: "bytes \<Rightarrow> 'vk option"
  sig_from_bytes :: "bytes \<Rightarrow> 'sg option"
  sig_to_bytes :: "'sg \<Rightarrow> bytes"
  sk_sign :: "'sk \<Rightarrow> bytes \<Rightarrow> 'sg"
  vk_verify :: "'vk \<Rightarrow> bytes \<Rightarrow> 'sg \<Rightarrow> bool"

definition DIFFICULTY :: nat where "DIFFICULTY = 4"
definition MINING_REWARD :: u64 where "MINING_REWARD = 0x4049000000000000"
definition GENESIS_AMOUNT :: u64 where "GENESIS_AMOUNT = 0x412E848000000000"

text \<open>\<^verbatim>\<open>x <= 0.0\<close> on the bits of an \<^verbatim>\<open>f64\<close>: false for NaN, true for both zeros and the negatives.\<close>

definition f64_is_nan :: "u64 \<Rightarrow> bool" where
  "f64_is_nan x \<longleftrightarrow> take_bit 11 (drop_bit 52 x) = 0x7FF \<and> take_bit 52 x \<noteq> 0"

definition f64_le_zero :: "u64 \<Rightarrow> bool" where
  "f64_le_zero x \<longleftrightarrow> \<not> f64_is_nan x \<and> (bit x 63 \<or> take_bit 63 x = 0)"

text \<open>A number above zero: not NaN, no sign bit, and not the zero.\<close>

definition f64_positive :: "u64 \<Rightarrow> bool" where
  "f64_positive x \<longleftrightarrow> \<not> f64_is_nan x \<and> \<not> bit x 63 \<and> take_bit 63 x \<noteq> 0"

lemma not_le_zero_iff: "\<not> f64_le_zero x \<longleftrightarrow> f64_is_nan x \<or> f64_positive x"
  by (auto simp: f64_le_zero_def f64_positive_def)

section \<open>The hex module\<close>

definition hex_encode :: "bytes \<Rightarrow> string" where
  "hex_encode bs = concat (map hex_byte bs)"

text \<open>
  \<^verbatim>\<open>decode\<close> walks over the even indices; the slice \<^verbatim>\<open>&s[i..i + 2]\<close> can panic, a pair that is not a
  number ends the walk with \<^verbatim>\<open>Err\<close> (\<^const>\<open>None\<close>).
\<close>

function hex_decode_from :: "string \<Rightarrow> nat \<Rightarrow> bytes option run" where
  "hex_decode_from s i =
     (if i < length s then
        bind_run (str_slice s i (i + 2))
          (\<lambda>p. case u8_from_str_radix16 p of
                 None \<Rightarrow> Ret None
               | Some b \<Rightarrow> bind_run (hex_decode_from s (i + 2)) (\<lambda>r. Ret (map_option (Cons b) r)))
      else Ret (Some []))"
  by pat_completeness auto
termination
  by (relation "measure (\<lambda>(s, i). length s - i)") auto

declare hex_decode_from.simps [simp del]

definition hex_decode :: "string \<Rightarrow> bytes option run" where
  "hex_decode s = hex_decode_from s 0"

section \<open>Transactions\<close>

definition transaction_new :: "string \<Rightarrow> string \<Rightarrow> u64 \<Rightarrow> Transaction" where
  "transaction_new s r a = \<lparr>sender = s, receiver = r, amount = a, signature = None\<rparr>"

definition tx_calculate_hash :: "('sk, 'vk, 'sg) crypto \<Rightarrow> Transaction \<Rightarrow> bytes" where
  "tx_calculate_hash C tx = sha256 C (as_bytes (sender tx @ receiver tx @ fmt_f64 C (amount tx)))"

definition tx_sign :: "('sk, 'vk, 'sg) crypto \<Rightarrow> 'sk \<Rightarrow> Transaction \<Rightarrow> Transaction" where
  "tx_sign C sk tx =
     (let msg = tx_calculate_hash C tx; sg = sk_sign C sk msg
      in tx\<lparr>signature := Some (sig_to_bytes C sg)\<rparr>)"

text \<open>\<^verbatim>\<open>v.try_into().unwrap_or([0; n])\<close>\<close>

definition to_array :: "nat \<Rightarrow> bytes \<Rightarrow> bytes" where
  "to_array n bs = (if length bs = n then bs else replicate n 0)"

definition verify_signature :: "('sk, 'vk, 'sg) crypto \<Rightarrow> Transaction \<Rightarrow> bool run" where
  "verify_signature C tx =
     (if sender tx = ''SYSTEM'' then Ret True
      else case signature tx of
          None \<Rightarrow> Ret False
        | Some sig_bytes \<Rightarrow>
            bind_run (hex_decode (sender tx))
              (\<lambda>pk. case pk of
                  None \<Rightarrow> Ret False
                | Some public_key_bytes \<Rightarrow>
                    (case vk_from_bytes C (to_array 32 public_key_bytes) of
                       None \<Rightarrow> Ret False
                     | Some verifying_key \<Rightarrow>
                         (case sig_from_bytes C (to_array 64 sig_bytes) of
                            None \<Rightarrow> Ret False
                          | Some sg \<Rightarrow> Ret (vk_verify C verifying_key (tx_calculate_hash C tx) sg)))))"

section \<open>Blocks\<close>

definition block_calculate_hash :: "('sk, 'vk, 'sg) crypto \<Rightarrow> Block \<Rightarrow> string" where
  "block_calculate_hash C b =
     (let tx_data = json_txs C (transactions b);
          input = show_nat (unat (index b)) @ show_nat (unat (timestamp b)) @ tx_data
                  @ previous_hash b @ show_nat (unat (nonce b))
      in hex_encode (sha256 C (as_bytes input)))"

definition block_new ::
    "('sk, 'vk, 'sg) crypto \<Rightarrow> u64 \<Rightarrow> u32 \<Rightarrow> Transaction list \<Rightarrow> string \<Rightarrow> Block" where
  "block_new C now i txs prev =
     (let block = \<lparr>index = i, timestamp = now, transactions = txs, previous_hash = prev,
                   hash = [], nonce = 0\<rparr>
      in block\<lparr>hash := block_calculate_hash C block\<rparr>)"

text \<open>
  The mining loop. \<^const>\<open>None\<close> means that it runs forever; the increment of the nonce panics at the
  end of its range under overflow checks.
\<close>

partial_function (option) mine_loop ::
    "('sk, 'vk, 'sg) crypto \<Rightarrow> bool \<Rightarrow> string \<Rightarrow> Block \<Rightarrow> Block run option" where
  "mine_loop C oc target b =
     (if starts_with (hash b) target then Some (Ret b)
      else case add_u64 oc (nonce b) 1 of
          Panic \<Rightarrow> Some Panic
        | Ret n \<Rightarrow> mine_loop C oc target
            (b\<lparr>nonce := n, hash := block_calculate_hash C (b\<lparr>nonce := n\<rparr>)\<rparr>))"

declare mine_loop.simps [code]

definition mine :: "('sk, 'vk, 'sg) crypto \<Rightarrow> bool \<Rightarrow> nat \<Rightarrow> Block \<Rightarrow> Block run option" where
  "mine C oc difficulty b = mine_loop C oc (replicate difficulty CHR ''0'') b"

section \<open>The chain\<close>

definition create_genesis_block ::
    "('sk, 'vk, 'sg) crypto \<Rightarrow> bool \<Rightarrow> u64 \<Rightarrow> Blockchain \<Rightarrow> Blockchain run option" where
  "create_genesis_block C oc now bc =
     (let genesis_tx = [transaction_new ''SYSTEM'' ''Genesis_Receiver'' GENESIS_AMOUNT];
          genesis_block = block_new C now 0 genesis_tx ''0''
      in bind_opt_run (mine C oc DIFFICULTY genesis_block)
           (\<lambda>b. Some (Ret (bc\<lparr>chain := chain bc @ [b]\<rparr>))))"

definition blockchain_new :: "('sk, 'vk, 'sg) crypto \<Rightarrow> bool \<Rightarrow> u64 \<Rightarrow> Blockchain run option" where
  "blockchain_new C oc now = create_genesis_block C oc now \<lparr>chain = [], pending_transactions = []\<rparr>"

definition get_latest_block :: "Blockchain \<Rightarrow> Block run" where
  "get_latest_block bc = (if chain bc = [] then Panic else Ret (last (chain bc)))"

definition add_transaction ::
    "('sk, 'vk, 'sg) crypto \<Rightarrow> Transaction \<Rightarrow> Blockchain \<Rightarrow> (string + Blockchain) run" where
  "add_transaction C tx bc =
     (if f64_le_zero (amount tx) then Ret (Inl ''The transaction amount must be greater than 0'')
      else bind_run (verify_signature C tx)
        (\<lambda>ok. if \<not> ok then Ret (Inl ''Critical error: Transaction digital signature is invalid!'')
              else Ret (Inr (bc\<lparr>pending_transactions := pending_transactions bc @ [tx]\<rparr>))))"

definition mine_pending_transactions ::
    "('sk, 'vk, 'sg) crypto \<Rightarrow> bool \<Rightarrow> u64 \<Rightarrow> string \<Rightarrow> Blockchain \<Rightarrow> (Blockchain \<times> Block) run option" where
  "mine_pending_transactions C oc now miner_address bc =
     (let reward_tx = transaction_new ''SYSTEM'' miner_address MINING_REWARD;
          block_txs = reward_tx # pending_transactions bc
      in case get_latest_block bc of
           Panic \<Rightarrow> Some Panic
         | Ret last_block \<Rightarrow>
             (case add_u32 oc (index last_block) 1 of
                Panic \<Rightarrow> Some Panic
              | Ret i \<Rightarrow>
                  bind_opt_run (mine C oc DIFFICULTY (block_new C now i block_txs (hash last_block)))
                    (\<lambda>new_block. Some (Ret (bc\<lparr>chain := chain bc @ [new_block], pending_transactions := []\<rparr>,
                                            new_block)))))"

definition add_block_from_network ::
    "('sk, 'vk, 'sg) crypto \<Rightarrow> Block \<Rightarrow> Blockchain \<Rightarrow> (string + Blockchain) run" where
  "add_block_from_network C block bc =
     bind_run (get_latest_block bc)
       (\<lambda>last_block.
          if previous_hash block \<noteq> hash last_block then Ret (Inl ''The previous hash does not match ..'')
          else if hash block \<noteq> block_calculate_hash C block then Ret (Inl ''Block hash is corrupted ..'')
          else Ret (Inr (bc\<lparr>chain := chain bc @ [block], pending_transactions := []\<rparr>)))"

section \<open>Network messages\<close>

text \<open>
  One connection: \<open>received\<close> is what the single read returned (\<^const>\<open>None\<close> for an error), at most the
  4096 bytes of the buffer. TCP may deliver fewer bytes than the peer wrote: then \<open>received\<close> is a proper
  prefix of the message, and the rest is never read. A rejected message leaves the chain as it is.
\<close>

definition handle_connection ::
    "('sk, 'vk, 'sg) crypto \<Rightarrow> bytes option \<Rightarrow> Blockchain \<Rightarrow> Blockchain run" where
  "handle_connection C received bc =
     (case received of
        None \<Rightarrow> Ret bc
      | Some buffer \<Rightarrow>
          if length buffer = 0 then Ret bc
          else case json_msg C buffer of
              None \<Rightarrow> Ret bc
            | Some (NewTransaction tx) \<Rightarrow>
                bind_run (add_transaction C tx bc) (\<lambda>r. Ret (case r of Inl e \<Rightarrow> bc | Inr bc' \<Rightarrow> bc'))
            | Some (NewBlock block) \<Rightarrow>
                bind_run (add_block_from_network C block bc) (\<lambda>r. Ret (case r of Inl e \<Rightarrow> bc | Inr bc' \<Rightarrow> bc')))"

text \<open>
  The node: every operation runs under the mutex, so the steps interleave as a whole. A connection
  task that panics leaves the chain as it was (tokio's mutex is not poisoned).
\<close>

inductive node_step :: "('sk, 'vk, 'sg) crypto \<Rightarrow> bool \<Rightarrow> Blockchain \<Rightarrow> Blockchain \<Rightarrow> bool"
  for C oc where
  local_tx: "add_transaction C tx bc = Ret (Inr bc') \<Longrightarrow> node_step C oc bc bc'"
| local_mine: "mine_pending_transactions C oc now miner bc = Some (Ret (bc', b)) \<Longrightarrow> node_step C oc bc bc'"
| network: "handle_connection C received bc = Ret bc' \<Longrightarrow>
     (\<And>buffer. received = Some buffer \<Longrightarrow> length buffer \<le> 4096) \<Longrightarrow> node_step C oc bc bc'"
| network_panic: "handle_connection C received bc = Panic \<Longrightarrow> node_step C oc bc bc"

text \<open>
  \<^verbatim>\<open>broadcast_message\<close>: the payloads written, in the order of the peer list; a peer that cannot be
  connected to is skipped.
\<close>

definition broadcast_message ::
    "('sk, 'vk, 'sg) crypto \<Rightarrow> ('peer \<Rightarrow> bool) \<Rightarrow> 'peer list \<Rightarrow> Message \<Rightarrow> ('peer \<times> bytes) list" where
  "broadcast_message C connect peers msg =
     (let payload = json_vec C msg in map (\<lambda>peer. (peer, payload)) (filter connect peers))"

text \<open>
  The connection tasks of the listener, in the order in which they get the mutex; one that panics leaves
  the chain as it was.
\<close>

definition serve_connection :: "('sk, 'vk, 'sg) crypto \<Rightarrow> bytes option \<Rightarrow> Blockchain \<Rightarrow> Blockchain" where
  "serve_connection C received bc = (case handle_connection C received bc of Ret bc' \<Rightarrow> bc' | Panic \<Rightarrow> bc)"

definition serve_connections :: "('sk, 'vk, 'sg) crypto \<Rightarrow> bytes option list \<Rightarrow> Blockchain \<Rightarrow> Blockchain" where
  "serve_connections C received bc = fold (serve_connection C) received bc"

text \<open>
  \<open>main\<close>: the chain is created, the listener is started, a signed transaction is added (its rejection would
  panic) and broadcast, the pending transactions are mined, and the block is broadcast. The connection tasks share
  the chain; \<open>in1\<close>, \<open>in2\<close> and \<open>in3\<close> are what their reads return that get the mutex before the transaction is added,
  between this and mining, and after mining. The result holds the payloads sent so far also when mining panics or
  does not end.
\<close>

definition main_demo ::
    "('sk, 'vk, 'sg) crypto \<Rightarrow> bool \<Rightarrow> ('sk \<Rightarrow> bytes) \<Rightarrow> ('peer \<Rightarrow> bool) \<Rightarrow> 'peer list
     \<Rightarrow> bytes option list \<Rightarrow> bytes option list \<Rightarrow> bytes option list \<Rightarrow> u64 \<Rightarrow> u64 \<Rightarrow> 'sk \<Rightarrow> 'sk
     \<Rightarrow> ('peer \<times> bytes) list \<times> Blockchain run option" where
  "main_demo C oc public_key connect peers in1 in2 in3 t0 t1 user1_signing_key user2_signing_key =
     (let user1_addr = hex_encode (public_key user1_signing_key);
          user2_addr = hex_encode (public_key user2_signing_key)
      in case blockchain_new C oc t0 of
           None \<Rightarrow> ([], None)
         | Some Panic \<Rightarrow> ([], Some Panic)
         | Some (Ret genesis) \<Rightarrow>
             (let bc = serve_connections C in1 genesis;
                  tx = tx_sign C user1_signing_key (transaction_new user1_addr user2_addr 0x4059000000000000)
              in case add_transaction C tx bc of
                   Panic \<Rightarrow> ([], Some Panic)
                 | Ret (Inl e) \<Rightarrow> ([], Some Panic)
                 | Ret (Inr bc1) \<Rightarrow>
                     (let sent = broadcast_message C connect peers (NewTransaction tx);
                          bc2 = serve_connections C in2 bc1
                      in case mine_pending_transactions C oc t1 user1_addr bc2 of
                           None \<Rightarrow> (sent, None)
                         | Some Panic \<Rightarrow> (sent, Some Panic)
                         | Some (Ret (bc3, mined_block)) \<Rightarrow>
                             (sent @ broadcast_message C connect peers (NewBlock mined_block),
                              Some (Ret (serve_connections C in3 bc3))))))"

section \<open>The hex round trip\<close>

lemma hex_encode_simps [simp]: "hex_encode [] = []" "hex_encode (b # bs) = hex_byte b @ hex_encode bs"
  by (simp_all add: hex_encode_def)

lemma length_hex_encode [simp]: "length (hex_encode bs) = 2 * length bs"
  by (induction bs) auto

lemma hex_encode_append [simp]: "hex_encode (xs @ ys) = hex_encode xs @ hex_encode ys"
  by (simp add: hex_encode_def)

lemma hex_encode_ascii: "c \<in> set (hex_encode bs) \<Longrightarrow> byte_val c < 128"
  by (induction bs) (auto dest: hex_byte_chars)

lemma hex_slice:
  "str_slice (hex_encode (xs @ b # ys)) (2 * length xs) (2 * length xs + 2) = Ret (hex_byte b)"
proof -
  have "is_char_boundary (hex_encode (xs @ b # ys)) i" if "i \<le> length (hex_encode (xs @ b # ys))" for i
    by (rule ascii_char_boundary [OF hex_encode_ascii that])
  then show ?thesis by (simp add: str_slice_def)
qed

lemma hex_decode_from_encode:
  "hex_decode_from (hex_encode (xs @ ys)) (2 * length xs) = Ret (Some ys)"
proof (induction ys arbitrary: xs)
  case Nil
  show ?case by (subst hex_decode_from.simps) simp
next
  case (Cons b ys)
  from Cons.IH [of "xs @ [b]"] have "hex_decode_from (hex_encode (xs @ b # ys)) (2 * length xs + 2) = Ret (Some ys)"
    by simp
  then show ?case
    by (subst hex_decode_from.simps) (simp add: hex_slice del: hex_encode_append add_2_eq_Suc')
qed

lemma hex_decode_encode [simp]: "hex_decode (hex_encode bs) = Ret (Some bs)"
  using hex_decode_from_encode [of "[]" bs] by (simp add: hex_decode_def)

lemma hex_encode_not_system: "hex_encode bs \<noteq> ''SYSTEM''"
proof
  assume eq: "hex_encode bs = ''SYSTEM''"
  have "hex_decode ''SYSTEM'' = Ret None"
    by code_simp
  with eq hex_decode_encode [of bs] show False by simp
qed

section \<open>Mining\<close>

definition with_nonce :: "('sk, 'vk, 'sg) crypto \<Rightarrow> Block \<Rightarrow> u64 \<Rightarrow> Block" where
  "with_nonce C b n = b\<lparr>nonce := n, hash := block_calculate_hash C (b\<lparr>nonce := n\<rparr>)\<rparr>"

lemma calculate_hash_ignores_hash [simp]:
  "block_calculate_hash C (b\<lparr>hash := h\<rparr>) = block_calculate_hash C b"
  by (simp add: block_calculate_hash_def)

lemma with_nonce_simps [simp]:
  "with_nonce C (with_nonce C b m) n = with_nonce C b n"
  "nonce (with_nonce C b n) = n"
  "previous_hash (with_nonce C b n) = previous_hash b"
  "index (with_nonce C b n) = index b"
  "timestamp (with_nonce C b n) = timestamp b"
  "transactions (with_nonce C b n) = transactions b"
  by (simp_all add: with_nonce_def block_calculate_hash_def)

lemma with_nonce_valid [simp]:
  "block_calculate_hash C (with_nonce C b n) = hash (with_nonce C b n)"
  by (simp add: with_nonce_def block_calculate_hash_def)

lemma with_nonce_self: "hash b = block_calculate_hash C b \<Longrightarrow> with_nonce C b (nonce b) = b"
  by (simp add: with_nonce_def)

lemma block_new_valid [simp]: "hash (block_new C now i txs prev) = block_calculate_hash C (block_new C now i txs prev)"
  by (simp add: block_new_def block_calculate_hash_def Let_def)

lemma block_new_simps [simp]:
  "previous_hash (block_new C now i txs prev) = prev"
  "index (block_new C now i txs prev) = i"
  "transactions (block_new C now i txs prev) = txs"
  "nonce (block_new C now i txs prev) = 0"
  by (simp_all add: block_new_def Let_def)

lemma mine_loop_step:
  "mine_loop C oc target b =
     (if starts_with (hash b) target then Some (Ret b)
      else case add_u64 oc (nonce b) 1 of
          Panic \<Rightarrow> Some Panic
        | Ret n \<Rightarrow> mine_loop C oc target (with_nonce C b n))"
  by (subst mine_loop.simps) (auto simp: with_nonce_def split: run.split)

lemma mine_loop_result:
  assumes "mine_loop C oc target b = Some (Ret b')"
  shows "starts_with (hash b') target \<and> (b' = b \<or> (\<exists>n. b' = with_nonce C b n))"
proof -
  have "\<forall>b'. r = Ret b' \<longrightarrow> starts_with (hash b') target \<and> (b' = b \<or> (\<exists>n. b' = with_nonce C b n))"
    if "mine_loop C oc target b = Some r" for r
    using that
  proof (induction rule: mine_loop.raw_induct [rotated, consumes 1, case_names 1])
    case (1 rec C oc target b r)
    show ?case
    proof (cases "starts_with (hash b) target")
      case False
      show ?thesis
      proof (cases "add_u64 oc (nonce b) 1")
        case (Ret n)
        with False 1(2) have "rec C oc target (with_nonce C b n) = Some r"
          by (simp add: with_nonce_def)
        from 1(1) [OF this] show ?thesis by auto
      qed (use False 1(2) in auto)
    qed (use 1(2) in auto)
  qed
  with assms show ?thesis by blast
qed

text \<open>With a nonce in reach that meets the target, the loop ends at the first such nonce.\<close>

lemma mine_loop_terminates:
  assumes "unat (nonce b) + k < 2 ^ 64"
    and "hash b = block_calculate_hash C b"
    and "starts_with (hash (with_nonce C b (nonce b + of_nat k))) target"
  shows "\<exists>j\<le>k. mine_loop C oc target b = Some (Ret (with_nonce C b (nonce b + of_nat j)))
           \<and> starts_with (hash (with_nonce C b (nonce b + of_nat j))) target
           \<and> (\<forall>i<j. \<not> starts_with (hash (with_nonce C b (nonce b + of_nat i))) target)"
  using assms
proof (induction k arbitrary: b)
  case 0
  then show ?case by (subst mine_loop_step) (simp add: with_nonce_self)
next
  case (Suc k)
  show ?case
  proof (cases "starts_with (hash b) target")
    case True
    with Suc.prems(2) show ?thesis
      by (intro exI [of _ 0]) (simp add: with_nonce_self mine_loop_step [of C oc target b])
  next
    case False
    let ?b = "with_nonce C b (nonce b + 1)"
    from Suc.prems(1) have add: "add_u64 oc (nonce b) 1 = Ret (nonce b + 1)"
      by (intro add_u64_fits) simp
    with False have loop: "mine_loop C oc target b = mine_loop C oc target ?b"
      by (simp add: mine_loop_step [of C oc target b])
    have unat1: "unat (nonce b + 1) = unat (nonce b) + 1"
      using Suc.prems(1) by (intro unat_add_lem [THEN iffD1, THEN trans]) auto
    obtain j where j: "j \<le> k" "mine_loop C oc target ?b = Some (Ret (with_nonce C b (nonce b + of_nat (Suc j))))"
        "starts_with (hash (with_nonce C b (nonce b + of_nat (Suc j)))) target"
        "\<forall>i<j. \<not> starts_with (hash (with_nonce C b (nonce b + of_nat (Suc i)))) target"
      using Suc.IH [of ?b] Suc.prems unat1 by (auto simp: add.assoc add.commute [of "1 :: 64 word"])
    have "\<not> starts_with (hash (with_nonce C b (nonce b + of_nat i))) target" if "i < Suc j" for i
      using that j(4) False Suc.prems(2) by (cases i) (auto simp: with_nonce_self)
    with j loop show ?thesis by (intro exI [of _ "Suc j"]) auto
  qed
qed

section \<open>The chain's invariant\<close>

text \<open>Every block's hash is its own and every block continues its predecessor.\<close>

fun linked :: "string \<Rightarrow> Block list \<Rightarrow> bool" where
  "linked prev [] = True"
| "linked prev (b # bs) = (previous_hash b = prev \<and> linked (hash b) bs)"

definition tx_ok :: "('sk, 'vk, 'sg) crypto \<Rightarrow> Transaction \<Rightarrow> bool" where
  "tx_ok C tx \<longleftrightarrow> (f64_is_nan (amount tx) \<or> f64_positive (amount tx)) \<and> verify_signature C tx = Ret True"

definition chain_ok :: "('sk, 'vk, 'sg) crypto \<Rightarrow> Blockchain \<Rightarrow> bool" where
  "chain_ok C bc \<longleftrightarrow> chain bc \<noteq> [] \<and> linked ''0'' (chain bc)
     \<and> list_all (\<lambda>b. hash b = block_calculate_hash C b) (chain bc)
     \<and> list_all (tx_ok C) (pending_transactions bc)"

lemma linked_snoc:
  "linked prev (bs @ [b]) \<longleftrightarrow> linked prev bs \<and> previous_hash b = (if bs = [] then prev else hash (last bs))"
  by (induction bs arbitrary: prev) auto

lemma chain_ok_extend:
  "chain_ok C bc \<Longrightarrow> previous_hash b = hash (last (chain bc)) \<Longrightarrow> hash b = block_calculate_hash C b \<Longrightarrow>
   chain_ok C (bc\<lparr>chain := chain bc @ [b], pending_transactions := []\<rparr>)"
  by (simp add: chain_ok_def linked_snoc)

lemma chain_ok_pending:
  "chain_ok C bc \<Longrightarrow> tx_ok C tx \<Longrightarrow>
   chain_ok C (bc\<lparr>pending_transactions := pending_transactions bc @ [tx]\<rparr>)"
  by (simp add: chain_ok_def)

lemma mine_new_block:
  assumes "mine C oc d (block_new C now i txs prev) = Some (Ret b)"
  shows "starts_with (hash b) (replicate d CHR ''0'')" "hash b = block_calculate_hash C b"
    "previous_hash b = prev" "index b = i" "transactions b = txs"
  using mine_loop_result [OF assms [unfolded mine_def]] by auto

lemma add_transaction_cases:
  assumes "add_transaction C tx bc = Ret (Inr bc')"
  shows "tx_ok C tx" "bc' = bc\<lparr>pending_transactions := pending_transactions bc @ [tx]\<rparr>"
  using assms by (auto simp: add_transaction_def tx_ok_def bind_run_Ret_iff simp flip: not_le_zero_iff split: if_splits)

lemma add_transaction_outcome:
  "(case add_transaction C tx bc of Ret (Inr bc') \<Rightarrow> bc' | _ \<Rightarrow> bc)
   = bc\<lparr>pending_transactions := pending_transactions bc @ (if tx_ok C tx then [tx] else [])\<rparr>"
  by (cases "verify_signature C tx")
    (auto simp: add_transaction_def tx_ok_def simp flip: not_le_zero_iff split: run.split)

lemma add_block_cases:
  assumes "add_block_from_network C b bc = Ret (Inr bc')"
  shows "chain bc \<noteq> []" "previous_hash b = hash (last (chain bc))" "hash b = block_calculate_hash C b"
    "bc' = bc\<lparr>chain := chain bc @ [b], pending_transactions := []\<rparr>"
  using assms by (auto simp: add_block_from_network_def get_latest_block_def bind_run_Ret_iff split: if_splits)

lemma mine_pending_cases:
  assumes "mine_pending_transactions C oc now miner bc = Some (Ret (bc', b))"
  shows "chain bc \<noteq> []" "previous_hash b = hash (last (chain bc))" "hash b = block_calculate_hash C b"
    "starts_with (hash b) (replicate DIFFICULTY CHR ''0'')"
    "transactions b = transaction_new ''SYSTEM'' miner MINING_REWARD # pending_transactions bc"
    "index b = index (last (chain bc)) + 1"
    "bc' = bc\<lparr>chain := chain bc @ [b], pending_transactions := []\<rparr>"
  using assms
  by (auto simp: mine_pending_transactions_def get_latest_block_def bind_opt_run_Ret
      dest: mine_new_block add_u32_Ret split: if_splits run.splits)

lemma accepted_or_same:
  "bind_run m (\<lambda>r. Ret (case r of Inl e \<Rightarrow> bc | Inr x \<Rightarrow> x)) = Ret bc' \<longleftrightarrow>
   (\<exists>e. m = Ret (Inl e)) \<and> bc' = bc \<or> m = Ret (Inr bc')"
proof (cases m)
  case (Ret r)
  then show ?thesis by (cases r) auto
qed simp

lemma handle_connection_cases:
  assumes "handle_connection C received bc = Ret bc'"
  obtains "bc' = bc"
  | tx where "add_transaction C tx bc = Ret (Inr bc')"
  | b where "add_block_from_network C b bc = Ret (Inr bc')"
  using assms
  by (auto simp: handle_connection_def accepted_or_same split: option.split_asm if_splits Message.split_asm)

lemma add_transaction_ok: "chain_ok C bc \<Longrightarrow> add_transaction C tx bc = Ret (Inr bc') \<Longrightarrow> chain_ok C bc'"
  by (auto dest: add_transaction_cases intro: chain_ok_pending)

lemma add_block_ok: "chain_ok C bc \<Longrightarrow> add_block_from_network C b bc = Ret (Inr bc') \<Longrightarrow> chain_ok C bc'"
  by (auto dest: add_block_cases intro: chain_ok_extend)

lemma genesis_ok: "blockchain_new C oc now = Some (Ret bc) \<Longrightarrow> chain_ok C bc"
  by (auto simp: blockchain_new_def create_genesis_block_def Let_def bind_opt_run_Ret chain_ok_def
      dest: mine_new_block)

inductive_cases node_stepE: "node_step C oc bc bc'"

lemma node_step_ok: "chain_ok C bc \<Longrightarrow> node_step C oc bc bc' \<Longrightarrow> chain_ok C bc'"
  by (auto elim!: node_stepE handle_connection_cases
      intro: add_transaction_ok add_block_ok chain_ok_extend dest: mine_pending_cases)

interpretation node: inv_system "\<lambda>bc. \<exists>now. blockchain_new C oc now = Some (Ret bc)" "node_step C oc" "chain_ok C"
  for C oc
  by unfold_locales (auto intro: genesis_ok node_step_ok)

section \<open>What is relied on of the signature scheme, and an instance\<close>

text \<open>
  The documented behaviour of ed25519 keys and signatures: the public key of a signing key is 32
  bytes that decode to its verifying key, a signature is 64 bytes that decode to it, and a
  signature made with a key verifies under that key.
\<close>

definition ed25519_ok ::
    "('sk, 'vk, 'sg) crypto \<Rightarrow> ('sk \<Rightarrow> 'vk) \<Rightarrow> ('sk \<Rightarrow> bytes) \<Rightarrow> bool" where
  "ed25519_ok C verifying_key public_key \<longleftrightarrow>
     (\<forall>sk. length (public_key sk) = 32 \<and> vk_from_bytes C (public_key sk) = Some (verifying_key sk)) \<and>
     (\<forall>sk m. length (sig_to_bytes C (sk_sign C sk m)) = 64
        \<and> sig_from_bytes C (sig_to_bytes C (sk_sign C sk m)) = Some (sk_sign C sk m)
        \<and> vk_verify C (verifying_key sk) m (sk_sign C sk m))"

text \<open>A concrete instance for the examples: a byte sum for the digest, key and message for the signature.\<close>

definition demo_crypto :: "(bytes, bytes, bytes) crypto" where
  "demo_crypto = \<lparr>
     sha256 = (\<lambda>bs. let n = foldr (+) bs 0 in [push_bit 4 (n AND 3), 0, n] @ replicate 29 0),
     fmt_f64 = (\<lambda>a. if a = 0x4014000000000000 then ''5'' else if a = 0x402E000000000000 then ''15'' else ''100''),
     json_txs = (\<lambda>txs. concat (map sender txs)),
     json_msg = (\<lambda>bs. Some (NewTransaction (transaction_new ''SYSTEM'' ''net'' MINING_REWARD))),
     json_vec = (\<lambda>m. []),
     vk_from_bytes = Some, sig_from_bytes = Some, sig_to_bytes = (\<lambda>sg. sg),
     sk_sign = (\<lambda>sk m. to_array 32 sk @ to_array 32 m),
     vk_verify = (\<lambda>vk m sg. sg = vk @ to_array 32 m)\<rparr>"

lemma demo_crypto_ok: "ed25519_ok demo_crypto (to_array 32) (to_array 32)"
  by (simp add: ed25519_ok_def demo_crypto_def to_array_def)

section \<open>Properties\<close>

lemma verify_signed:
  assumes "ed25519_ok C verifying_key public_key"
  shows "verify_signature C (tx_sign C sk (transaction_new (hex_encode (public_key sk)) r a)) = Ret True"
  using assms
  by (simp add: ed25519_ok_def verify_signature_def tx_sign_def transaction_new_def hex_encode_not_system
      to_array_def tx_calculate_hash_def)

lemma add_signed:
  assumes "ed25519_ok C verifying_key public_key" and "\<not> f64_le_zero a"
  shows "add_transaction C (tx_sign C sk (transaction_new (hex_encode (public_key sk)) r a)) bc
     = Ret (Inr (bc\<lparr>pending_transactions := pending_transactions bc
              @ [tx_sign C sk (transaction_new (hex_encode (public_key sk)) r a)]\<rparr>))"
  using assms by (simp add: add_transaction_def verify_signed)
    (simp add: tx_sign_def transaction_new_def Let_def)

lemma mine_new_terminates:
  assumes "k < 2 ^ 64"
    and "starts_with (hash (with_nonce C (block_new C now i txs prev) (of_nat k))) (replicate d CHR ''0'')"
  obtains b where "mine C oc d (block_new C now i txs prev) = Some (Ret b)"
  using mine_loop_terminates [of "block_new C now i txs prev" k C "replicate d CHR ''0''" oc] assms
  by (auto simp: mine_def)

text \<open>
  C3: In every state a node reaches from a fresh chain, through local transactions, local mining and
  whatever arrives from the network in whatever order, the chain is not empty, every block stores the hash
  computed from its own fields, the first block's predecessor is "0" and every other block's previous hash
  is the hash of the block before it; and every pending transaction passed the signature check and has an
  amount that is positive or NaN (the comparison with 0.0 lets NaN pass).\<close>

theorem node_chain_invariant:
  assumes "blockchain_new C oc now = Some (Ret bc0)"
    and "(node_step C oc)\<^sup>*\<^sup>* bc0 bc"
  shows "chain_ok C bc"
proof -
  from assms(1) have "\<exists>now. blockchain_new C oc now = Some (Ret bc0)" ..
  from node.inv_reachable [OF this assms(2)] show ?thesis .
qed

theorem node_chain_invariant_witness:
  "\<exists>bc0 bc. blockchain_new demo_crypto True 7 = Some (Ret bc0) \<and> (node_step demo_crypto True)\<^sup>*\<^sup>* bc0 bc
     \<and> length (pending_transactions bc) = 1 \<and> chain_ok demo_crypto bc"
proof -
  have "case blockchain_new demo_crypto True 7 of
      Some (Ret bc) \<Rightarrow> length (chain bc) = 1 \<and> length (pending_transactions bc) = 0 | _ \<Rightarrow> False"
    by code_simp
  then obtain bc1 where bc1: "blockchain_new demo_crypto True 7 = Some (Ret bc1)"
      "length (chain bc1) = 1" "pending_transactions bc1 = []"
    by (auto split: option.splits run.splits)
  then obtain b0 where "bc1 = \<lparr>chain = [b0], pending_transactions = []\<rparr>"
    by (cases bc1) (auto simp: length_Suc_conv)
  with bc1 have b0: "blockchain_new demo_crypto True 7 = Some (Ret \<lparr>chain = [b0], pending_transactions = []\<rparr>)"
    by simp
  let ?bc = "\<lparr>chain = [b0], pending_transactions = [transaction_new ''SYSTEM'' ''net'' MINING_REWARD]\<rparr>"
  have "handle_connection demo_crypto (Some [1]) \<lparr>chain = [b0], pending_transactions = []\<rparr> = Ret ?bc"
    by code_simp
  then have "node_step demo_crypto True \<lparr>chain = [b0], pending_transactions = []\<rparr> ?bc"
    by (rule network) simp
  then have step: "(node_step demo_crypto True)\<^sup>*\<^sup>* \<lparr>chain = [b0], pending_transactions = []\<rparr> ?bc" ..
  from b0 step node_chain_invariant [OF b0 step] show ?thesis by auto
qed

text \<open>
  C12: Mining terminates when a nonce that meets the target exists before the end of the 64-bit range: the
  loop returns, without a panic, the block with the first such nonce counted from its current one, whose
  hash is recomputed and starts with the required zeros; nothing else of the block changes.\<close>

theorem mine_finds_first_nonce:
  assumes "hash b = block_calculate_hash C b"
    and "unat (nonce b) + k < 2 ^ 64"
    and "starts_with (hash (with_nonce C b (nonce b + of_nat k))) (replicate d CHR ''0'')"
  shows "\<exists>j\<le>k. mine C oc d b = Some (Ret (with_nonce C b (nonce b + of_nat j)))
     \<and> starts_with (hash (with_nonce C b (nonce b + of_nat j))) (replicate d CHR ''0'')
     \<and> (\<forall>i<j. \<not> starts_with (hash (with_nonce C b (nonce b + of_nat i))) (replicate d CHR ''0''))"
  using mine_loop_terminates [OF assms(2,1,3)] unfolding mine_def by blast

definition demo_block :: Block where
  "demo_block = block_new demo_crypto 7 2 [] ''0''"

theorem mine_finds_first_nonce_witness:
  "\<exists>j\<le>7. mine demo_crypto True 1 demo_block = Some (Ret (with_nonce demo_crypto demo_block (nonce demo_block + of_nat j)))
     \<and> starts_with (hash (with_nonce demo_crypto demo_block (nonce demo_block + of_nat j))) (replicate 1 CHR ''0'')
     \<and> (\<forall>i<j. \<not> starts_with (hash (with_nonce demo_crypto demo_block (nonce demo_block + of_nat i))) (replicate 1 CHR ''0''))"
proof (rule mine_finds_first_nonce)
  show "hash demo_block = block_calculate_hash demo_crypto demo_block" by code_simp
  show "unat (nonce demo_block) + 7 < 2 ^ 64" by (simp add: demo_block_def)
  show "starts_with (hash (with_nonce demo_crypto demo_block (nonce demo_block + of_nat 7))) (replicate 1 CHR ''0'')"
    by code_simp
qed

text \<open>
  C28: A transaction signed with the key whose hexadecimal public key is its sender is accepted whenever its
  amount is not zero, negative or below: it is appended to the pending transactions, and nothing else of the
  chain changes. (The hexadecimal encoding of the key decodes back to it.)\<close>

theorem signed_transaction_accepted:
  assumes "ed25519_ok C verifying_key public_key" and "\<not> f64_le_zero a"
  shows "add_transaction C (tx_sign C sk (transaction_new (hex_encode (public_key sk)) r a)) bc
     = Ret (Inr (bc\<lparr>pending_transactions := pending_transactions bc
              @ [tx_sign C sk (transaction_new (hex_encode (public_key sk)) r a)]\<rparr>))"
  by (rule add_signed [OF assms])

theorem signed_transaction_accepted_witness:
  "add_transaction demo_crypto
       (tx_sign demo_crypto [1, 2] (transaction_new (hex_encode (to_array 32 [1, 2])) ''bob'' 0x4014000000000000))
       \<lparr>chain = [], pending_transactions = []\<rparr>
     = Ret (Inr \<lparr>chain = [], pending_transactions =
         [tx_sign demo_crypto [1, 2] (transaction_new (hex_encode (to_array 32 [1, 2])) ''bob'' 0x4014000000000000)]\<rparr>)"
  using signed_transaction_accepted [OF demo_crypto_ok, of "0x4014000000000000" "[1, 2]" "''bob''"
      "\<lparr>chain = [], pending_transactions = []\<rparr>"]
  by (simp add: f64_le_zero_def f64_is_nan_def) 

text \<open>
  Locally mined blocks carry proof of work: a block that mine_pending_transactions returns has a hash
  with DIFFICULTY leading zeros, is appended to the chain as the successor of the last block, holds the
  miner's reward followed by exactly the pending transactions in order, and the pending list is empty after.\<close>

lemma mined_block_contents:
  assumes "mine_pending_transactions C oc now miner bc = Some (Ret (bc', b))"
  shows "starts_with (hash b) ''0000'' \<and> hash b = block_calculate_hash C b
     \<and> previous_hash b = hash (last (chain bc)) \<and> index b = index (last (chain bc)) + 1
     \<and> transactions b = transaction_new ''SYSTEM'' miner MINING_REWARD # pending_transactions bc
     \<and> bc' = bc\<lparr>chain := chain bc @ [b], pending_transactions := []\<rparr>"
  using mine_pending_cases [OF assms] by (simp add: DIFFICULTY_def numeral_eq_Suc)

lemma mined_block_contents_example:
  "\<exists>b bc'. mine_pending_transactions demo_crypto True 9 ''miner'' \<lparr>chain = [demo_block], pending_transactions = []\<rparr>
       = Some (Ret (bc', b)) \<and> starts_with (hash b) ''0000'' \<and> previous_hash b = hash demo_block"
proof -
  have "case mine_pending_transactions demo_crypto True 9 ''miner'' \<lparr>chain = [demo_block], pending_transactions = []\<rparr>
      of Some (Ret r) \<Rightarrow> True | _ \<Rightarrow> False"
    by code_simp
  then obtain bc' b where m: "mine_pending_transactions demo_crypto True 9 ''miner''
      \<lparr>chain = [demo_block], pending_transactions = []\<rparr> = Some (Ret (bc', b))"
    by (auto split: option.splits run.splits)
  from m mined_block_contents [OF m] show ?thesis by auto
qed

section \<open>Incoming connections of the demonstration\<close>

text \<open>What a connection brings: a block, or a transaction that is accepted.\<close>

definition carries_block :: "('sk, 'vk, 'sg) crypto \<Rightarrow> bytes option \<Rightarrow> bool" where
  "carries_block C received \<longleftrightarrow>
     (case received of
        Some buffer \<Rightarrow> (case json_msg C buffer of Some (NewBlock b) \<Rightarrow> True | _ \<Rightarrow> False)
      | None \<Rightarrow> False)"

definition accepted_tx :: "('sk, 'vk, 'sg) crypto \<Rightarrow> bytes option \<Rightarrow> Transaction list" where
  "accepted_tx C received =
     (case received of
        Some buffer \<Rightarrow>
          (case (buffer, json_msg C buffer) of
             (_ # _, Some (NewTransaction tx)) \<Rightarrow> if tx_ok C tx then [tx] else []
           | _ \<Rightarrow> [])
      | None \<Rightarrow> [])"

abbreviation accepted_txs :: "('sk, 'vk, 'sg) crypto \<Rightarrow> bytes option list \<Rightarrow> Transaction list" where
  "accepted_txs C received \<equiv> concat (map (accepted_tx C) received)"

lemma serve_connections_simps [simp]:
  "serve_connections C [] bc = bc"
  "serve_connections C (r # rs) bc = serve_connections C rs (serve_connection C r bc)"
  by (simp_all add: serve_connections_def)

lemma serve_connection_no_block:
  assumes "\<not> carries_block C r"
  shows "serve_connection C r bc = bc\<lparr>pending_transactions := pending_transactions bc @ accepted_tx C r\<rparr>"
proof -
  have "(case bind_run (add_transaction C tx bc) (\<lambda>r. Ret (case r of Inl e \<Rightarrow> bc | Inr x \<Rightarrow> x)) of Ret x \<Rightarrow> x | Panic \<Rightarrow> bc)
      = bc\<lparr>pending_transactions := pending_transactions bc @ (if tx_ok C tx then [tx] else [])\<rparr>" for tx
    unfolding add_transaction_outcome [symmetric] by (auto simp: bind_run_def split: run.split sum.split)
  with assms show ?thesis
    by (auto simp: serve_connection_def handle_connection_def carries_block_def accepted_tx_def
        split: option.splits list.splits Message.splits)
qed

lemma serve_connections_no_block:
  "list_all (\<lambda>r. \<not> carries_block C r) rs \<Longrightarrow>
   serve_connections C rs bc = bc\<lparr>pending_transactions := pending_transactions bc @ accepted_txs C rs\<rparr>"
  by (induction rs arbitrary: bc) (simp_all add: serve_connection_no_block)

text \<open>
  C18: The demonstration in main runs to its end as long as no connection brings a block: if the signature scheme
  works and every block has some nonce that meets the target, then, whatever else the connections of the listener
  bring before the transaction is added, between this and mining, and after mining, the sequence (create the chain,
  sign and add a transaction, broadcast it, mine, broadcast the block) neither panics nor loops. The chain ends with
  two blocks, the second one holding the reward, then the valid transactions received before, the signed transaction,
  and the valid ones received until mining, in this order; those received later stay pending. Every reachable peer
  was sent exactly the transaction and then the block.\<close>

theorem main_demo_completes:
  assumes "ed25519_ok C verifying_key public_key"
    and "\<And>b. \<exists>k < 2 ^ 64. starts_with (hash (with_nonce C b (of_nat k))) ''0000''"
    and "list_all (\<lambda>r. \<not> carries_block C r) (in1 @ in2 @ in3)"
  shows "\<exists>tx b0 b1. main_demo C oc public_key connect peers in1 in2 in3 t0 t1 sk1 sk2
        = (map (\<lambda>p. (p, json_vec C (NewTransaction tx))) (filter connect peers)
             @ map (\<lambda>p. (p, json_vec C (NewBlock b1))) (filter connect peers),
           Some (Ret \<lparr>chain = [b0, b1], pending_transactions = accepted_txs C in3\<rparr>))
     \<and> tx = tx_sign C sk1 (transaction_new (hex_encode (public_key sk1)) (hex_encode (public_key sk2)) 0x4059000000000000)
     \<and> previous_hash b1 = hash b0 \<and> starts_with (hash b1) ''0000'' \<and> hash b1 = block_calculate_hash C b1
     \<and> transactions b1 = transaction_new ''SYSTEM'' (hex_encode (public_key sk1)) MINING_REWARD
         # accepted_txs C in1 @ [tx] @ accepted_txs C in2"
proof -
  have four: "replicate DIFFICULTY CHR ''0'' = ''0000''"
    by (simp add: DIFFICULTY_def numeral_eq_Suc)
  have mines: "\<exists>b. mine C oc DIFFICULTY (block_new C now i txs prev) = Some (Ret b)" for now i txs prev
    using assms(2) [of "block_new C now i txs prev"] mine_new_terminates [of _ C now i txs prev DIFFICULTY oc]
    by (metis four)
  let ?tx = "tx_sign C sk1 (transaction_new (hex_encode (public_key sk1)) (hex_encode (public_key sk2)) 0x4059000000000000)"
  obtain b0 where b0: "mine C oc DIFFICULTY (block_new C t0 0
      [transaction_new ''SYSTEM'' ''Genesis_Receiver'' GENESIS_AMOUNT] ''0'') = Some (Ret b0)"
    using mines by blast
  have idx: "add_u32 oc (index b0) 1 = Ret 1"
    using mine_new_block(4) [OF b0] by (simp add: add_u32_fits)
  obtain b1 where b1: "mine C oc DIFFICULTY (block_new C t1 1
      (transaction_new ''SYSTEM'' (hex_encode (public_key sk1)) MINING_REWARD
        # accepted_txs C in1 @ ?tx # accepted_txs C in2) (hash b0)) = Some (Ret b1)"
    using mines by blast
  have "\<not> f64_le_zero 0x4059000000000000"
    by code_simp
  note add = add_signed [OF assms(1) this]
  have serve: "serve_connections C rs bc = bc\<lparr>pending_transactions := pending_transactions bc @ accepted_txs C rs\<rparr>"
    if "rs \<in> {in1, in2, in3}" for rs bc
    using that assms(3) by (intro serve_connections_no_block) auto
  show ?thesis
    using mine_new_block [OF b1]
    by (simp add: main_demo_def blockchain_new_def create_genesis_block_def b0 bind_opt_run_def add serve
        mine_pending_transactions_def get_latest_block_def idx b1 broadcast_message_def four)
qed

definition zero_crypto :: "(bytes, bytes, bytes) crypto" where
  "zero_crypto = demo_crypto\<lparr>sha256 := \<lambda>bs. replicate 32 0\<rparr>"

lemma zero_crypto_ok: "ed25519_ok zero_crypto (to_array 32) (to_array 32)"
  by (simp add: ed25519_ok_def demo_crypto_def zero_crypto_def to_array_def)

lemma zero_crypto_hash: "starts_with (hash (with_nonce zero_crypto b n)) ''0000''"
proof -
  have "hash (with_nonce zero_crypto b n) = hex_encode (replicate 32 0)"
    by (simp add: with_nonce_def block_calculate_hash_def zero_crypto_def)
  moreover have "starts_with (hex_encode (replicate 32 0)) ''0000''"
    by code_simp
  ultimately show ?thesis by simp
qed

definition net_reward :: Transaction where
  "net_reward = transaction_new ''SYSTEM'' ''net'' MINING_REWARD"

lemma zero_accepted: "accepted_tx zero_crypto (Some [1]) = [net_reward]" "\<not> carries_block zero_crypto (Some [1])"
  "accepted_tx zero_crypto None = []" "\<not> carries_block zero_crypto None"
  by code_simp+

theorem main_demo_completes_witness:
  "\<exists>sends tx b0 b1. main_demo zero_crypto True (to_array 32) (\<lambda>p. p = 8081) [8081 :: nat]
       [] [Some [1], None] [Some [1]] 5 6 [1] [2]
     = (sends, Some (Ret \<lparr>chain = [b0, b1], pending_transactions = [net_reward]\<rparr>))
     \<and> length sends = 2 \<and> previous_hash b1 = hash b0 \<and> tl (transactions b1) = [tx, net_reward]"
proof -
  have "\<exists>k < 2 ^ 64. starts_with (hash (with_nonce zero_crypto b (of_nat k))) ''0000''" for b
    by (rule exI [of _ 0]) (simp add: zero_crypto_hash)
  moreover have "list_all (\<lambda>r. \<not> carries_block zero_crypto r) ([] @ [Some [1], None] @ [Some [1]])"
    by (simp add: zero_accepted)
  ultimately obtain tx b0 b1 where "main_demo zero_crypto True (to_array 32) (\<lambda>p. p = 8081) [8081 :: nat]
       [] [Some [1], None] [Some [1]] 5 6 [1] [2]
     = ([(8081, json_vec zero_crypto (NewTransaction tx)), (8081, json_vec zero_crypto (NewBlock b1))],
        Some (Ret \<lparr>chain = [b0, b1], pending_transactions = [net_reward]\<rparr>))"
      "previous_hash b1 = hash b0" "tl (transactions b1) = [tx, net_reward]"
    using main_demo_completes [OF zero_crypto_ok, of "[]" "[Some [1], None]" "[Some [1]]" True "\<lambda>p. p = 8081"
        "[8081 :: nat]" 5 6 "[1]" "[2]"]
    by (auto simp: zero_accepted)
  then show ?thesis
    by (intro exI [of _ "[(8081, json_vec zero_crypto (NewTransaction tx)), (8081, json_vec zero_crypto (NewBlock b1))]"]
        exI [of _ tx] exI [of _ b0] exI [of _ b1]) simp
qed

text \<open>
  A block that arrives between adding the transaction and mining discards the transaction: the node goes on and
  mines a block on top of the received one that holds the reward only.\<close>

lemma incoming_block_discards:
  assumes "json_msg C buffer = Some (NewBlock b)" and "buffer \<noteq> []" and "chain bc \<noteq> []"
    and "previous_hash b = hash (last (chain bc))" and "hash b = block_calculate_hash C b"
    and "mine_pending_transactions C oc now miner (serve_connections C [Some buffer] bc) = Some (Ret (bc', b'))"
  shows "chain bc' = chain bc @ [b, b'] \<and> transactions b' = [transaction_new ''SYSTEM'' miner MINING_REWARD]"
proof -
  have "serve_connections C [Some buffer] bc = bc\<lparr>chain := chain bc @ [b], pending_transactions := []\<rparr>"
    using assms(1-5) by (simp add: serve_connection_def handle_connection_def add_block_from_network_def get_latest_block_def)
  with mine_pending_cases(5,7) [OF assms(6)] show ?thesis by simp
qed

text \<open>An amount that is not a number is not zero or less, so a transaction of \<^verbatim>\<open>SYSTEM\<close> with it is accepted.\<close>

lemma nan_amount_accepted:
  assumes "f64_is_nan a"
  shows "add_transaction C (transaction_new ''SYSTEM'' r a) bc
     = Ret (Inr (bc\<lparr>pending_transactions := pending_transactions bc @ [transaction_new ''SYSTEM'' r a]\<rparr>))"
  using assms by (simp add: add_transaction_def transaction_new_def f64_le_zero_def verify_signature_def)

text \<open>
  A node accepts any block a peer builds with Block::new on its last hash: no proof of work is asked
  for, and the index, the timestamp and the transactions (their signatures, amounts and rewards) are not
  looked at; the pending transactions of the node are discarded.\<close>

lemma unmined_block_accepted:
  assumes "chain bc \<noteq> []"
  shows "add_block_from_network C (block_new C now i txs (hash (last (chain bc)))) bc
     = Ret (Inr (bc\<lparr>chain := chain bc @ [block_new C now i txs (hash (last (chain bc)))],
                    pending_transactions := []\<rparr>))"
  using assms by (simp add: add_block_from_network_def get_latest_block_def)

lemma unmined_block_accepted_example:
  "add_block_from_network demo_crypto (block_new demo_crypto 9 78 [] (hash demo_block))
       \<lparr>chain = [demo_block], pending_transactions = []\<rparr>
     = Ret (Inr \<lparr>chain = [demo_block, block_new demo_crypto 9 78 [] (hash demo_block)], pending_transactions = []\<rparr>)
   \<and> \<not> starts_with (hash (block_new demo_crypto 9 78 [] (hash demo_block))) ''0000''"
proof
  show "\<not> starts_with (hash (block_new demo_crypto 9 78 [] (hash demo_block))) ''0000''"
    by code_simp
qed (use unmined_block_accepted [of "\<lparr>chain = [demo_block], pending_transactions = []\<rparr>" demo_crypto 9 78 "[]"] in simp)

text \<open>
  A signed network transaction whose sender is an odd number of hexadecimal digits makes the handler
  panic instead of returning an error: the slice of the last digit pair runs past the end of the string.\<close>

lemma odd_sender_panics:
  assumes "\<not> f64_le_zero a" and "byte_val c < 128"
    and "json_msg C buf = Some (NewTransaction
           \<lparr>sender = hex_encode bs @ [c], receiver = r, amount = a, signature = Some sg\<rparr>)"
    and "buf \<noteq> []"
  shows "handle_connection C (Some buf) bc = Panic"
proof -
  have "hex_decode_from (hex_encode (xs @ ys) @ [c]) (2 * length xs) = Panic" for xs ys
  proof (induction ys arbitrary: xs)
    case Nil
    show ?case by (subst hex_decode_from.simps) (simp add: str_slice_def)
  next
    case (Cons b ys)
    let ?s = "hex_encode (xs @ b # ys) @ [c]"
    have "is_char_boundary ?s i" if "i \<le> length ?s" for i
      using that assms(2) by (intro ascii_char_boundary) (auto dest: hex_encode_ascii hex_byte_chars)
    then have "str_slice ?s (2 * length xs) (2 * length xs + 2) = Ret (hex_byte b)"
      by (simp add: str_slice_def)
    moreover have "hex_decode_from ?s (2 * length xs + 2) = Panic"
      using Cons.IH [of "xs @ [b]"] by simp
    ultimately show ?case
      by (subst hex_decode_from.simps) (simp del: add_2_eq_Suc')
  qed
  from this [of "[]" bs] have "hex_decode (hex_encode bs @ [c]) = Panic"
    by (simp add: hex_decode_def)
  moreover have "hex_encode bs @ [c] \<noteq> ''SYSTEM''"
  proof
    assume "hex_encode bs @ [c] = ''SYSTEM''"
    from arg_cong [OF this, of length] show False by simp presburger
  qed
  ultimately show ?thesis
    using assms(1,3,4) by (simp add: handle_connection_def add_transaction_def verify_signature_def)
qed

lemma odd_sender_panics_example:
  "handle_connection (demo_crypto\<lparr>json_msg := \<lambda>_. Some (NewTransaction
       \<lparr>sender = ''0ab'', receiver = ''bob'', amount = 0x4014000000000000, signature = Some []\<rparr>)\<rparr>) (Some [1])
     \<lparr>chain = [demo_block], pending_transactions = []\<rparr> = Panic"
proof (rule odd_sender_panics)
  show "\<not> f64_le_zero 0x4014000000000000" by code_simp
  show "byte_val CHR ''b'' < 128" by code_simp
  have "''0ab'' = hex_encode [10] @ ''b''" by code_simp
  then show "json_msg (demo_crypto\<lparr>json_msg := \<lambda>_. Some (NewTransaction
       \<lparr>sender = ''0ab'', receiver = ''bob'', amount = 0x4014000000000000, signature = Some []\<rparr>)\<rparr>) [1]
     = Some (NewTransaction \<lparr>sender = hex_encode [10] @ [CHR ''b''], receiver = ''bob'',
         amount = 0x4014000000000000, signature = Some []\<rparr>)"
    by simp
qed simp

text \<open>
  The signed digest does not separate receiver and amount: whenever the two concatenations agree, a
  signature for one (receiver, amount) verifies exactly when it verifies for the other.\<close>

lemma signature_not_binding:
  assumes "receiver tx @ fmt_f64 C (amount tx) = r @ fmt_f64 C a"
  shows "verify_signature C (tx\<lparr>receiver := r, amount := a\<rparr>) = verify_signature C tx"
proof -
  have "tx_calculate_hash C (tx\<lparr>receiver := r, amount := a\<rparr>) = tx_calculate_hash C tx"
    using assms by (simp add: tx_calculate_hash_def)
  then show ?thesis by (cases "signature tx") (simp_all add: verify_signature_def cong: option.case_cong)
qed

lemma signature_not_binding_example:
  "verify_signature demo_crypto
       (tx_sign demo_crypto [1] (transaction_new (hex_encode (to_array 32 [1])) ''account1'' 0x4014000000000000)
          \<lparr>receiver := ''account'', amount := 0x402E000000000000\<rparr>)
     = verify_signature demo_crypto
       (tx_sign demo_crypto [1] (transaction_new (hex_encode (to_array 32 [1])) ''account1'' 0x4014000000000000))"
  by (rule signature_not_binding) code_simp

end
