(* ===== verification/Dlp_Analyzer.thy ===== *)
theory Dlp_Analyzer
  imports Rust_Text "HOL-Library.Multiset"
begin

text \<open>
  The content analysis engine (\<^verbatim>\<open>dlp/dlp_analyzer/src/main.rs\<close>): signature rules with the Luhn
  check for card numbers, dictionary rules, the score and the parallel driver.

  A compiled regular expression is a parameter: \<open>find_iter re text\<close> is the list of its matches.
  \<^verbatim>\<open>str::to_lowercase\<close> rests on the Unicode tables and is the parameter \<open>lower\<close>; what is used of it
  is its behaviour on ASCII text. A HashMap is the list of its entries in iteration order, which is
  unspecified: the lemmas hold for every order.
\<close>

section \<open>Data\<close>

datatype LeakType = Passport | CreditCard | ConfidentialKeyword | SourceCode

datatype Severity = Low | Medium | High | Critical

text \<open>The derived order: the levels in the order of their declaration.\<close>

primrec level :: "Severity \<Rightarrow> nat" where
  "level Low = 0"
| "level Medium = 1"
| "level High = 2"
| "level Critical = 3"

lemma level_inject: "level x = level y \<longleftrightarrow> x = y"
  by (cases x; cases y) simp_all

instantiation Severity :: linorder
begin

definition less_eq_Severity :: "Severity \<Rightarrow> Severity \<Rightarrow> bool" where
  "x \<le> y \<longleftrightarrow> level x \<le> level y"

definition less_Severity :: "Severity \<Rightarrow> Severity \<Rightarrow> bool" where
  "x < y \<longleftrightarrow> level x < level y"

instance
  by standard (auto simp: less_eq_Severity_def less_Severity_def level_inject)

end

record Detection =
  leak_type :: LeakType
  matched_text :: string
  score_impact :: u32

record AnalysisResult =
  is_violation :: bool
  total_score :: u32
  severity :: Severity
  detections :: "Detection list"

datatype 'regex Rule = Signature 'regex LeakType u32 | Dictionary "(string \<times> u32) list" LeakType

record 'regex DlpEngine =
  rules :: "'regex Rule list"
  threshold :: u32

definition engine_new :: "u32 \<Rightarrow> 'regex DlpEngine" where
  "engine_new t = \<lparr>rules = [], threshold = t\<rparr>"

definition add_rule :: "'regex Rule \<Rightarrow> 'regex DlpEngine \<Rightarrow> 'regex DlpEngine" where
  "add_rule r e = e\<lparr>rules := rules e @ [r]\<rparr>"

section \<open>The Luhn check\<close>

definition card_digits :: "string \<Rightarrow> nat list" where
  "card_digits s = List.map_filter to_digit10 (filter is_ascii_digit s)"

definition luhn_term :: "nat \<Rightarrow> nat \<Rightarrow> nat" where
  "luhn_term idx digit =
     (if idx mod 2 = 1 then let d = digit * 2 in if d > 9 then d - 9 else d else digit)"

definition luhn_sum :: "nat list \<Rightarrow> nat" where
  "luhn_sum digits = sum_list (map (\<lambda>(idx, digit). luhn_term idx digit) (List.enumerate 0 (rev digits)))"

definition validate_luhn :: "string \<Rightarrow> bool" where
  "validate_luhn card_number =
     (let digits = card_digits card_number
      in if length digits < 13 \<or> length digits > 19 then False
         else luhn_sum digits mod 10 = 0)"

section \<open>Analysis\<close>

text \<open>\<^verbatim>\<open>str::find\<close>: the first position at which the needle occurs.\<close>

fun str_find :: "string \<Rightarrow> string \<Rightarrow> nat option" where
  "str_find [] p = (if p = [] then Some 0 else None)"
| "str_find (c # cs) p = (if starts_with (c # cs) p then Some 0 else map_option Suc (str_find cs p))"

type_synonym acc = "Detection list \<times> u32"

definition add_detection :: "bool \<Rightarrow> LeakType \<Rightarrow> string \<Rightarrow> u32 \<Rightarrow> acc \<Rightarrow> acc run" where
  "add_detection oc lt m score a =
     bind_run (add_u32 oc (snd a) score)
       (\<lambda>tot. Ret (fst a @ [\<lparr>leak_type = lt, matched_text = m, score_impact = score\<rparr>], tot))"

text \<open>One signature rule: the loop over its matches.\<close>

fun signature_loop :: "bool \<Rightarrow> LeakType \<Rightarrow> u32 \<Rightarrow> string list \<Rightarrow> acc \<Rightarrow> acc run" where
  "signature_loop oc lt score [] a = Ret a"
| "signature_loop oc lt score (m # ms) a =
     (if lt = CreditCard \<and> \<not> validate_luhn m then signature_loop oc lt score ms a
      else bind_run (add_detection oc lt m score a) (signature_loop oc lt score ms))"

text \<open>
  One keyword: the loop that searches on in the lower-case text and cuts the match out of the
  original text at the same positions. \<^const>\<open>None\<close> is the loop that runs forever.
\<close>

partial_function (option) word_loop ::
    "(string \<Rightarrow> string) \<Rightarrow> bool \<Rightarrow> LeakType \<Rightarrow> string \<Rightarrow> string \<Rightarrow> string \<Rightarrow> u32 \<Rightarrow> nat \<Rightarrow> acc \<Rightarrow> acc run option" where
  "word_loop lower oc lt text lower_text word score pos a =
     (case str_slice lower_text pos (length lower_text) of
        Panic \<Rightarrow> Some Panic
      | Ret rest \<Rightarrow>
          (case str_find rest (lower word) of
             None \<Rightarrow> Some (Ret a)
           | Some index \<Rightarrow>
               (case str_slice text (pos + index) (pos + index + length word) of
                  Panic \<Rightarrow> Some Panic
                | Ret exact_match \<Rightarrow>
                    (case add_detection oc lt exact_match score a of
                       Panic \<Rightarrow> Some Panic
                     | Ret a' \<Rightarrow>
                         word_loop lower oc lt text lower_text word score (pos + (index + length word)) a'))))"

declare word_loop.simps [code]

fun dictionary_loop ::
    "(string \<Rightarrow> string) \<Rightarrow> bool \<Rightarrow> LeakType \<Rightarrow> string \<Rightarrow> string \<Rightarrow> (string \<times> u32) list \<Rightarrow> acc \<Rightarrow> acc run option" where
  "dictionary_loop lower oc lt text lower_text [] a = Some (Ret a)"
| "dictionary_loop lower oc lt text lower_text ((word, score) # d) a =
     bind_opt_run (word_loop lower oc lt text lower_text word score 0 a)
       (dictionary_loop lower oc lt text lower_text d)"

fun rules_loop ::
    "('regex \<Rightarrow> string \<Rightarrow> string list) \<Rightarrow> (string \<Rightarrow> string) \<Rightarrow> bool \<Rightarrow> string \<Rightarrow> 'regex Rule list \<Rightarrow> acc
     \<Rightarrow> acc run option" where
  "rules_loop find_iter lower oc text [] a = Some (Ret a)"
| "rules_loop find_iter lower oc text (Signature re lt score # rs) a =
     bind_opt_run (Some (signature_loop oc lt score (find_iter re text) a)) (rules_loop find_iter lower oc text rs)"
| "rules_loop find_iter lower oc text (Dictionary dict lt # rs) a =
     bind_opt_run (dictionary_loop lower oc lt text (lower text) dict a) (rules_loop find_iter lower oc text rs)"

definition severity_of :: "u32 \<Rightarrow> Severity" where
  "severity_of tot =
     (if tot = 0 then Low else if 1 \<le> tot \<and> tot \<le> 10 then Medium
      else if 11 \<le> tot \<and> tot \<le> 30 then High else Critical)"

definition analyze ::
    "('regex \<Rightarrow> string \<Rightarrow> string list) \<Rightarrow> (string \<Rightarrow> string) \<Rightarrow> bool \<Rightarrow> 'regex DlpEngine \<Rightarrow> string
     \<Rightarrow> AnalysisResult run option" where
  "analyze find_iter lower oc e text =
     bind_opt_run (rules_loop find_iter lower oc text (rules e) ([], 0))
       (\<lambda>(dets, tot). Some (Ret \<lparr>is_violation = threshold e \<le> tot, total_score = tot,
                                   severity = severity_of tot, detections = dets\<rparr>))"

text \<open>
  The threads are joined in the order of the documents; a thread that panicked makes the join's
  \<^verbatim>\<open>unwrap\<close> panic, one that never ends is waited for.
\<close>

fun join_all :: "'a run option list \<Rightarrow> 'a list run option" where
  "join_all [] = Some (Ret [])"
| "join_all (h # hs) = bind_opt_run h (\<lambda>r. bind_opt_run (join_all hs) (\<lambda>rs. Some (Ret (r # rs))))"

definition analyze_parallel ::
    "('regex \<Rightarrow> string \<Rightarrow> string list) \<Rightarrow> (string \<Rightarrow> string) \<Rightarrow> bool \<Rightarrow> 'regex DlpEngine \<Rightarrow> string list
     \<Rightarrow> AnalysisResult list run option" where
  "analyze_parallel find_iter lower oc e documents = join_all (map (analyze find_iter lower oc e) documents)"

text \<open>The engine \<^verbatim>\<open>main\<close> sets up; \<open>cc_regex\<close> and \<open>passport_regex\<close> are the compiled expressions.\<close>

definition main_engine :: "'regex \<Rightarrow> 'regex \<Rightarrow> (string \<times> u32) list \<Rightarrow> 'regex DlpEngine" where
  "main_engine cc_regex passport_regex keywords =
     add_rule (Dictionary keywords ConfidentialKeyword)
       (add_rule (Signature passport_regex Passport 25)
         (add_rule (Signature cc_regex CreditCard 15) (engine_new 20)))"

definition main_keywords :: "(string \<times> u32) list" where
  "main_keywords = [(''trade secret'', 10), (''NDA'', 5), (''private key'', 15)]"

section \<open>What is relied on of \<open>to_lowercase\<close>\<close>

definition is_ascii :: "string \<Rightarrow> bool" where
  "is_ascii s \<longleftrightarrow> list_all (\<lambda>c. byte_val c < 128) s"

definition ascii_lower :: "char \<Rightarrow> char" where
  "ascii_lower c = (if 65 \<le> byte_val c \<and> byte_val c \<le> 90 then char_of (byte_val c + 32) else c)"

definition lowercase_ok :: "(string \<Rightarrow> string) \<Rightarrow> bool" where
  "lowercase_ok lower \<longleftrightarrow> (\<forall>s. is_ascii s \<longrightarrow> lower s = map ascii_lower s)"

lemma byte_val_ascii_lower: "byte_val c < 128 \<Longrightarrow> byte_val (ascii_lower c) < 128"
  by (auto simp: ascii_lower_def byte_val_def)

lemma is_ascii_lower [simp]: "is_ascii s \<Longrightarrow> is_ascii (map ascii_lower s)"
  by (auto simp: is_ascii_def list_all_iff byte_val_ascii_lower)

lemma str_slice_ascii:
  "is_ascii s \<Longrightarrow> i \<le> j \<Longrightarrow> j \<le> length s \<Longrightarrow> str_slice s i j = Ret (take (j - i) (drop i s))"
  by (auto simp: str_slice_def is_ascii_def list_all_iff intro!: ascii_char_boundary)

lemma str_find_Some: "str_find s p = Some i \<Longrightarrow> \<exists>u v. s = u @ p @ v \<and> length u = i"
proof (induction s p arbitrary: i rule: str_find.induct)
  case (2 c cs p)
  show ?case
  proof (cases "starts_with (c # cs) p")
    case True
    with "2.prems" show ?thesis by (auto simp: starts_with_iff)
  next
    case False
    with "2.prems" obtain j where j: "i = Suc j" "str_find cs p = Some j" by auto
    from "2.IH" [OF False j(2)] obtain u v where "cs = u @ p @ v" "length u = j" by blast
    then show ?thesis by (intro exI [of _ "c # u"] exI [of _ v]) (simp add: j)
  qed
qed (auto split: if_splits)

lemma str_find_None: "str_find s p = None \<Longrightarrow> s \<noteq> u @ p @ v"
proof (induction s p arbitrary: u rule: str_find.induct)
  case (2 c cs p)
  then show ?case by (cases u) (auto simp: starts_with_iff split: if_splits)
qed (auto split: if_splits)

section \<open>What the loops compute\<close>

definition score_sum :: "Detection list \<Rightarrow> nat" where
  "score_sum ds = sum_list (map (\<lambda>d. unat (score_impact d)) ds)"

definition with_dets :: "acc \<Rightarrow> Detection list \<Rightarrow> acc" where
  "with_dets a ds = (fst a @ ds, snd a + of_nat (score_sum ds))"

lemma score_sum_simps [simp]:
  "score_sum [] = 0" "score_sum (d # ds) = unat (score_impact d) + score_sum ds"
  "score_sum (xs @ ys) = score_sum xs + score_sum ys"
  by (simp_all add: score_sum_def)

lemma with_dets_simps [simp]: "with_dets a [] = a" "with_dets (with_dets a xs) ys = with_dets a (xs @ ys)"
  by (simp_all add: with_dets_def ac_simps)

text \<open>With overflow checks a run that returns has not overflowed.\<close>

definition fits :: "acc \<Rightarrow> Detection list \<Rightarrow> bool" where
  "fits a ds \<longleftrightarrow> unat (snd a) + score_sum ds < 2 ^ 32"

lemma fits_Nil [simp]: "fits a []"
  using unsigned_less [of "snd a"] by (simp add: fits_def)

lemma fits_with_dets: "fits a xs \<Longrightarrow> fits (with_dets a xs) ys \<longleftrightarrow> fits a (xs @ ys)"
proof -
  assume f: "fits a xs"
  then have "unat (snd a + of_nat (score_sum xs)) = unat (snd a) + score_sum xs"
    unfolding fits_def by (simp add: unat_word_ariths unat_of_nat)
  then show ?thesis by (simp add: fits_def with_dets_def add.assoc)
qed

definition det :: "LeakType \<Rightarrow> u32 \<Rightarrow> string \<Rightarrow> Detection" where
  "det lt score m = \<lparr>leak_type = lt, matched_text = m, score_impact = score\<rparr>"

lemma add_detection_Ret:
  "add_detection oc lt m score a = Ret a' \<longleftrightarrow>
   a' = with_dets a [det lt score m] \<and> (oc \<longrightarrow> fits a [det lt score m])"
  by (auto simp: add_detection_def add_u32_def with_dets_def fits_def det_def)

lemma add_detection_release [simp]: "add_detection False lt m score a = Ret (with_dets a [det lt score m])"
  by (simp add: add_detection_Ret)

lemma add_detection_fits: "fits a [det lt score m] \<Longrightarrow> add_detection oc lt m score a = Ret (with_dets a [det lt score m])"
  by (simp add: add_detection_Ret)

text \<open>
  The contract all the loops share: a run that returns has appended some detections and added their
  scores, and every other run of the same loop (from any accumulator, with or without overflow
  checks) appends the same detections, provided that the scores fit when overflow is checked.
\<close>

locale scorer =
  fixes f :: "bool \<Rightarrow> acc \<Rightarrow> acc run option"
  assumes returns: "f oc a = Some (Ret a') \<Longrightarrow>
    \<exists>ds. a' = with_dets a ds \<and> (oc \<longrightarrow> fits a ds)
       \<and> (\<forall>oc2 a2. (oc2 \<longrightarrow> fits a2 ds) \<longrightarrow> f oc2 a2 = Some (Ret (with_dets a2 ds)))"

definition dets_of :: "(bool \<Rightarrow> acc \<Rightarrow> acc run option) \<Rightarrow> Detection list" where
  "dets_of f = (case f False ([], 0) of Some (Ret a) \<Rightarrow> fst a | _ \<Rightarrow> [])"

definition runs :: "(bool \<Rightarrow> acc \<Rightarrow> acc run option) \<Rightarrow> bool" where
  "runs f \<longleftrightarrow> (\<exists>a. f False ([], 0) = Some (Ret a))"

context scorer
begin

lemma result:
  assumes "f oc a = Some (Ret a')"
  shows "a' = with_dets a (dets_of f) \<and> (oc \<longrightarrow> fits a (dets_of f))
     \<and> (\<forall>oc2 a2. (oc2 \<longrightarrow> fits a2 (dets_of f)) \<longrightarrow> f oc2 a2 = Some (Ret (with_dets a2 (dets_of f))))"
proof -
  obtain ds where ds: "a' = with_dets a ds" "oc \<longrightarrow> fits a ds"
      "\<forall>oc2 a2. (oc2 \<longrightarrow> fits a2 ds) \<longrightarrow> f oc2 a2 = Some (Ret (with_dets a2 ds))"
    using returns [OF assms] by blast
  from ds(3) have "f False ([], 0) = Some (Ret (with_dets ([], 0) ds))" by simp
  then have "dets_of f = ds" by (simp add: dets_of_def with_dets_def)
  with ds show ?thesis by (simp del: split_paired_All)
qed

lemma returns_iff:
  "f oc a = Some (Ret a') \<longleftrightarrow> runs f \<and> (oc \<longrightarrow> fits a (dets_of f)) \<and> a' = with_dets a (dets_of f)"
proof
  assume "f oc a = Some (Ret a')"
  from result [OF this] show "runs f \<and> (oc \<longrightarrow> fits a (dets_of f)) \<and> a' = with_dets a (dets_of f)"
    by (simp add: runs_def del: split_paired_All)
next
  assume *: "runs f \<and> (oc \<longrightarrow> fits a (dets_of f)) \<and> a' = with_dets a (dets_of f)"
  then obtain b where "f False ([], 0) = Some (Ret b)" by (auto simp: runs_def)
  from result [OF this] * show "f oc a = Some (Ret a')" by (simp del: split_paired_All)
qed

end

lemma scorer_return: "scorer (\<lambda>oc a. Some (Ret a))"
  by unfold_locales (auto intro!: exI [of _ "[]"])

lemma scorer_bind:
  assumes "scorer f" and "scorer g"
  shows "scorer (\<lambda>oc a. bind_opt_run (f oc a) (g oc))"
proof
  fix oc a a'
  assume "bind_opt_run (f oc a) (g oc) = Some (Ret a')"
  then obtain b where b: "f oc a = Some (Ret b)" "g oc b = Some (Ret a')"
    by (auto simp: bind_opt_run_Ret)
  obtain xs where xs: "b = with_dets a xs" "oc \<longrightarrow> fits a xs"
      "\<forall>oc2 a2. (oc2 \<longrightarrow> fits a2 xs) \<longrightarrow> f oc2 a2 = Some (Ret (with_dets a2 xs))"
    using scorer.returns [OF assms(1) b(1)] by blast
  obtain ys where ys: "a' = with_dets b ys" "oc \<longrightarrow> fits b ys"
      "\<forall>oc2 a2. (oc2 \<longrightarrow> fits a2 ys) \<longrightarrow> g oc2 a2 = Some (Ret (with_dets a2 ys))"
    using scorer.returns [OF assms(2) b(2)] by blast
  have runs: "bind_opt_run (f oc2 a2) (g oc2) = Some (Ret (with_dets a2 (xs @ ys)))"
    if "oc2 \<longrightarrow> fits a2 (xs @ ys)" for oc2 a2
  proof -
    from that have x: "oc2 \<longrightarrow> fits a2 xs" by (auto simp: fits_def)
    with that have "oc2 \<longrightarrow> fits (with_dets a2 xs) ys" by (auto simp: fits_with_dets)
    with x xs(3) ys(3) show ?thesis by (metis bind_opt_run_simps(3) with_dets_simps(2))
  qed
  from xs(1,2) ys(1,2) have "a' = with_dets a (xs @ ys) \<and> (oc \<longrightarrow> fits a (xs @ ys))"
    by (auto simp: fits_with_dets)
  with runs show "\<exists>ds. a' = with_dets a ds \<and> (oc \<longrightarrow> fits a ds)
     \<and> (\<forall>oc2 a2. (oc2 \<longrightarrow> fits a2 ds) \<longrightarrow> bind_opt_run (f oc2 a2) (g oc2) = Some (Ret (with_dets a2 ds)))"
    by (intro exI [of _ "xs @ ys"]) (intro conjI allI impI, simp_all)
qed

lemma scorer_add: "scorer (\<lambda>oc a. Some (add_detection oc lt m score a))"
  by unfold_locales (auto simp: add_detection_Ret intro!: exI [of _ "[det lt score m]"])

interpretation signature_scorer: scorer "\<lambda>oc a. Some (signature_loop oc lt score ms a)" for lt score ms
proof (induction ms)
  case Nil
  show ?case using scorer_return by simp
next
  case (Cons m ms)
  have "(\<lambda>oc a. Some (bind_run (add_detection oc lt m score a) (signature_loop oc lt score ms)))
      = (\<lambda>oc a. bind_opt_run (Some (add_detection oc lt m score a)) (\<lambda>a. Some (signature_loop oc lt score ms a)))"
    by (auto simp: fun_eq_iff bind_opt_run_def split: run.split)
  with scorer_bind [OF scorer_add Cons.IH, of lt m score]
  have "scorer (\<lambda>oc a. Some (bind_run (add_detection oc lt m score a) (signature_loop oc lt score ms)))"
    by simp
  moreover have "signature_loop oc lt score (m # ms) a
      = bind_run (add_detection oc lt m score a) (signature_loop oc lt score ms)"
    if "\<not> (lt = CreditCard \<and> \<not> validate_luhn m)" for oc a
    using that by auto
  ultimately show ?case
    using Cons.IH by (cases "lt = CreditCard \<and> \<not> validate_luhn m") (simp, simp only: not_False_eq_True)
qed

text \<open>One round of the keyword loop: nothing left to find, or one more detection.\<close>

lemma word_loop_miss:
  assumes "str_slice ltx pos (length ltx) = Ret rest" and "str_find rest (lower w) = None"
  shows "word_loop lower oc lt doc ltx w score pos a = Some (Ret a)"
  using assms by (simp add: word_loop.simps)

lemma word_loop_hit:
  assumes "str_slice ltx pos (length ltx) = Ret rest" and "str_find rest (lower w) = Some i"
    and "str_slice doc (pos + i) (pos + i + length w) = Ret m" and "oc \<longrightarrow> fits a [det lt score m]"
  shows "word_loop lower oc lt doc ltx w score pos a
     = word_loop lower oc lt doc ltx w score (pos + (i + length w)) (with_dets a [det lt score m])"
  using assms add_detection_Ret [of oc lt m score a "with_dets a [det lt score m]"]
  by (subst word_loop.simps) simp

lemma fits_Cons: "fits a (d # ds) \<longleftrightarrow> fits a [d] \<and> fits (with_dets a [d]) ds"
proof (cases "fits a [d]")
  case True
  then show ?thesis by (simp add: fits_with_dets)
qed (simp add: fits_def)

definition appends :: "(bool \<Rightarrow> acc \<Rightarrow> acc run option) \<Rightarrow> Detection list \<Rightarrow> bool" where
  "appends f ds \<longleftrightarrow> (\<forall>oc a. (oc \<longrightarrow> fits a ds) \<longrightarrow> f oc a = Some (Ret (with_dets a ds)))"

lemma word_loop_run:
  assumes "word_loop lower oc lt doc ltx w score pos a = Some (Ret a')"
  shows "\<exists>ds. a' = with_dets a ds \<and> (oc \<longrightarrow> fits a ds) \<and> appends (\<lambda>oc. word_loop lower oc lt doc ltx w score pos) ds"
proof -
  have "r = Ret a' \<Longrightarrow> \<exists>ds. a' = with_dets a ds \<and> (oc \<longrightarrow> fits a ds) \<and> appends (\<lambda>oc. word_loop lower oc lt doc ltx w score pos) ds"
    if "word_loop lower oc lt doc ltx w score pos a = Some r" for r
    using that
  proof (induction rule: word_loop.raw_induct [rotated, consumes 1, case_names 1])
    case (1 rec lower oc lt doc ltx w score pos a r)
    from 1(2,3) obtain rest where rest: "str_slice ltx pos (length ltx) = Ret rest"
      by (auto split: run.splits)
    show ?case
    proof (cases "str_find rest (lower w)")
      case None
      with 1(2,3) rest show ?thesis
        by (intro exI [of _ "[]"]) (auto simp: appends_def word_loop_miss)
    next
      case (Some i)
      with 1(2,3) rest obtain m where m: "str_slice doc (pos + i) (pos + i + length w) = Ret m"
          "oc \<longrightarrow> fits a [det lt score m]"
          "rec lower oc lt doc ltx w score (pos + (i + length w)) (with_dets a [det lt score m]) = Some r"
        by (auto simp: add_detection_Ret split: run.splits)
      obtain ds where ds: "a' = with_dets (with_dets a [det lt score m]) ds" "oc \<longrightarrow> fits (with_dets a [det lt score m]) ds"
          "appends (\<lambda>oc. word_loop lower oc lt doc ltx w score (pos + (i + length w))) ds"
        using 1(1) [OF m(3) 1(3)] by blast
      then have "appends (\<lambda>oc. word_loop lower oc lt doc ltx w score pos) (det lt score m # ds)"
        using word_loop_hit [where lower = lower and w = w, OF rest Some m(1)] by (simp add: appends_def fits_Cons [of _ _ ds] del: split_paired_All)
      with ds(1,2) m(2) show ?thesis
        by (intro exI [of _ "det lt score m # ds"]) (simp add: fits_Cons [of _ _ ds])
    qed
  qed
  with assms show ?thesis by blast
qed

interpretation word_scorer: scorer "\<lambda>oc. word_loop lower oc lt doc ltx w score pos"
  for lower lt doc ltx w score pos
  by unfold_locales (rule word_loop_run [unfolded appends_def])

lemma scorer_dictionary: "scorer (\<lambda>oc. dictionary_loop lower oc lt doc ltx d)"
proof (induction d)
  case Nil
  show ?case using scorer_return by simp
next
  case (Cons e d)
  show ?case
    using scorer_bind [OF word_scorer.scorer_axioms Cons.IH, of lower lt doc ltx "fst e" "snd e" 0]
    by (cases e) simp
qed

interpretation dictionary_scorer: scorer "\<lambda>oc. dictionary_loop lower oc lt doc ltx d"
  for lower lt doc ltx d
  by (rule scorer_dictionary)

definition rule_run ::
    "('regex \<Rightarrow> string \<Rightarrow> string list) \<Rightarrow> (string \<Rightarrow> string) \<Rightarrow> string \<Rightarrow> 'regex Rule \<Rightarrow> bool \<Rightarrow> acc \<Rightarrow> acc run option" where
  "rule_run find_iter lower doc r oc a = rules_loop find_iter lower oc doc [r] a"

lemma bind_opt_run_right_id [simp]: "bind_opt_run m (\<lambda>x. Some (Ret x)) = m"
  by (auto simp: bind_opt_run_def split: option.split run.split)

lemma rules_loop_Nil: "rules_loop find_iter lower oc doc [] = (\<lambda>a. Some (Ret a))"
  by (simp add: fun_eq_iff)

lemma rules_loop_Cons:
  "rules_loop find_iter lower oc doc (r # rs) a
   = bind_opt_run (rule_run find_iter lower doc r oc a) (rules_loop find_iter lower oc doc rs)"
  by (cases r) (simp_all add: rule_run_def rules_loop_Nil)

interpretation rule_scorer: scorer "rule_run find_iter lower doc r" for find_iter lower doc r
proof (cases r)
  case (Signature re lt score)
  then have "rule_run find_iter lower doc r = (\<lambda>oc a. Some (signature_loop oc lt score (find_iter re doc) a))"
    by (simp add: fun_eq_iff rule_run_def rules_loop_Nil)
  with signature_scorer.scorer_axioms show "scorer (rule_run find_iter lower doc r)" by simp
next
  case (Dictionary d lt)
  then have "rule_run find_iter lower doc r = (\<lambda>oc. dictionary_loop lower oc lt doc (lower doc) d)"
    by (simp add: fun_eq_iff rule_run_def rules_loop_Nil)
  with dictionary_scorer.scorer_axioms show "scorer (rule_run find_iter lower doc r)" by simp
qed

text \<open>The detections of a rule, and when the whole loop over the rules returns.\<close>

definition word_detections ::
    "(string \<Rightarrow> string) \<Rightarrow> LeakType \<Rightarrow> string \<Rightarrow> string \<times> u32 \<Rightarrow> Detection list" where
  "word_detections lower lt doc e = dets_of (\<lambda>oc. word_loop lower oc lt doc (lower doc) (fst e) (snd e) 0)"

definition word_runs :: "(string \<Rightarrow> string) \<Rightarrow> LeakType \<Rightarrow> string \<Rightarrow> string \<times> u32 \<Rightarrow> bool" where
  "word_runs lower lt doc e = runs (\<lambda>oc. word_loop lower oc lt doc (lower doc) (fst e) (snd e) 0)"

definition rule_detections ::
    "('regex \<Rightarrow> string \<Rightarrow> string list) \<Rightarrow> (string \<Rightarrow> string) \<Rightarrow> string \<Rightarrow> 'regex Rule \<Rightarrow> Detection list" where
  "rule_detections find_iter lower doc r =
     (case r of
        Signature re lt score \<Rightarrow>
          map (det lt score) (filter (\<lambda>m. lt = CreditCard \<longrightarrow> validate_luhn m) (find_iter re doc))
      | Dictionary d lt \<Rightarrow> concat (map (word_detections lower lt doc) d))"

definition rule_runs :: "(string \<Rightarrow> string) \<Rightarrow> string \<Rightarrow> 'regex Rule \<Rightarrow> bool" where
  "rule_runs lower doc r = (case r of Signature re lt score \<Rightarrow> True
     | Dictionary d lt \<Rightarrow> (\<forall>e \<in> set d. word_runs lower lt doc e))"

lemma fits_append: "fits a (xs @ ys) \<longleftrightarrow> fits a xs \<and> fits (with_dets a xs) ys"
proof (cases "fits a xs")
  case True
  then show ?thesis by (simp add: fits_with_dets)
next
  case False
  then show ?thesis by (simp add: fits_def)
qed

lemma signature_release:
  "signature_loop False lt score ms a
   = Ret (with_dets a (map (det lt score) (filter (\<lambda>m. lt = CreditCard \<longrightarrow> validate_luhn m) ms)))"
  by (induction ms arbitrary: a) auto

lemma signature_returns:
  "signature_loop oc lt score ms a = Ret a' \<longleftrightarrow>
   (oc \<longrightarrow> fits a (map (det lt score) (filter (\<lambda>m. lt = CreditCard \<longrightarrow> validate_luhn m) ms)))
   \<and> a' = with_dets a (map (det lt score) (filter (\<lambda>m. lt = CreditCard \<longrightarrow> validate_luhn m) ms))"
proof -
  have "dets_of (\<lambda>oc a. Some (signature_loop oc lt score ms a))
      = map (det lt score) (filter (\<lambda>m. lt = CreditCard \<longrightarrow> validate_luhn m) ms)"
    by (simp add: dets_of_def signature_release with_dets_def)
  with signature_scorer.returns_iff [of oc lt score ms a a'] show ?thesis
    by (simp add: runs_def signature_release)
qed

lemma dictionary_returns:
  "dictionary_loop lower oc lt doc (lower doc) d a = Some (Ret a') \<longleftrightarrow>
   (\<forall>e \<in> set d. word_runs lower lt doc e) \<and> (oc \<longrightarrow> fits a (concat (map (word_detections lower lt doc) d)))
   \<and> a' = with_dets a (concat (map (word_detections lower lt doc) d))"
proof (induction d arbitrary: a)
  case (Cons e d)
  obtain w s where e: "e = (w, s)" by (cases e)
  show ?case
    by (auto simp: e bind_opt_run_Ret Cons.IH word_scorer.returns_iff fits_append word_runs_def word_detections_def)
qed auto

lemma rule_returns:
  "rule_run find_iter lower doc r oc a = Some (Ret a') \<longleftrightarrow>
   rule_runs lower doc r \<and> (oc \<longrightarrow> fits a (rule_detections find_iter lower doc r))
   \<and> a' = with_dets a (rule_detections find_iter lower doc r)"
  by (cases r) (simp_all add: rule_run_def rules_loop_Nil rule_runs_def rule_detections_def
      signature_returns dictionary_returns)

lemma rules_returns:
  "rules_loop find_iter lower oc doc rs a = Some (Ret a') \<longleftrightarrow>
   (\<forall>r \<in> set rs. rule_runs lower doc r)
   \<and> (oc \<longrightarrow> fits a (concat (map (rule_detections find_iter lower doc) rs)))
   \<and> a' = with_dets a (concat (map (rule_detections find_iter lower doc) rs))"
proof (induction rs arbitrary: a)
  case (Cons r rs)
  show ?case
    by (auto simp: rules_loop_Cons bind_opt_run_Ret Cons.IH rule_returns fits_append)
qed auto

definition result_of :: "u32 \<Rightarrow> Detection list \<Rightarrow> AnalysisResult" where
  "result_of thr ds = \<lparr>is_violation = thr \<le> of_nat (score_sum ds), total_score = of_nat (score_sum ds),
     severity = severity_of (of_nat (score_sum ds)), detections = ds\<rparr>"

abbreviation all_detections where
  "all_detections find_iter lower doc e \<equiv> concat (map (rule_detections find_iter lower doc) (rules e))"

lemma analyze_returns:
  "analyze find_iter lower oc e doc = Some (Ret res) \<longleftrightarrow>
   (\<forall>r \<in> set (rules e). rule_runs lower doc r)
   \<and> (oc \<longrightarrow> score_sum (all_detections find_iter lower doc e) < 2 ^ 32)
   \<and> res = result_of (threshold e) (all_detections find_iter lower doc e)"
  by (auto simp: analyze_def bind_opt_run_Ret rules_returns with_dets_def result_of_def fits_def)

section \<open>The keyword loop\<close>

text \<open>A nonempty word: every round advances, so the loop ends (with a result or a panic).\<close>

lemma word_loop_terminates:
  assumes "w \<noteq> []"
  shows "word_loop lower oc lt doc ltx w score pos a \<noteq> None"
proof (induction "Suc (length ltx) - pos" arbitrary: pos a rule: less_induct)
  case less
  show ?case
  proof (cases "pos \<le> length ltx")
    case False
    then show ?thesis by (subst word_loop.simps) (simp add: str_slice_def)
  next
    case True
    with assms less have "word_loop lower oc lt doc ltx w score (pos + (i + length w)) b \<noteq> None" for i b
      by (cases "length w") auto
    then show ?thesis
      by (subst word_loop.simps) (simp split: run.split option.split del: not_None_eq)
  qed
qed

lemma dictionary_loop_terminates:
  "[] \<notin> fst ` set d \<Longrightarrow> dictionary_loop lower oc lt doc ltx d a \<noteq> None"
proof (induction d arbitrary: a)
  case (Cons e d)
  obtain w sc where e: "e = (w, sc)" by (cases e)
  with Cons.prems have "w \<noteq> []" and "[] \<notin> fst ` set d" by auto
  then show ?case
    unfolding e dictionary_loop.simps by (intro bind_opt_run_Some word_loop_terminates Cons.IH)
qed simp

definition words_nonempty :: "'regex DlpEngine \<Rightarrow> bool" where
  "words_nonempty e \<longleftrightarrow> (\<forall>d lt. Dictionary d lt \<in> set (rules e) \<longrightarrow> [] \<notin> fst ` set d)"

lemma rules_loop_terminates:
  "(\<And>d lt. Dictionary d lt \<in> set rs \<Longrightarrow> [] \<notin> fst ` set d) \<Longrightarrow> rules_loop find_iter lower oc doc rs a \<noteq> None"
proof (induction rs arbitrary: a)
  case (Cons r rs)
  have rest: "rules_loop find_iter lower oc doc rs b \<noteq> None" for b
    using Cons by (meson list.set_intros(2))
  show ?case
  proof (cases r)
    case (Signature re lt score)
    show ?thesis
      unfolding Signature rules_loop.simps by (intro bind_opt_run_Some rest) simp
  next
    case (Dictionary d lt)
    with Cons.prems [of d lt] have "[] \<notin> fst ` set d" by simp
    then show ?thesis
      unfolding Dictionary rules_loop.simps by (intro bind_opt_run_Some dictionary_loop_terminates rest)
  qed
qed simp

text \<open>On ASCII text the loop finds the keyword in any spelling, and only the keyword.\<close>

lemma word_loop_ascii:
  assumes "lowercase_ok lower" and "is_ascii doc" and "is_ascii w" and "w \<noteq> []" and "pos \<le> length doc"
  shows "\<exists>ds. word_loop lower False lt doc (lower doc) w score pos a = Some (Ret (with_dets a ds))
     \<and> (\<forall>d \<in> set ds. leak_type d = lt \<and> score_impact d = score
           \<and> map ascii_lower (matched_text d) = map ascii_lower w)
     \<and> (ds = [] \<longrightarrow> (\<forall>u v. map ascii_lower (drop pos doc) \<noteq> u @ map ascii_lower w @ v))"
  using assms(5)
proof (induction "length doc - pos" arbitrary: pos a rule: less_induct)
  case less
  have low: "lower doc = map ascii_lower doc" "lower w = map ascii_lower w"
    using assms(1-3) by (auto simp: lowercase_ok_def)
  have rest: "str_slice (map ascii_lower doc) pos (length doc) = Ret (map ascii_lower (drop pos doc))"
    using less.prems assms(2) str_slice_ascii [of "map ascii_lower doc" pos "length doc"] by (simp add: drop_map)
  show ?case
  proof (cases "str_find (map ascii_lower (drop pos doc)) (map ascii_lower w)")
    case None
    then show ?thesis
      using str_find_None [OF None]
      by (intro exI [of _ "[]"]) (subst word_loop.simps, simp add: low rest)
  next
    case (Some i)
    from str_find_Some [OF Some] obtain u v where uv:
        "map ascii_lower (drop pos doc) = u @ map ascii_lower w @ v" "length u = i" by blast
    from arg_cong [OF uv(1), of length] uv(2) have len: "length doc - pos = i + length w + length v" by simp
    let ?m = "take (length w) (drop (pos + i) doc)"
    have "map ascii_lower ?m = take (length w) (drop i (map ascii_lower (drop pos doc)))"
      by (simp add: take_map drop_map add.commute)
    with uv have m: "map ascii_lower ?m = map ascii_lower w" by simp
    have slice: "str_slice doc (pos + i) (pos + i + length w) = Ret ?m"
      using str_slice_ascii [OF assms(2), of "pos + i" "pos + i + length w"] len less.prems by simp
    have "length doc - (pos + (i + length w)) < length doc - pos" "pos + (i + length w) \<le> length doc"
      using len less.prems assms(4) by (auto simp flip: length_greater_0_conv)
    from less.hyps [OF this, of "with_dets a [det lt score ?m]"] obtain ds where ds:
        "word_loop lower False lt doc (lower doc) w score (pos + (i + length w)) (with_dets a [det lt score ?m])
           = Some (Ret (with_dets a (det lt score ?m # ds)))"
        "\<forall>d \<in> set ds. leak_type d = lt \<and> score_impact d = score \<and> map ascii_lower (matched_text d) = map ascii_lower w"
      by auto
    then show ?thesis
      using m by (intro exI [of _ "det lt score ?m # ds"])
        (subst word_loop.simps, simp add: low rest Some slice, simp add: det_def)
  qed
qed

lemma word_ascii:
  assumes "lowercase_ok lower" and "is_ascii doc" and "is_ascii w" and "w \<noteq> []"
  shows "word_runs lower lt doc (w, score)"
    and "map ascii_lower doc = u @ map ascii_lower w @ v \<Longrightarrow> word_detections lower lt doc (w, score) \<noteq> []"
    and "d \<in> set (word_detections lower lt doc (w, score)) \<Longrightarrow>
       leak_type d = lt \<and> score_impact d = score \<and> map ascii_lower (matched_text d) = map ascii_lower w"
proof -
  obtain ds where ds: "word_loop lower False lt doc (lower doc) w score 0 ([], 0) = Some (Ret (with_dets ([], 0) ds))"
     "\<forall>d \<in> set ds. leak_type d = lt \<and> score_impact d = score \<and> map ascii_lower (matched_text d) = map ascii_lower w"
     "ds = [] \<longrightarrow> (\<forall>u v. map ascii_lower doc \<noteq> u @ map ascii_lower w @ v)"
    using word_loop_ascii [OF assms, of 0 lt score "([], 0)"] by auto
  then have "word_detections lower lt doc (w, score) = ds"
    by (simp add: word_detections_def dets_of_def with_dets_def)
  with ds show "word_runs lower lt doc (w, score)"
    and "map ascii_lower doc = u @ map ascii_lower w @ v \<Longrightarrow> word_detections lower lt doc (w, score) \<noteq> []"
    and "d \<in> set (word_detections lower lt doc (w, score)) \<Longrightarrow>
       leak_type d = lt \<and> score_impact d = score \<and> map ascii_lower (matched_text d) = map ascii_lower w"
    by (auto simp: word_runs_def runs_def)
qed

definition ascii_words :: "'regex DlpEngine \<Rightarrow> bool" where
  "ascii_words e \<longleftrightarrow> (\<forall>d lt w s. Dictionary d lt \<in> set (rules e) \<longrightarrow> (w, s) \<in> set d \<longrightarrow> is_ascii w \<and> w \<noteq> [])"

lemma ascii_rules_run:
  "lowercase_ok lower \<Longrightarrow> is_ascii doc \<Longrightarrow> ascii_words e \<Longrightarrow> r \<in> set (rules e) \<Longrightarrow> rule_runs lower doc r"
  by (cases r) (auto simp: rule_runs_def ascii_words_def intro!: word_ascii(1))

text \<open>A higher score is never a lower severity, in the order the source derives.\<close>

lemma severity_of_mono: "t \<le> t' \<Longrightarrow> severity_of t \<le> severity_of t'"
  by (auto simp: severity_of_def less_eq_Severity_def word_le_nat_alt unat_eq_0 Suc_le_eq split: if_splits)

section \<open>The Luhn sum\<close>

lemma luhn_term_bound: "d < 10 \<Longrightarrow> luhn_term i d < 10"
  by (auto simp: luhn_term_def Let_def)

lemma luhn_term_inj: "d < 10 \<Longrightarrow> d' < 10 \<Longrightarrow> luhn_term i d = luhn_term i d' \<Longrightarrow> d = d'"
  by (auto simp: luhn_term_def Let_def split: if_splits) presburger+

lemma card_digits_bound: "d \<in> set (card_digits s) \<Longrightarrow> d < 10"
  by (auto simp: card_digits_def List.map_filter_def to_digit10_def is_ascii_digit_def split: if_splits)

lemma mod_10_balance:
  fixes a b x y :: nat
  assumes "a + x = b + y" and "a mod 10 = 0" and "b mod 10 = 0"
  shows "x mod 10 = y mod 10"
proof -
  from assms(1) have "(a mod 10 + x) mod 10 = (b mod 10 + y) mod 10" by (simp only: mod_add_left_eq)
  with assms show ?thesis by simp
qed

lemma luhn_sum_update:
  assumes "i < length ds"
  shows "luhn_sum (ds[i := d]) + luhn_term (length ds - Suc i) (ds ! i)
       = luhn_sum ds + luhn_term (length ds - Suc i) d"
proof -
  have sum: "luhn_sum xs = (\<Sum>j<length xs. luhn_term (length xs - Suc j) (xs ! j))" for xs
  proof -
    have "luhn_sum xs = (\<Sum>j<length xs. luhn_term j (rev xs ! j))"
      by (simp add: luhn_sum_def sum_list_sum_nth nth_enumerate_eq atLeast0LessThan)
    also have "\<dots> = (\<Sum>j<length xs. luhn_term (length xs - Suc j) (rev xs ! (length xs - Suc j)))"
      by (rule sum.nat_diff_reindex [symmetric])
    also have "\<dots> = (\<Sum>j<length xs. luhn_term (length xs - Suc j) (xs ! j))"
      by (rule sum.cong) (simp_all add: rev_nth)
    finally show ?thesis .
  qed
  let ?f = "\<lambda>xs j. luhn_term (length ds - Suc j) (xs ! j)"
  have "(\<Sum>j<length ds. ?f xs j) = ?f xs i + (\<Sum>j\<in>{..<length ds} - {i}. ?f xs j)" for xs
    by (rule sum.remove) (use assms in auto)
  moreover have "(\<Sum>j\<in>{..<length ds} - {i}. ?f (ds[i := d]) j) = (\<Sum>j\<in>{..<length ds} - {i}. ?f ds j)"
    by (rule sum.cong) auto
  ultimately show ?thesis using assms by (simp add: sum)
qed

section \<open>Properties\<close>

text \<open>The engine of \<^verbatim>\<open>main\<close> on texts without digits, where its regular expressions match nothing.\<close>

definition no_matches :: "unit \<Rightarrow> string \<Rightarrow> string list" where
  "no_matches re doc = []"

definition demo_engine :: "unit DlpEngine" where
  "demo_engine = main_engine () () main_keywords"

lemma demo_lowercase_ok: "lowercase_ok (map ascii_lower)"
  by (simp add: lowercase_ok_def)

lemma demo_ascii_words: "ascii_words demo_engine"
  by (auto simp: ascii_words_def demo_engine_def main_engine_def main_keywords_def add_rule_def engine_new_def
      is_ascii_def byte_val_def)

lemma demo_dictionary: "Dictionary main_keywords ConfidentialKeyword \<in> set (rules demo_engine)"
  by (simp add: demo_engine_def main_engine_def add_rule_def engine_new_def)

text \<open>
  C22: What the analysis returns, for every set of rules and every text: the detections are those of the
  rules in order (for a signature rule its matches in order, without the card numbers that fail the Luhn
  check; for a dictionary those of its words in iteration order), the total is the sum of their scores
  modulo 2^32, exact when overflow is checked, the violation flag compares it with the threshold, and the
  severity follows the total's range.\<close>

theorem analyze_score:
  assumes "analyze find_iter lower oc e doc = Some (Ret res)"
  shows "detections res = concat (map (rule_detections find_iter lower doc) (rules e))
     \<and> unat (total_score res) = score_sum (detections res) mod 2 ^ 32
     \<and> (oc \<longrightarrow> unat (total_score res) = score_sum (detections res))
     \<and> (is_violation res \<longleftrightarrow> unat (threshold e) \<le> unat (total_score res))
     \<and> severity res = (let t = unat (total_score res) in
          if t = 0 then Low else if t \<le> 10 then Medium else if t \<le> 30 then High else Critical)"
proof -
  have sev: "severity_of t = (if unat t = 0 then Low else if unat t \<le> 10 then Medium
      else if unat t \<le> 30 then High else Critical)" for t
    by (auto simp: severity_of_def word_le_nat_alt unat_eq_0 Suc_le_eq)
  from assms show ?thesis
    by (auto simp: analyze_returns result_of_def unat_of_nat word_le_nat_alt sev Let_def)
qed

theorem analyze_score_witness:
  "\<exists>res. analyze no_matches (map ascii_lower) True demo_engine ''my nda'' = Some (Ret res)
     \<and> unat (total_score res) = score_sum (detections res)"
proof -
  have "case analyze no_matches (map ascii_lower) True demo_engine ''my nda'' of Some (Ret r) \<Rightarrow> True | _ \<Rightarrow> False"
    by code_simp
  then obtain res where res: "analyze no_matches (map ascii_lower) True demo_engine ''my nda'' = Some (Ret res)"
    by (auto split: option.splits run.splits)
  from res analyze_score [OF res] show ?thesis by blast
qed

text \<open>
  C7: A keyword is found in any spelling: on an ASCII text that contains a dictionary word in upper, lower or
  mixed case, with ASCII and nonempty dictionary words and scores that fit into 32 bits when overflow is
  checked, the analysis returns, one of the detections is that word's (its type and score, and its text is
  the word up to case), and in a checked build the text is a violation if the word's score reaches the
  threshold.\<close>

theorem keyword_found:
  assumes "lowercase_ok lower" and "is_ascii doc" and "ascii_words e"
    and "Dictionary dict lt \<in> set (rules e)" and "(word, score) \<in> set dict"
    and "map ascii_lower doc = u @ map ascii_lower word @ v"
    and "oc \<longrightarrow> score_sum (all_detections find_iter lower doc e) < 2 ^ 32"
  shows "\<exists>res. analyze find_iter lower oc e doc = Some (Ret res)
     \<and> (\<exists>d \<in> set (detections res). leak_type d = lt \<and> score_impact d = score
          \<and> map ascii_lower (matched_text d) = map ascii_lower word)
     \<and> (oc \<and> threshold e \<le> score \<longrightarrow> is_violation res)"
proof -
  have w: "is_ascii word" "word \<noteq> []"
    using assms(3-5) by (auto simp: ascii_words_def)
  note word = word_ascii [OF assms(1,2) w, where lt = lt and score = score]
  obtain d where d: "d \<in> set (word_detections lower lt doc (word, score))"
    using word(2) [OF assms(6)] by (cases "word_detections lower lt doc (word, score)") auto
  then have all: "d \<in> set (all_detections find_iter lower doc e)"
    using assms(4,5) by (force simp: rule_detections_def)
  then have "unat (score_impact d) \<le> score_sum (all_detections find_iter lower doc e)"
    unfolding score_sum_def by (intro member_le_sum_list) auto
  moreover have "\<exists>res. analyze find_iter lower oc e doc = Some (Ret res)"
    using assms(7) ascii_rules_run [OF assms(1-3)] by (auto simp: analyze_returns)
  ultimately show ?thesis
    using word(3) [OF d] all assms(7)
    by (auto simp: analyze_returns result_of_def word_le_nat_alt unat_of_nat)
qed

theorem keyword_found_witness:
  "\<exists>res. analyze no_matches (map ascii_lower) True demo_engine ''my nda'' = Some (Ret res)
     \<and> (\<exists>d \<in> set (detections res). leak_type d = ConfidentialKeyword \<and> score_impact d = 5
          \<and> map ascii_lower (matched_text d) = map ascii_lower ''NDA'')
     \<and> (True \<and> threshold demo_engine \<le> 5 \<longrightarrow> is_violation res)"
proof (rule keyword_found [OF demo_lowercase_ok _ demo_ascii_words demo_dictionary])
  show "is_ascii ''my nda''" by code_simp
  show "(''NDA'', 5) \<in> set main_keywords" by (simp add: main_keywords_def)
  show "map ascii_lower ''my nda'' = ''my '' @ map ascii_lower ''NDA'' @ []" by code_simp
  have "score_sum (all_detections no_matches (map ascii_lower) ''my nda'' demo_engine) = 5" by code_simp
  then show "True \<longrightarrow> score_sum (all_detections no_matches (map ascii_lower) ''my nda'' demo_engine) < 2 ^ 32"
    by simp
qed

text \<open>The detections of a dictionary in another order.\<close>

lemma detections_permute:
  fixes w :: "string \<times> u32 \<Rightarrow> Detection list"
  assumes "mset d' = mset d"
  shows "mset (concat (map w d')) = mset (concat (map w d))"
    and "score_sum (concat (map w d')) = score_sum (concat (map w d))"
proof -
  have sum: "score_sum ds = sum_mset (image_mset (\<lambda>d. unat (score_impact d)) (mset ds))" for ds
    by (simp add: score_sum_def flip: sum_mset_sum_list)
  show "mset (concat (map w d')) = mset (concat (map w d))"
    using assms by (simp add: mset_concat flip: sum_mset_sum_list mset_map) (metis mset_map)
  then show "score_sum (concat (map w d')) = score_sum (concat (map w d))"
    by (simp add: sum)
qed

text \<open>
  C34: The order in which a dictionary is iterated does not matter: if the analysis returns for one order, it
  returns for every other, with the same total, violation flag and severity, and the same detections up to
  their order.\<close>

theorem dictionary_order_irrelevant:
  assumes "analyze find_iter lower oc (add_rule (Dictionary d lt) e) doc = Some (Ret res)"
    and "mset d' = mset d"
  shows "\<exists>res'. analyze find_iter lower oc (add_rule (Dictionary d' lt) e) doc = Some (Ret res')
     \<and> mset (detections res') = mset (detections res) \<and> total_score res' = total_score res
     \<and> is_violation res' = is_violation res \<and> severity res' = severity res"
proof -
  note * = detections_permute [OF assms(2), of "word_detections lower lt doc"]
  have "set d' = set d" using assms(2) by (metis set_mset_mset)
  with assms(1) * show ?thesis
    by (auto simp: analyze_returns add_rule_def rule_runs_def rule_detections_def result_of_def)
qed

theorem dictionary_order_irrelevant_witness:
  "\<exists>res res'. analyze no_matches (map ascii_lower) True
       (add_rule (Dictionary [(''nda'', 5), (''key'', 7)] SourceCode) (engine_new 9)) ''nda key'' = Some (Ret res)
     \<and> analyze no_matches (map ascii_lower) True
       (add_rule (Dictionary [(''key'', 7), (''nda'', 5)] SourceCode) (engine_new 9)) ''nda key'' = Some (Ret res')
     \<and> mset (detections res') = mset (detections res) \<and> is_violation res' = is_violation res"
proof -
  have "case analyze no_matches (map ascii_lower) True
      (add_rule (Dictionary [(''nda'', 5), (''key'', 7)] SourceCode) (engine_new 9)) ''nda key''
      of Some (Ret r) \<Rightarrow> True | _ \<Rightarrow> False"
    by code_simp
  then obtain res where res: "analyze no_matches (map ascii_lower) True
      (add_rule (Dictionary [(''nda'', 5), (''key'', 7)] SourceCode) (engine_new 9)) ''nda key'' = Some (Ret res)"
    by (auto split: option.splits run.splits)
  from res dictionary_order_irrelevant [OF res, of "[(''key'', 7), (''nda'', 5)]"] show ?thesis by auto
qed

text \<open>
  C36: The analysis ends whenever no dictionary word is empty, whatever the rules, the text and the Unicode
  tables: it returns or panics, but does not loop.\<close>

theorem analyze_terminates:
  assumes "words_nonempty e"
  shows "\<exists>r. analyze find_iter lower oc e doc = Some r"
proof -
  have "rules_loop find_iter lower oc doc (rules e) ([], 0) \<noteq> None"
    using assms by (intro rules_loop_terminates) (auto simp: words_nonempty_def)
  then show ?thesis
    by (auto simp: analyze_def bind_opt_run_def split: option.splits run.splits)
qed

theorem analyze_terminates_witness:
  "words_nonempty demo_engine \<and> (\<exists>r. analyze no_matches rev True demo_engine ''any'' = Some r)"
proof -
  have "words_nonempty demo_engine"
    using demo_ascii_words by (force simp: words_nonempty_def ascii_words_def)
  with analyze_terminates [OF this, of no_matches rev True "''any''"] show ?thesis by blast
qed

text \<open>
  C25: The Luhn check detects every error in a single digit: if a card number passes, no number that differs
  from it in exactly one digit does.\<close>

theorem luhn_detects_single_error:
  assumes "validate_luhn s" and "i < length (card_digits s)"
    and "card_digits s' = (card_digits s)[i := d]" and "d \<noteq> card_digits s ! i"
  shows "\<not> validate_luhn s'"
proof
  assume s': "validate_luhn s'"
  let ?ds = "card_digits s" and ?k = "length (card_digits s) - Suc i"
  have "d \<in> set (card_digits s')" using assms(2,3) by (simp add: set_update_memI)
  then have d: "d < 10" by (rule card_digits_bound)
  have di: "?ds ! i < 10" using assms(2) by (intro card_digits_bound [of _ s]) simp
  have *: "luhn_sum ?ds mod 10 = 0" "luhn_sum (?ds[i := d]) mod 10 = 0"
    using assms(1,3) s' by (simp_all add: validate_luhn_def Let_def split: if_splits)
  have "luhn_term ?k (?ds ! i) mod 10 = luhn_term ?k d mod 10"
    by (rule mod_10_balance [OF luhn_sum_update [OF assms(2), of d] *(2,1)])
  with luhn_term_bound [OF d, of ?k] luhn_term_bound [OF di, of ?k] luhn_term_inj [OF di d, of ?k] assms(4)
  show False by simp
qed

theorem luhn_detects_single_error_witness:
  "validate_luhn ''4000 0000 0000 0002'' \<and> \<not> validate_luhn ''4000 0000 0010 0002''"
proof
  show ok: "validate_luhn ''4000 0000 0000 0002''" by code_simp
  show "\<not> validate_luhn ''4000 0000 0010 0002''"
  proof (rule luhn_detects_single_error [OF ok, of 10 _ 1])
    show "10 < length (card_digits ''4000 0000 0000 0002'')" by code_simp
    show "card_digits ''4000 0000 0010 0002'' = (card_digits ''4000 0000 0000 0002'')[10 := 1]" by code_simp
    show "1 \<noteq> card_digits ''4000 0000 0000 0002'' ! 10" by code_simp
  qed
qed

text \<open>
  The parallel driver returns exactly the results of the single analyses, in the order of the documents,
  and returns only if every one of them does.\<close>

lemma analyze_parallel_is_map:
  "analyze_parallel find_iter lower oc e documents = Some (Ret results)
   \<longleftrightarrow> list_all2 (\<lambda>doc r. analyze find_iter lower oc e doc = Some (Ret r)) documents results"
proof -
  have "join_all hs = Some (Ret rs) \<longleftrightarrow> list_all2 (\<lambda>h r. h = Some (Ret r)) hs rs"
    for hs :: "AnalysisResult run option list" and rs
    by (induction hs arbitrary: rs) (auto simp: bind_opt_run_Ret list_all2_Cons1)
  then show ?thesis by (simp add: analyze_parallel_def list_all2_map1)
qed

text \<open>
  An empty dictionary word makes an unchecked build loop forever on every ASCII text: the analysis never
  returns, whatever the score of the word.\<close>

lemma empty_keyword_loops:
  assumes "lowercase_ok lower" and "is_ascii doc"
  shows "analyze find_iter lower False (add_rule (Dictionary [([], score)] lt) (engine_new t)) doc = None"
proof -
  have low: "lower doc = map ascii_lower doc" "lower [] = []"
    using assms by (auto simp: lowercase_ok_def is_ascii_def)
  have find: "str_find s [] = Some 0" for s by (cases s) auto
  have slices: "str_slice (map ascii_lower doc) 0 (length doc) = Ret (map ascii_lower doc)" "str_slice doc 0 0 = Ret []"
    using str_slice_ascii [of "map ascii_lower doc" 0 "length doc"] str_slice_ascii [OF assms(2), of 0 0] assms(2)
    by simp_all
  have step: "word_loop lower False lt doc (lower doc) [] score 0 a
      = word_loop lower False lt doc (lower doc) [] score 0 (with_dets a [det lt score []])" for a
    by (subst word_loop.simps) (simp add: low find slices)
  have False if "word_loop lower False lt doc (lower doc) [] score 0 a = Some (Ret a')" for a a'
  proof -
    let ?f = "\<lambda>oc. word_loop lower oc lt doc (lower doc) [] score 0"
    let ?a = "with_dets a [det lt score []]"
    from that step [of a] have "?f False ?a = Some (Ret a')" by simp
    with that have "with_dets ?a (dets_of ?f) = with_dets a (dets_of ?f)"
      by (simp add: word_scorer.returns_iff)
    then show False by (simp add: with_dets_def)
  qed
  moreover have "word_loop lower False lt doc (lower doc) [] score 0 a \<noteq> Some Panic" for a
  proof
    assume "word_loop lower False lt doc (lower doc) [] score 0 a = Some Panic"
    moreover have "r \<noteq> Panic" if "word_loop l oc t dc lx w sc pos b = Some r"
        "l = lower" "\<not> oc" "dc = doc" "lx = lower doc" "w = []" "pos = 0" for l oc t dc lx w sc pos b r
      using that
    proof (induction rule: word_loop.raw_induct [rotated, consumes 1, case_names 1])
      case (1 rec l oc t dc lx w sc pos b r)
      then show ?case by (auto simp: low find slices)
    qed
    ultimately show False by blast
  qed
  ultimately have "word_loop lower False lt doc (lower doc) [] score 0 ([], 0) = None"
    by (metis option.exhaust run.exhaust)
  then show ?thesis by (simp add: analyze_def add_rule_def engine_new_def)
qed

lemma empty_keyword_loops_example:
  "analyze no_matches (map ascii_lower) False (add_rule (Dictionary [([], 3)] SourceCode) (engine_new 20)) ''hi'' = None"
  by (rule empty_keyword_loops [OF demo_lowercase_ok]) code_simp

definition dotted_lower :: "string \<Rightarrow> string" where
  "dotted_lower s = (if starts_with s [CHR 0xC4, CHR 0xB0]
     then [CHR 0x69, CHR 0xCC, CHR 0x87] @ map ascii_lower (drop 2 s) else map ascii_lower s)"

text \<open>
  The keyword loop cuts the match out of the original text at positions found in the lower-case text, so
  it panics when lower-casing changes the length: with a lower-casing that maps the two bytes of the capital
  I with a dot (U+0130) to the three bytes Unicode gives for it, the text made of that letter and NDA
  panics for the keyword NDA.\<close>

lemma lowercase_length_panics:
  "analyze no_matches dotted_lower oc demo_engine ([CHR 0xC4, CHR 0xB0] @ ''NDA'') = Some Panic"
proof (cases oc)
  case True
  have "analyze no_matches dotted_lower True demo_engine ([CHR 0xC4, CHR 0xB0] @ ''NDA'') = Some Panic"
    by code_simp
  with True show ?thesis by simp
next
  case False
  have "analyze no_matches dotted_lower False demo_engine ([CHR 0xC4, CHR 0xB0] @ ''NDA'') = Some Panic"
    by code_simp
  with False show ?thesis by simp
qed

text \<open>
  The two card numbers of the demonstration both fail the Luhn check, including the one whose comment
  calls it valid.\<close>

lemma demo_cards_fail_luhn:
  "\<not> validate_luhn ''4000 1234 5678 9010'' \<and> \<not> validate_luhn ''1111-1111-1111-1111''"
proof
  show "\<not> validate_luhn ''4000 1234 5678 9010''" by code_simp
  show "\<not> validate_luhn ''1111-1111-1111-1111''" by code_simp
qed

end
