(* ===== verification/Anti_Ddos.thy ===== *)
theory Anti_Ddos
  imports Interfaces Rust_Net
begin

text \<open>
  The anti-DDoS proxy (\<^verbatim>\<open>anti_ddos/src/main.rs\<close>): the registry of client statistics, the global
  limit on connections, the limit per client, the request rate, and the release of everything when
  a handler ends.

  The registry (a DashMap) and the semaphore (tokio) are parameters, collected in the record \<open>ops\<close>;
  their contracts are the locales \<open>kv_retain\<close> and \<open>semaphore\<close>. An entry of a DashMap is locked while it
  is held, so each block of the handler that holds one is one atomic operation here. Time is the
  nanosecond count of the monotonic clock.
\<close>

section \<open>State\<close>

record SocketAddr =
  ip :: ip_addr
  port :: u16

record IpStats =
  connection_count :: nat
  rps_count :: nat
  last_request_time :: int

record ('m, 's) AntiDDoSShield =
  ip_registry :: 'm
  global_connections :: 's

record ('m, 's) ops =
  dm_get :: "'m \<Rightarrow> SocketAddr \<Rightarrow> IpStats option"
  dm_put :: "SocketAddr \<Rightarrow> IpStats \<Rightarrow> 'm \<Rightarrow> 'm"
  dm_retain :: "(SocketAddr \<Rightarrow> IpStats \<Rightarrow> bool) \<Rightarrow> 'm \<Rightarrow> 'm"
  sem_try_acquire :: "'s \<Rightarrow> 's option"
  sem_release :: "'s \<Rightarrow> 's"

definition from_secs :: "int \<Rightarrow> int" where "from_secs n = n * 1000000000"
definition MAX_GLOBAL_CONNECTIONS :: nat where "MAX_GLOBAL_CONNECTIONS = 10000"
definition MAX_CONN_PER_IP :: nat where "MAX_CONN_PER_IP = 20"
definition BURST_WINDOW :: int where "BURST_WINDOW = from_secs 1"
definition MAX_RPS_PER_IP :: nat where "MAX_RPS_PER_IP = 50"

text \<open>\<^verbatim>\<open>Instant::duration_since\<close> saturates at zero.\<close>

definition duration_since :: "int \<Rightarrow> int \<Rightarrow> int" where
  "duration_since now t = max 0 (now - t)"

section \<open>The atomic operations of the handler\<close>

datatype drop_reason = Global_limit | Too_many_connections | Read_timeout | Io_error | Rps_exceeded
  | Upstream_unavailable

type_synonym ('m, 's) shield = "('m, 's) AntiDDoSShield"

definition acquire :: "('m, 's) ops \<Rightarrow> ('m, 's) shield \<Rightarrow> ('m, 's) shield option" where
  "acquire D s = map_option (\<lambda>p. s\<lparr>global_connections := p\<rparr>) (sem_try_acquire D (global_connections s))"

definition entry_or_insert :: "('m, 's) ops \<Rightarrow> SocketAddr \<Rightarrow> IpStats \<Rightarrow> 'm \<Rightarrow> IpStats" where
  "entry_or_insert D a new m = (case dm_get D m a of None \<Rightarrow> new | Some e \<Rightarrow> e)"

text \<open>The first block: the entry is created if need be, also when the client is then refused.\<close>

definition register :: "('m, 's) ops \<Rightarrow> SocketAddr \<Rightarrow> int \<Rightarrow> ('m, 's) shield \<Rightarrow> ('m, 's) shield \<times> bool" where
  "register D a now s =
     (let entry = entry_or_insert D a
            \<lparr>connection_count = 0, rps_count = 0, last_request_time = now\<rparr> (ip_registry s)
      in if connection_count entry \<ge> MAX_CONN_PER_IP
         then (s\<lparr>ip_registry := dm_put D a entry (ip_registry s)\<rparr>, False)
         else (s\<lparr>ip_registry := dm_put D a (entry\<lparr>connection_count := connection_count entry + 1\<rparr>) (ip_registry s)\<rparr>,
               True))"

text \<open>The rate limit on one entry: the new entry and whether the request passes.\<close>

definition rate :: "int \<Rightarrow> IpStats \<Rightarrow> IpStats \<times> bool" where
  "rate now entry =
     (if duration_since now (last_request_time entry) > BURST_WINDOW
      then (entry\<lparr>rps_count := 1, last_request_time := now\<rparr>, True)
      else (let entry' = entry\<lparr>rps_count := rps_count entry + 1\<rparr>
            in (entry', \<not> rps_count entry' > MAX_RPS_PER_IP)))"

definition rate_limit :: "('m, 's) ops \<Rightarrow> SocketAddr \<Rightarrow> int \<Rightarrow> int \<Rightarrow> ('m, 's) shield \<Rightarrow> ('m, 's) shield \<times> bool" where
  "rate_limit D a t_entry now s =
     (let entry = entry_or_insert D a
            \<lparr>connection_count = 1, rps_count = 0, last_request_time = t_entry\<rparr> (ip_registry s);
          (entry', ok) = rate now entry
      in (s\<lparr>ip_registry := dm_put D a entry' (ip_registry s)\<rparr>, ok))"

text \<open>The scope guard's closure, and the drop of the permit after it.\<close>

definition cleanup :: "('m, 's) ops \<Rightarrow> SocketAddr \<Rightarrow> ('m, 's) shield \<Rightarrow> ('m, 's) shield" where
  "cleanup D a s =
     (case dm_get D (ip_registry s) a of
        None \<Rightarrow> s
      | Some entry \<Rightarrow>
          if connection_count entry > 0
          then s\<lparr>ip_registry := dm_put D a (entry\<lparr>connection_count := connection_count entry - 1\<rparr>) (ip_registry s)\<rparr>
          else s)"

definition drop_permit :: "('m, 's) ops \<Rightarrow> ('m, 's) shield \<Rightarrow> ('m, 's) shield" where
  "drop_permit D s = s\<lparr>global_connections := sem_release D (global_connections s)\<rparr>"

text \<open>The sweep every 30 seconds.\<close>

definition sweep :: "('m, 's) ops \<Rightarrow> int \<Rightarrow> ('m, 's) shield \<Rightarrow> ('m, 's) shield" where
  "sweep D now s = s\<lparr>ip_registry := dm_retain D
     (\<lambda>_ stats. duration_since now (last_request_time stats) < from_secs 60 \<or> connection_count stats > 0)
     (ip_registry s)\<rparr>"

section \<open>The scope guard\<close>

text \<open>A guard holds its data and a closure; dropping it takes the closure out and runs it, at most once.\<close>

record ('t, 'st) Guard =
  guard_data :: 't
  drop_fn :: "('t \<Rightarrow> 'st \<Rightarrow> 'st) option"

definition guard :: "'t \<Rightarrow> ('t \<Rightarrow> 'st \<Rightarrow> 'st) \<Rightarrow> ('t, 'st) Guard" where
  "guard data f = \<lparr>guard_data = data, drop_fn = Some f\<rparr>"

definition guard_drop :: "('t, 'st) Guard \<Rightarrow> 'st \<Rightarrow> ('t, 'st) Guard \<times> 'st" where
  "guard_drop g st =
     (case drop_fn g of
        Some f \<Rightarrow> (g\<lparr>drop_fn := None\<rparr>, f (guard_data g) st)
      | None \<Rightarrow> (g, st))"

lemma snd_guard_drop [simp]: "snd (guard_drop (guard data f) st) = f data st"
  by (simp add: guard_def guard_drop_def)

lemma guard_runs_once: "guard_drop g st = (g', st') \<Longrightarrow> guard_drop g' st'' = (g', st'')"
  by (auto simp: guard_drop_def split: option.splits)

section \<open>The handler\<close>

text \<open>
  The outcomes of the handler's I/O: the timed read, the timed connection to the upstream with the
  first write, and the copying of the rest.
\<close>

datatype read_outcome = Read_timed_out | Read_failed | Bytes_read nat
datatype upstream_outcome = Connect_timed_out | Connect_failed | Write_failed | Copied | Copy_failed

definition handle_client ::
    "('m, 's) ops \<Rightarrow> SocketAddr \<Rightarrow> int \<Rightarrow> read_outcome \<Rightarrow> int \<Rightarrow> int \<Rightarrow> upstream_outcome \<Rightarrow> ('m, 's) shield
     \<Rightarrow> (drop_reason + unit) \<times> ('m, 's) shield" where
  "handle_client D client_addr t1 rd t2 t3 up s =
     (case acquire D s of
        None \<Rightarrow> (Inl Global_limit, s)
      | Some s1 \<Rightarrow>
          (case register D client_addr t1 s1 of
             (s2, False) \<Rightarrow> (Inl Too_many_connections, drop_permit D s2)
           | (s2, True) \<Rightarrow>
               (let (res, s3) =
                  (case rd of
                     Read_timed_out \<Rightarrow> (Inl Read_timeout, s2)
                   | Read_failed \<Rightarrow> (Inl Io_error, s2)
                   | Bytes_read n \<Rightarrow>
                       (if n = 0 then (Inr (), s2)
                        else case rate_limit D client_addr t2 t3 s2 of
                            (s3, False) \<Rightarrow> (Inl Rps_exceeded, s3)
                          | (s3, True) \<Rightarrow>
                              (case up of
                                 Connect_timed_out \<Rightarrow> (Inl Upstream_unavailable, s3)
                               | Connect_failed \<Rightarrow> (Inl Io_error, s3)
                               | Write_failed \<Rightarrow> (Inl Io_error, s3)
                               | Copy_failed \<Rightarrow> (Inl Io_error, s3)
                               | Copied \<Rightarrow> (Inr (), s3))))
                in (res, drop_permit D (snd (guard_drop (guard () (\<lambda>_. cleanup D client_addr)) s3))))))"

section \<open>Many handlers at once\<close>

text \<open>
  The tasks the listener has spawned, each with its client and the point it has reached. Tasks
  interleave at their operations on the shared shield; the sweeper runs in between.
\<close>

datatype phase = New | Permit | Registered | Limited | Closing | Releasing | Finished

type_synonym task = "SocketAddr \<times> phase"

record ('m, 's) system =
  shield :: "('m, 's) shield"
  tasks :: "task list"

abbreviation set_phase :: "('m, 's) system \<Rightarrow> ('m, 's) shield \<Rightarrow> nat \<Rightarrow> SocketAddr \<Rightarrow> phase \<Rightarrow> ('m, 's) system" where
  "set_phase y s i a ph \<equiv> y\<lparr>shield := s, tasks := (tasks y)[i := (a, ph)]\<rparr>"

text \<open>
  The steps are labelled with what they ask of the clock: the registration of a client, the check of its rate (with
  the time for an entry that has to be made, the time of the check, and its outcome), and the sweep.
\<close>

datatype sys_label = Silent | Registration SocketAddr int bool | Rate_check SocketAddr int int bool | Sweeping int

inductive sys_event :: "('m, 's) ops \<Rightarrow> ('m, 's) system \<Rightarrow> sys_label \<Rightarrow> ('m, 's) system \<Rightarrow> bool" for D where
  accept: "sys_event D y Silent (y\<lparr>tasks := tasks y @ [(a, New)]\<rparr>)"
| acquired: "i < length (tasks y) \<Longrightarrow> tasks y ! i = (a, New) \<Longrightarrow> acquire D (shield y) = Some s \<Longrightarrow>
    sys_event D y Silent (set_phase y s i a Permit)"
| refused: "i < length (tasks y) \<Longrightarrow> tasks y ! i = (a, New) \<Longrightarrow> acquire D (shield y) = None \<Longrightarrow>
    sys_event D y Silent (set_phase y (shield y) i a Finished)"
| registered: "i < length (tasks y) \<Longrightarrow> tasks y ! i = (a, Permit) \<Longrightarrow> register D a now (shield y) = (s, ok) \<Longrightarrow>
    sys_event D y (Registration a now ok) (set_phase y s i a (if ok then Registered else Releasing))"
| read_ended: "i < length (tasks y) \<Longrightarrow> tasks y ! i = (a, Registered) \<Longrightarrow>
    sys_event D y Silent (set_phase y (shield y) i a Closing)"
| limited: "i < length (tasks y) \<Longrightarrow> tasks y ! i = (a, Registered) \<Longrightarrow> rate_limit D a t_entry now (shield y) = (s, ok) \<Longrightarrow>
    sys_event D y (Rate_check a t_entry now ok) (set_phase y s i a (if ok then Limited else Closing))"
| proxied: "i < length (tasks y) \<Longrightarrow> tasks y ! i = (a, Limited) \<Longrightarrow>
    sys_event D y Silent (set_phase y (shield y) i a Closing)"
| cleaned: "i < length (tasks y) \<Longrightarrow> tasks y ! i = (a, Closing) \<Longrightarrow>
    sys_event D y Silent (set_phase y (cleanup D a (shield y)) i a Releasing)"
| released: "i < length (tasks y) \<Longrightarrow> tasks y ! i = (a, Releasing) \<Longrightarrow>
    sys_event D y Silent (set_phase y (drop_permit D (shield y)) i a Finished)"
| swept: "sys_event D y (Sweeping now) (y\<lparr>shield := sweep D now (shield y)\<rparr>)"

definition sys_step :: "('m, 's) ops \<Rightarrow> ('m, 's) system \<Rightarrow> ('m, 's) system \<Rightarrow> bool" where
  "sys_step D y z \<longleftrightarrow> (\<exists>l. sys_event D y l z)"

definition start :: "'m \<Rightarrow> 's \<Rightarrow> ('m, 's) system" where
  "start m p = \<lparr>shield = \<lparr>ip_registry = m, global_connections = p\<rparr>, tasks = []\<rparr>"

section \<open>Counting tasks\<close>

definition holds_permit :: "task \<Rightarrow> bool" where
  "holds_permit t \<longleftrightarrow> snd t \<in> {Permit, Registered, Limited, Closing, Releasing}"

definition is_counted :: "SocketAddr \<Rightarrow> task \<Rightarrow> bool" where
  "is_counted a t \<longleftrightarrow> fst t = a \<and> snd t \<in> {Registered, Limited, Closing}"

definition cnt :: "('a \<Rightarrow> bool) \<Rightarrow> 'a list \<Rightarrow> nat" where
  "cnt P xs = length (filter P xs)"

lemma cnt_append [simp]: "cnt P (xs @ ys) = cnt P xs + cnt P ys"
  by (simp add: cnt_def)

lemma cnt_simps [simp]: "cnt P [] = 0" "cnt P (x # xs) = of_bool (P x) + cnt P xs"
  by (simp_all add: cnt_def)

lemma cnt_update:
  "i < length xs \<Longrightarrow> cnt P (xs[i := y]) + of_bool (P (xs ! i)) = cnt P xs + of_bool (P y)"
proof (induction xs arbitrary: i)
  case (Cons x xs)
  show ?case
  proof (cases i)
    case (Suc j)
    with Cons.IH [of j] Cons.prems show ?thesis by simp
  qed simp
qed simp

lemma cnt_pos: "i < length xs \<Longrightarrow> P (xs ! i) \<Longrightarrow> cnt P xs > 0"
  by (auto simp: cnt_def length_greater_0_conv filter_empty_conv)

text \<open>The connections the registry counts for a client.\<close>

definition connections :: "('m, 's) ops \<Rightarrow> ('m, 's) shield \<Rightarrow> SocketAddr \<Rightarrow> nat" where
  "connections D s a = (case dm_get D (ip_registry s) a of None \<Rightarrow> 0 | Some e \<Rightarrow> connection_count e)"

text \<open>
  The invariant: free permits and tasks that hold one add up, and the registry counts exactly the
  tasks between their registration and their clean-up, at most 20 of them per client address.
\<close>

definition sys_ok :: "('m, 's) ops \<Rightarrow> ('s \<Rightarrow> nat) \<Rightarrow> nat \<Rightarrow> ('m, 's) system \<Rightarrow> bool" where
  "sys_ok D permits n y \<longleftrightarrow> permits (global_connections (shield y)) + cnt holds_permit (tasks y) = n
     \<and> (\<forall>a. connections D (shield y) a = cnt (is_counted a) (tasks y)
            \<and> cnt (is_counted a) (tasks y) \<le> MAX_CONN_PER_IP)"

definition sys_init :: "('m, 's) ops \<Rightarrow> ('s \<Rightarrow> nat) \<Rightarrow> nat \<Rightarrow> ('m, 's) system \<Rightarrow> bool" where
  "sys_init D permits n y \<longleftrightarrow> (\<exists>m p. y = start m p \<and> (\<forall>a. dm_get D m a = None) \<and> permits p = n)"

section \<open>The contract of the containers\<close>

locale shield_api =
  reg: kv_retain "dm_get D" "dm_put D" "dm_retain D" +
  sem: semaphore permits "sem_try_acquire D" "sem_release D"
  for D :: "('m, 's) ops" and permits :: "'s \<Rightarrow> nat"
begin

lemma acquire_counts:
  "acquire D s = Some s' \<Longrightarrow> permits (global_connections s) = Suc (permits (global_connections s'))
     \<and> connections D s' a = connections D s a"
  by (auto simp: acquire_def connections_def dest: sem.acquire_Some)

lemma register_counts:
  assumes "register D a now s = (s', ok)"
  shows "ok \<longleftrightarrow> connections D s a < MAX_CONN_PER_IP"
    and "connections D s' b = connections D s b + of_bool (ok \<and> b = a)"
    and "global_connections s' = global_connections s"
  using assms
  by (auto simp: register_def connections_def entry_or_insert_def Let_def reg.get_put MAX_CONN_PER_IP_def
      split: option.splits if_splits)

lemma rate_limit_counts:
  assumes "rate_limit D a t now s = (s', ok)" and "connections D s a > 0"
  shows "connections D s' b = connections D s b" and "global_connections s' = global_connections s"
  using assms
  by (auto simp: rate_limit_def rate_def connections_def entry_or_insert_def Let_def reg.get_put
      split: option.splits if_splits)

lemma cleanup_counts:
  "connections D (cleanup D a s) b = connections D s b - of_bool (b = a)"
  "global_connections (cleanup D a s) = global_connections s"
  by (auto simp: cleanup_def connections_def reg.get_put split: option.splits)

lemma drop_permit_counts:
  "connections D (drop_permit D s) b = connections D s b"
  "permits (global_connections (drop_permit D s)) = Suc (permits (global_connections s))"
  by (auto simp: drop_permit_def connections_def sem.release_permits)

lemma sweep_counts:
  "connections D (sweep D now s) b = connections D s b" "global_connections (sweep D now s) = global_connections s"
  by (auto simp: sweep_def connections_def reg.get_retain split: option.splits)

lemma sys_ok_update:
  assumes "sys_ok D permits n y" and "i < length (tasks y)" and "tasks y ! i = (a, ph)"
    and "permits (global_connections s) + of_bool (holds_permit (a, ph'))
       = permits (global_connections (shield y)) + of_bool (holds_permit (a, ph))"
    and "\<And>b. connections D s b + of_bool (is_counted b (a, ph))
       = connections D (shield y) b + of_bool (is_counted b (a, ph'))"
    and "\<And>b. connections D s b \<le> MAX_CONN_PER_IP"
  shows "sys_ok D permits n (set_phase y s i a ph')"
proof -
  have p: "cnt holds_permit ((tasks y)[i := (a, ph')]) + of_bool (holds_permit (a, ph))
      = cnt holds_permit (tasks y) + of_bool (holds_permit (a, ph'))"
    using cnt_update [OF assms(2), of holds_permit "(a, ph')"] assms(3) by simp
  have c: "cnt (is_counted b) ((tasks y)[i := (a, ph')]) + of_bool (is_counted b (a, ph))
      = cnt (is_counted b) (tasks y) + of_bool (is_counted b (a, ph'))" for b
    using cnt_update [OF assms(2), of "is_counted b" "(a, ph')"] assms(3) by simp
  have "connections D s b = cnt (is_counted b) ((tasks y)[i := (a, ph')])" for b
    using c [of b] assms(5) [of b] assms(1) by (simp add: sys_ok_def)
  moreover have "permits (global_connections s) + cnt holds_permit ((tasks y)[i := (a, ph')]) = n"
    using p assms(1,4) by (simp add: sys_ok_def)
  ultimately show ?thesis using assms(6) by (auto simp: sys_ok_def)
qed

lemma sys_ok_phase:
  assumes "sys_ok D permits n y" and "i < length (tasks y)" and "tasks y ! i = (a, ph)"
    and "holds_permit (a, ph') = holds_permit (a, ph)" and "\<And>b. is_counted b (a, ph') = is_counted b (a, ph)"
  shows "sys_ok D permits n (y\<lparr>tasks := (tasks y)[i := (a, ph')]\<rparr>)"
  using sys_ok_update [OF assms(1-3), of "shield y" ph'] assms(1,4,5) by (simp add: sys_ok_def)

lemmas counted_simps = holds_permit_def is_counted_def

lemma sys_ok_connections:
  assumes "sys_ok D permits n y" and "i < length (tasks y)" and "is_counted a (tasks y ! i)"
  shows "connections D (shield y) a > 0"
  using assms cnt_pos [of i "tasks y" "is_counted a"] by (simp add: sys_ok_def)

lemma sys_ok_le: "sys_ok D permits n y \<Longrightarrow> connections D (shield y) b \<le> MAX_CONN_PER_IP"
  by (simp add: sys_ok_def)

lemma sys_ok_event: "sys_ok D permits n y \<Longrightarrow> sys_event D y l z \<Longrightarrow> sys_ok D permits n z"
proof (erule sys_event.cases, goal_cases)
  case (1 y' a)
  then show ?case by (simp add: sys_ok_def counted_simps)
next
  case (2 i y' a s)
  then show ?case
    using acquire_counts [of "shield y" s] by (auto intro!: sys_ok_update simp: counted_simps sys_ok_le)
next
  case (3 i y' a)
  then show ?case by (auto intro!: sys_ok_phase simp: counted_simps)
next
  case (4 i y' a now s ok)
  then have reg: "register D a now (shield y) = (s, ok)" by simp
  have "connections D s b \<le> MAX_CONN_PER_IP" for b
    using register_counts(1,2) [OF reg] 4(1) sys_ok_le [OF 4(1), of b] by (cases "ok \<and> b = a") auto
  with 4 register_counts [OF reg] show ?case
    by (auto intro!: sys_ok_update simp: counted_simps)
next
  case (5 i y' a)
  then show ?case by (auto intro!: sys_ok_phase simp: counted_simps)
next
  case (6 i y' a t now s ok)
  then have "connections D (shield y) a > 0"
    by (intro sys_ok_connections [of n y i]) (simp_all add: is_counted_def)
  with 6 rate_limit_counts [of a t now "shield y" s ok] show ?case
    by (auto intro!: sys_ok_update simp: counted_simps sys_ok_le)
next
  case (7 i y' a)
  then show ?case by (auto intro!: sys_ok_phase simp: counted_simps)
next
  case (8 i y' a)
  then have pos: "connections D (shield y) a > 0"
    by (intro sys_ok_connections [of n y i]) (simp_all add: is_counted_def)
  from 8 have le: "connections D (shield y) b \<le> MAX_CONN_PER_IP" for b by (simp add: sys_ok_le)
  show ?case
    using 8 pos le by (auto intro!: sys_ok_update simp: counted_simps cleanup_counts le_diff_conv trans_le_add1)
next
  case (9 i y' a)
  then show ?case
    by (auto intro!: sys_ok_update simp: counted_simps drop_permit_counts sys_ok_le)
next
  case (10 y' now)
  then show ?case by (simp add: sys_ok_def sweep_counts)
qed

lemma sys_ok_step: "sys_ok D permits n y \<Longrightarrow> sys_step D y z \<Longrightarrow> sys_ok D permits n z"
  by (auto simp: sys_step_def intro: sys_ok_event)

lemma sys_ok_init: "sys_init D permits n y \<Longrightarrow> sys_ok D permits n y"
  by (auto simp: sys_init_def sys_ok_def start_def connections_def)

lemma handle_client_counts:
  assumes "handle_client D a t1 rd t2 t3 up s = (res, s')"
  shows "permits (global_connections s') = permits (global_connections s) \<and> connections D s' b = connections D s b"
proof (cases "acquire D s")
  case None
  with assms show ?thesis by (simp add: handle_client_def)
next
  case (Some s1)
  note acq = acquire_counts [OF Some]
  obtain s2 ok where reg: "register D a t1 s1 = (s2, ok)" by (cases "register D a t1 s1")
  note rc = register_counts [OF reg]
  have finish: "permits (global_connections (drop_permit D (cleanup D a s3))) = permits (global_connections s)
      \<and> connections D (drop_permit D (cleanup D a s3)) b = connections D s b"
    if "ok" "global_connections s3 = global_connections s2" "\<And>b. connections D s3 b = connections D s2 b" for s3
    using that acq rc by (simp add: drop_permit_counts cleanup_counts)
  show ?thesis
  proof (cases ok)
    case False
    with assms Some reg acq rc show ?thesis
      by (auto simp: handle_client_def drop_permit_counts)
  next
    case True
    obtain s3 ok3 where lim: "rate_limit D a t2 t3 s2 = (s3, ok3)" by (cases "rate_limit D a t2 t3 s2")
    have "connections D s2 a > 0" using rc(2) [of a] True by simp
    note lc = rate_limit_counts [OF lim this]
    from assms Some reg True lim have "s' = drop_permit D (cleanup D a s2) \<or> s' = drop_permit D (cleanup D a s3)"
      by (auto simp: handle_client_def Let_def split: read_outcome.splits if_splits upstream_outcome.splits bool.splits)
    with finish [OF True, of s2] finish [OF True, of s3] lc show ?thesis by auto
  qed
qed

text \<open>A client address without an entry is admitted as long as permits are left.\<close>

lemma fresh_admitted:
  assumes "permits (global_connections s) > 0" and "dm_get D (ip_registry s) a = None"
  shows "\<exists>s1 s2. acquire D s = Some s1 \<and> register D a now s1 = (s2, True)
     \<and> permits (global_connections s2) = permits (global_connections s) - 1
     \<and> dm_get D (ip_registry s2) = (dm_get D (ip_registry s))(a \<mapsto> \<lparr>connection_count = 1, rps_count = 0, last_request_time = now\<rparr>)"
proof -
  obtain p where p: "sem_try_acquire D (global_connections s) = Some p" "permits p = permits (global_connections s) - 1"
    using sem.acquire_pos [OF assms(1)] by blast
  with assms(2) show ?thesis
    by (simp add: acquire_def register_def entry_or_insert_def reg.get_put MAX_CONN_PER_IP_def)
qed

end

sublocale shield_api \<subseteq> sys: inv_system "sys_init D permits n" "sys_step D" "sys_ok D permits n" for n
  by unfold_locales (auto intro: sys_ok_init sys_ok_step)

context shield_api
begin

lemma sys_reachable_ok: "sys_init D permits n y \<Longrightarrow> (sys_step D)\<^sup>*\<^sup>* y z \<Longrightarrow> sys_ok D permits n z"
  by (rule sys.inv_reachable)

end

text \<open>The standard instance: a hash map and a counter.\<close>

definition std_ops :: "((SocketAddr, IpStats) hashmap, nat) ops" where
  "std_ops = \<lparr>dm_get = hm_get, dm_put = hm_insert, dm_retain = hm_retain,
     sem_try_acquire = count_try_acquire, sem_release = Suc\<rparr>"

interpretation std: shield_api std_ops "\<lambda>n. n"
  using hm.kv_retain_axioms count.semaphore_axioms by (simp add: shield_api_def std_ops_def)

section \<open>The request rate\<close>

text \<open>The clock readings of a step, and the checks that a client address passes.\<close>

fun readings :: "sys_label \<Rightarrow> int list" where
  "readings Silent = []"
| "readings (Registration a now ok) = [now]"
| "readings (Rate_check a t_entry now ok) = [t_entry, now]"
| "readings (Sweeping now) = [now]"

fun passes :: "SocketAddr \<Rightarrow> sys_label \<Rightarrow> bool" where
  "passes a (Rate_check b t_entry now ok) = (b = a \<and> ok)"
| "passes a _ = False"

definition within :: "int \<Rightarrow> sys_label \<Rightarrow> bool" where
  "within x l \<longleftrightarrow> list_all (\<lambda>t. x \<le> t \<and> t \<le> x + BURST_WINDOW) (readings l)"

text \<open>
  How many checks an address can still pass in the window from \<open>x\<close> on: an entry that dates from before the window
  can be reset once.
\<close>

definition allowance :: "int \<Rightarrow> IpStats option \<Rightarrow> nat" where
  "allowance x e =
     (case e of
        None \<Rightarrow> MAX_RPS_PER_IP
      | Some e \<Rightarrow> (MAX_RPS_PER_IP - rps_count e) + (if last_request_time e < x then MAX_RPS_PER_IP else 0))"

lemma rate_allowance:
  assumes "rate now e = (e', ok)" and "x \<le> now" and "now \<le> x + BURST_WINDOW"
  shows "allowance x (Some e') + of_bool ok \<le> allowance x (Some e)"
  using assms
  by (auto simp: rate_def allowance_def duration_since_def MAX_RPS_PER_IP_def Let_def split: if_splits)

definition left_of :: "('m, 's) ops \<Rightarrow> int \<Rightarrow> SocketAddr \<Rightarrow> ('m, 's) shield \<Rightarrow> nat" where
  "left_of D x a s = allowance x (dm_get D (ip_registry s) a)"

lemma left_of_le: "left_of D x a s \<le> 2 * MAX_RPS_PER_IP"
  by (auto simp: left_of_def allowance_def split: option.split)

context shield_api
begin

lemma register_left:
  "register D b now s = (s', ok) \<Longrightarrow> x \<le> now \<Longrightarrow> left_of D x a s' \<le> left_of D x a s"
  by (auto simp: register_def left_of_def entry_or_insert_def allowance_def reg.get_put Let_def
      split: option.splits if_splits)

lemma rate_limit_left:
  assumes "rate_limit D b t_entry now s = (s', ok)" and "x \<le> t_entry" and "x \<le> now" and "now \<le> x + BURST_WINDOW"
  shows "left_of D x a s' + of_bool (b = a \<and> ok) \<le> left_of D x a s"
proof -
  let ?e = "entry_or_insert D b \<lparr>connection_count = 1, rps_count = 0, last_request_time = t_entry\<rparr> (ip_registry s)"
  obtain e' where rate: "rate now ?e = (e', ok)" and s': "s' = s\<lparr>ip_registry := dm_put D b e' (ip_registry s)\<rparr>"
    using assms(1) by (auto simp: rate_limit_def Let_def split: prod.splits)
  have "allowance x (Some ?e) \<le> allowance x (dm_get D (ip_registry s) b)"
    using assms(2) by (auto simp: entry_or_insert_def allowance_def split: option.splits)
  with rate_allowance [OF rate assms(3,4)] show ?thesis
    by (auto simp: left_of_def s' reg.get_put)
qed

lemma cleanup_left: "left_of D x a (cleanup D b s) = left_of D x a s"
  by (auto simp: cleanup_def left_of_def allowance_def reg.get_put split: option.splits)

lemma sweep_left: "x \<le> now \<Longrightarrow> now \<le> x + BURST_WINDOW \<Longrightarrow> left_of D x a (sweep D now s) \<le> left_of D x a s"
  by (auto simp: sweep_def left_of_def allowance_def reg.get_retain duration_since_def BURST_WINDOW_def from_secs_def
      split: option.splits)

lemma event_left:
  assumes "sys_event D y l z" and "within x l"
  shows "left_of D x a (shield z) + of_bool (passes a l) \<le> left_of D x a (shield y)"
  using assms
proof cases
  case (registered i b now s ok)
  then show ?thesis using register_left [of b now "shield y" s ok x a] assms(2) by (simp add: within_def)
next
  case (limited i b t_entry now s ok)
  then show ?thesis using rate_limit_left [of b t_entry now "shield y" s ok x a] assms(2) by (simp add: within_def)
next
  case (swept now)
  then show ?thesis using sweep_left [of x now a "shield y"] assms(2) by (simp add: within_def)
next
  case (cleaned i b)
  then show ?thesis by (simp add: cleanup_left)
qed (auto simp: acquire_def drop_permit_def left_of_def)

lemma trace_left:
  "trace (sys_event D) y ls z \<Longrightarrow> list_all (within x) ls \<Longrightarrow>
   left_of D x a (shield z) + length (filter (passes a) ls) \<le> left_of D x a (shield y)"
proof (induction rule: trace.induct)
  case (trace_snoc y ls z l u)
  then show ?case using event_left [OF trace_snoc.hyps(2), of x a] by (cases "passes a l") auto
qed simp

end

section \<open>Properties\<close>

text \<open>
  C5: However the handlers and the sweeper interleave, starting from an empty registry and a full semaphore: at
  most MAX_GLOBAL_CONNECTIONS handlers hold a permit, the registry's connection count of every client address
  is exactly the number of its handlers between registration and clean-up, never above MAX_CONN_PER_IP, and
  when every handler has finished all permits are back and every count is zero.\<close>

theorem shield_accounts_for_all:
  assumes "shield_api D permits" and "\<And>a. dm_get D m a = None" and "permits p = MAX_GLOBAL_CONNECTIONS"
    and "(sys_step D)\<^sup>*\<^sup>* (start m p) y"
  shows "cnt holds_permit (tasks y) \<le> MAX_GLOBAL_CONNECTIONS
     \<and> (\<forall>a. connections D (shield y) a = cnt (is_counted a) (tasks y) \<and> connections D (shield y) a \<le> MAX_CONN_PER_IP)
     \<and> (list_all (\<lambda>t. snd t = Finished) (tasks y) \<longrightarrow>
          permits (global_connections (shield y)) = MAX_GLOBAL_CONNECTIONS \<and> (\<forall>a. connections D (shield y) a = 0))"
proof -
  have "sys_init D permits MAX_GLOBAL_CONNECTIONS (start m p)"
    using assms(2,3) by (auto simp: sys_init_def)
  from shield_api.sys_reachable_ok [OF assms(1) this assms(4)] have ok: "sys_ok D permits MAX_GLOBAL_CONNECTIONS y" .
  have all_done: "cnt holds_permit (tasks y) = 0" "\<And>a. cnt (is_counted a) (tasks y) = 0"
    if "list_all (\<lambda>t. snd t = Finished) (tasks y)"
    using that by (auto simp: cnt_def filter_empty_conv list_all_iff holds_permit_def is_counted_def)
  from ok have "permits (global_connections (shield y)) + cnt holds_permit (tasks y) = MAX_GLOBAL_CONNECTIONS"
      "\<forall>a. connections D (shield y) a = cnt (is_counted a) (tasks y) \<and> cnt (is_counted a) (tasks y) \<le> MAX_CONN_PER_IP"
    by (auto simp: sys_ok_def)
  with all_done show ?thesis by fastforce
qed

theorem shield_accounts_for_all_witness:
  "\<exists>y. (sys_step std_ops)\<^sup>*\<^sup>* (start (\<lambda>_. None) MAX_GLOBAL_CONNECTIONS) y \<and> length (tasks y) = 1
     \<and> cnt holds_permit (tasks y) \<le> MAX_GLOBAL_CONNECTIONS"
proof -
  let ?y = "start (\<lambda>_ :: SocketAddr. None :: IpStats option) MAX_GLOBAL_CONNECTIONS"
  let ?z = "?y\<lparr>tasks := tasks ?y @ [(\<lparr>ip = V4 [10, 0, 0, 1], port = 9\<rparr>, New)]\<rparr>"
  have "sys_step std_ops ?y ?z" unfolding sys_step_def by (intro exI) (rule accept)
  then have step: "(sys_step std_ops)\<^sup>*\<^sup>* ?y ?z" by (rule r_into_rtranclp)
  have "dm_get std_ops (\<lambda>_. None) a = None" for a by (simp add: std_ops_def hm_get_def)
  from shield_accounts_for_all [OF std.shield_api_axioms this _ step] step show ?thesis
    by (intro exI [of _ ?z]) (simp add: start_def)
qed

text \<open>
  A handler that runs to its end, on any of its paths (refused, timed out, read error, end of stream, over
  the request rate, upstream errors, success), leaves the number of free permits and every connection count
  as it found them.\<close>

lemma handle_client_restores:
  assumes "shield_api D permits" and "handle_client D a t1 rd t2 t3 up s = (res, s')"
  shows "permits (global_connections s') = permits (global_connections s) \<and> (\<forall>b. connections D s' b = connections D s b)"
  using shield_api.handle_client_counts [OF assms] by blast

lemma handle_client_restores_example:
  "global_connections (snd (handle_client std_ops \<lparr>ip = V4 [10, 0, 0, 1], port = 9\<rparr> 1 (Bytes_read 3) 2 3 Write_failed
       \<lparr>ip_registry = (\<lambda>_. None), global_connections = 7\<rparr>)) = 7"
  using handle_client_restores [OF std.shield_api_axioms surjective_pairing, THEN conjunct1,
      of "\<lparr>ip = V4 [10, 0, 0, 1], port = 9\<rparr>" 1 "Bytes_read 3" 2 3 Write_failed
        "\<lparr>ip_registry = (\<lambda>_. None), global_connections = 7\<rparr>"]
  by simp

text \<open>
  C38: The limit on the rate bounds what passes the check: in any stretch of a run of the system, from any state, in which
  all clock readings lie within one BURST_WINDOW, at most twice MAX_RPS_PER_IP checks of one client socket address
  pass, whatever the other handlers and the sweeper do in between. (The window is a fixed one, hence the factor two. The check is
  made once per connection, for the first bytes it reads: what the connection sends later is copied without a
  check.)\<close>

theorem rate_bounded:
  assumes "shield_api D permits" and "trace (sys_event D) y ls z" and "list_all (within x) ls"
  shows "length (filter (passes a) ls) \<le> 2 * MAX_RPS_PER_IP"
  using shield_api.trace_left [OF assms, of a] left_of_le [of D x a "shield y"] by linarith

text \<open>Clients admitted one after the other (permit and registration), without any of them leaving.\<close>

fun admit_all :: "('m, 's) ops \<Rightarrow> int \<Rightarrow> SocketAddr list \<Rightarrow> ('m, 's) shield \<Rightarrow> ('m, 's) shield option" where
  "admit_all D now [] s = Some s"
| "admit_all D now (a # as) s =
     (case acquire D s of
        None \<Rightarrow> None
      | Some s1 \<Rightarrow> (case register D a now s1 of (s2, ok) \<Rightarrow> if ok then admit_all D now as s2 else None))"

lemma admit_all_fresh:
  assumes "shield_api D permits"
  shows "distinct as \<Longrightarrow> (\<And>a. a \<in> set as \<Longrightarrow> dm_get D (ip_registry s) a = None) \<Longrightarrow>
    length as \<le> permits (global_connections s) \<Longrightarrow> admit_all D now as s \<noteq> None"
proof (induction "as" arbitrary: s)
  case (Cons a "as")
  then have "permits (global_connections s) > 0" "dm_get D (ip_registry s) a = None" by auto
  from shield_api.fresh_admitted [OF assms this, of now] obtain s1 s2 where s:
      "acquire D s = Some s1" "register D a now s1 = (s2, True)"
      "permits (global_connections s2) = permits (global_connections s) - 1"
      "dm_get D (ip_registry s2) = (dm_get D (ip_registry s))(a \<mapsto> \<lparr>connection_count = 1, rps_count = 0, last_request_time = now\<rparr>)"
    by blast
  have "admit_all D now as s2 \<noteq> None"
    using Cons.prems by (intro Cons.IH) (auto simp: s)
  with s show ?case by simp
qed simp

theorem rate_bounded_witness:
  "\<exists>ls z. trace (sys_event std_ops)
       \<lparr>shield = \<lparr>ip_registry = (\<lambda>_. Some \<lparr>connection_count = 2, rps_count = 50, last_request_time = 0\<rparr>), global_connections = 7\<rparr>,
        tasks = [(\<lparr>ip = V4 [10, 0, 0, 1], port = 9\<rparr>, Registered), (\<lparr>ip = V4 [10, 0, 0, 1], port = 9\<rparr>, Registered)]\<rparr> ls z
     \<and> ls = [Rate_check \<lparr>ip = V4 [10, 0, 0, 1], port = 9\<rparr> 1000000000 1000000000 False,
           Rate_check \<lparr>ip = V4 [10, 0, 0, 1], port = 9\<rparr> 1000000001 1000000001 True]
     \<and> length (filter (passes \<lparr>ip = V4 [10, 0, 0, 1], port = 9\<rparr>) ls) \<le> 2 * MAX_RPS_PER_IP"
proof -
  let ?a = "\<lparr>ip = V4 [10, 0, 0, 1], port = 9\<rparr>"
  let ?y = "\<lparr>shield = \<lparr>ip_registry = (\<lambda>_. Some \<lparr>connection_count = 2, rps_count = 50, last_request_time = 0\<rparr>), global_connections = 7\<rparr>,
      tasks = [(?a, Registered), (?a, Registered)]\<rparr>"
  let ?l = "Rate_check ?a 1000000000 1000000000 False" and ?k = "Rate_check ?a 1000000001 1000000001 True"
  have dur: "duration_since 1000000000 0 = BURST_WINDOW" "BURST_WINDOW < duration_since 1000000001 0"
    by (simp_all add: duration_since_def BURST_WINDOW_def from_secs_def)
  obtain s1 where s1: "rate_limit std_ops ?a 1000000000 1000000000 (shield ?y) = (s1, False)"
    and e1: "ip_registry s1 ?a = Some \<lparr>connection_count = 2, rps_count = 51, last_request_time = 0\<rparr>"
    by (simp add: rate_limit_def entry_or_insert_def rate_def dur std_ops_def hashmap_defs MAX_RPS_PER_IP_def)
  let ?z = "set_phase ?y s1 0 ?a Closing"
  obtain s2 where s2: "rate_limit std_ops ?a 1000000001 1000000001 s1 = (s2, True)"
    using e1 dur by (simp add: rate_limit_def entry_or_insert_def rate_def std_ops_def hm_get_def)
  have "sys_event std_ops ?y ?l ?z"
    using limited [of 0 ?y ?a std_ops 1000000000 1000000000 s1 False] s1 by simp
  moreover have "sys_event std_ops ?z ?k (set_phase ?z s2 1 ?a Limited)"
    using limited [of 1 ?z ?a std_ops 1000000001 1000000001 s2 True] s2 by simp
  ultimately have run: "trace (sys_event std_ops) ?y [?l, ?k] (set_phase ?z s2 1 ?a Limited)"
    by (auto simp: trace_Cons_iff)
  have "list_all (within 1000000000) [?l, ?k]"
    by (simp add: within_def BURST_WINDOW_def from_secs_def)
  from rate_bounded [OF std.shield_api_axioms run this, of ?a] run show ?thesis by blast
qed

text \<open>
  The limit per client does not bound the connections of one IP address: the registry is keyed by the socket
  address, so any number of clients up to MAX_GLOBAL_CONNECTIONS that share one IP address and differ in
  their ports are all admitted.\<close>

lemma per_ip_limit_ineffective:
  assumes "shield_api D permits" and "\<And>a. dm_get D m a = None" and "permits p = MAX_GLOBAL_CONNECTIONS"
    and "distinct ports" and "length ports \<le> MAX_GLOBAL_CONNECTIONS"
  shows "admit_all D now (map (\<lambda>q. \<lparr>ip = host, port = q\<rparr>) ports) \<lparr>ip_registry = m, global_connections = p\<rparr> \<noteq> None"
  by (rule admit_all_fresh [OF assms(1)]) (use assms in \<open>auto simp: distinct_map inj_on_def\<close>)

lemma per_ip_limit_ineffective_example:
  "admit_all std_ops 0 (map (\<lambda>q. \<lparr>ip = V4 [10, 0, 0, 1], port = q\<rparr>) (map of_nat [0..<1000]))
     \<lparr>ip_registry = (\<lambda>_. None), global_connections = MAX_GLOBAL_CONNECTIONS\<rparr> \<noteq> None"
proof (rule per_ip_limit_ineffective [OF std.shield_api_axioms])
  show "dm_get std_ops (\<lambda>_. None) a = None" for a by (simp add: std_ops_def hm_get_def)
  show "distinct (map (of_nat :: nat \<Rightarrow> u16) [0..<1000])"
    by (auto simp: distinct_map inj_on_def of_nat_inverse unat_of_nat dest!: arg_cong [of _ _ unat])
qed (simp_all add: MAX_GLOBAL_CONNECTIONS_def)

end
