(* ===== verification/Siem.thy ===== *)
theory Siem
  imports Interfaces Rust_Text
begin

text \<open>
  The SIEM log processor (\<^verbatim>\<open>siem_clickhouse_processor/src/main.rs\<close>): the batching actor, the writer with
  its fallback to a local file, and the traffic generator.

  The ClickHouse client and the file system are the outcomes of their calls: \<open>ch\<close> says how the
  insert went, \<open>wal\<close> how the writes to the local file went. The serialiser (serde) is a parameter.
  A batch is committed by a successful \<^verbatim>\<open>end\<close>; after an error of \<^verbatim>\<open>end\<close> the rows may or may not be there.
  A writer runs as a whole: two spawned writers that append to the local file at the same time, and whose
  lines could then mix, are not modelled.
\<close>

section \<open>Data\<close>

record SiemEvent =
  event_id :: nat
  timestamp :: int
  event_type :: string
  source_ip :: string
  destination_ip :: string
  severity :: string
  message :: string

record Config =
  max_batch_size :: nat
  batch_timeout :: nat
  wal_path :: string

section \<open>The writer\<close>

datatype end_outcome = End_ok | End_failed bool

record ch =
  insert_ok :: bool
  write_ok :: "nat \<Rightarrow> bool"
  end_result :: end_outcome

text \<open>
  The local file: whether it opens, for the \<open>i\<close>-th write the number of bytes after which it fails
  (\<^const>\<open>None\<close>: it succeeds), and whether the flush succeeds.
\<close>

record wal =
  open_ok :: bool
  write_fails :: "nat \<Rightarrow> nat option"
  flush_ok :: bool

record store =
  rows :: "SiemEvent list"
  wal_file :: string

datatype siem_log = Insert_init_error | Validation_error | Commit_error | Redirecting_to_wal
  | Data_lost | Written nat | Saved_to_wal

definition file_write :: "wal \<Rightarrow> nat \<Rightarrow> string \<Rightarrow> string \<Rightarrow> string \<times> bool" where
  "file_write w i s content =
     (case write_fails w i of None \<Rightarrow> (content @ s, True) | Some k \<Rightarrow> (content @ take k s, False))"

text \<open>\<^verbatim>\<open>dump_to_wal\<close>: the content of the file and whether it returned \<^verbatim>\<open>Ok\<close>.\<close>

fun wal_loop ::
    "(SiemEvent \<Rightarrow> string option) \<Rightarrow> wal \<Rightarrow> nat \<Rightarrow> SiemEvent list \<Rightarrow> string \<Rightarrow> string \<times> bool" where
  "wal_loop ser w i [] content = (content, True)"
| "wal_loop ser w i (event # evs) content =
     (case ser event of
        None \<Rightarrow> (content, False)
      | Some serialized \<Rightarrow>
          (case file_write w i serialized content of
             (c1, False) \<Rightarrow> (c1, False)
           | (c1, True) \<Rightarrow>
               (case file_write w (i + 1) [CHR 0x0A] c1 of
                  (c2, False) \<Rightarrow> (c2, False)
                | (c2, True) \<Rightarrow> wal_loop ser w (i + 2) evs c2)))"

definition dump_to_wal ::
    "(SiemEvent \<Rightarrow> string option) \<Rightarrow> wal \<Rightarrow> SiemEvent list \<Rightarrow> string \<Rightarrow> string \<times> bool \<times> siem_log list" where
  "dump_to_wal ser w batch content =
     (if \<not> open_ok w then (content, False, [])
      else case wal_loop ser w 0 batch content of
          (c, False) \<Rightarrow> (c, False, [])
        | (c, True) \<Rightarrow> if \<not> flush_ok w then (c, False, []) else (c, True, [Saved_to_wal]))"

definition write_batch ::
    "(SiemEvent \<Rightarrow> string option) \<Rightarrow> ch \<Rightarrow> wal \<Rightarrow> SiemEvent list \<Rightarrow> store \<Rightarrow> store \<times> siem_log list" where
  "write_batch ser c w batch st =
     (if batch = [] then (st, [])
      else if \<not> insert_ok c then
        (let (content, ok, out) = dump_to_wal ser w batch (wal_file st)
         in (st\<lparr>wal_file := content\<rparr>, Insert_init_error # out))
      else
        (let (failed, rows', out1) =
               (if \<not> list_all (write_ok c) [0..<length batch] then (True, rows st, [Validation_error])
                else case end_result c of
                    End_ok \<Rightarrow> (False, rows st @ batch, [Written (length batch)])
                  | End_failed there \<Rightarrow>
                      (True, if there then rows st @ batch else rows st, [Commit_error]))
         in if failed then
              (let (content, ok, out2) = dump_to_wal ser w batch (wal_file st)
               in (\<lparr>rows = rows', wal_file = content\<rparr>,
                   out1 @ [Redirecting_to_wal] @ out2 @ (if ok then [] else [Data_lost])))
            else (st\<lparr>rows := rows'\<rparr>, out1)))"

section \<open>The batching actor\<close>

text \<open>
  What the \<^verbatim>\<open>select!\<close> of the loop can see: an event from the channel, the closed channel, the timer.
  A batch is handed to the writer by a spawned task, or, the last one, awaited by the loop itself.
\<close>

datatype 'e seen = Event 'e | Closed | Timeout

datatype handover = Spawned | Awaited

record 'e BatchManager =
  buf :: "'e list"
  handed :: "(handover \<times> 'e list) list"
  taken :: "'e list"
  running :: bool

definition manager_new :: "'e BatchManager" where
  "manager_new = \<lparr>buf = [], handed = [], taken = [], running = True\<rparr>"

definition hand_over :: "handover \<Rightarrow> 'e BatchManager \<Rightarrow> 'e BatchManager" where
  "hand_over how m = m\<lparr>buf := [], handed := handed m @ [(how, buf m)]\<rparr>"

definition run_step :: "Config \<Rightarrow> 'e seen \<Rightarrow> 'e BatchManager \<Rightarrow> 'e BatchManager" where
  "run_step cfg x m =
     (if \<not> running m then m
      else case x of
          Event e \<Rightarrow>
            (let m' = m\<lparr>buf := buf m @ [e], taken := taken m @ [e]\<rparr>
             in if length (buf m') \<ge> max_batch_size cfg then hand_over Spawned m' else m')
        | Closed \<Rightarrow> (if buf m \<noteq> [] then hand_over Awaited m else m)\<lparr>running := False\<rparr>
        | Timeout \<Rightarrow> if buf m \<noteq> [] then hand_over Spawned m else m)"

definition run :: "Config \<Rightarrow> 'e seen list \<Rightarrow> 'e BatchManager" where
  "run cfg xs = fold (run_step cfg) xs manager_new"

section \<open>The traffic generator\<close>

definition severities :: "string list" where
  "severities = [''LOW'', ''MEDIUM'', ''HIGH'', ''CRITICAL'']"

definition types :: "string list" where
  "types = [''Auth_Failure'', ''Malware_Detected'', ''Port_Scan'', ''Data_Exfiltration'']"

definition siem_event :: "(nat \<Rightarrow> nat) \<Rightarrow> (nat \<Rightarrow> int) \<Rightarrow> nat \<Rightarrow> SiemEvent" where
  "siem_event uuid now counter =
     \<lparr>event_id = uuid counter, timestamp = now counter,
      event_type = types ! (counter mod length types),
      source_ip = ''192.168.1.'' @ show_nat (counter mod 254),
      destination_ip = ''10.0.0.1'',
      severity = severities ! (counter mod length severities),
      message = ''SIEM alert log sequence id: '' @ show_nat counter\<rparr>"

text \<open>The loop stops after the 50th event, or when the channel is closed.\<close>

function traffic :: "(nat \<Rightarrow> nat) \<Rightarrow> (nat \<Rightarrow> int) \<Rightarrow> (nat \<Rightarrow> bool) \<Rightarrow> nat \<Rightarrow> SiemEvent list" where
  "traffic uuid now send_ok counter =
     (let counter' = counter + 1; event = siem_event uuid now counter'
      in if \<not> send_ok counter' then []
         else if counter' \<ge> 50 then [event]
         else event # traffic uuid now send_ok counter')"
  by pat_completeness auto
termination
  by (relation "measure (\<lambda>(u, n, s, c). 50 - c)") auto

declare traffic.simps [simp del]

definition simulate_siem_traffic :: "(nat \<Rightarrow> nat) \<Rightarrow> (nat \<Rightarrow> int) \<Rightarrow> (nat \<Rightarrow> bool) \<Rightarrow> SiemEvent list" where
  "simulate_siem_traffic uuid now send_ok = traffic uuid now send_ok 0"

definition main_config :: Config where
  "main_config = \<lparr>max_batch_size = 20, batch_timeout = 1000, wal_path = ''siem_corrupted_events.wal''\<rparr>"

section \<open>The actor as a batching component\<close>

lemmas run_defs = run_step_def hand_over_def

interpretation siem: bounded_batcher
    "\<lambda>m. m = manager_new" "\<lambda>m m'. \<exists>x. m' = run_step cfg x m" taken "\<lambda>m. map snd (handed m)" buf
    "max 1 (max_batch_size cfg)" for cfg
proof (unfold_locales, goal_cases)
  case (1 s)
  then show ?case by (simp add: manager_new_def)
next
  case (2 s t)
  then obtain x where "t = run_step cfg x s" by blast
  then show ?case by (cases x) (auto simp: run_defs Let_def)
next
  case 3
  show ?case by simp
next
  case (4 s t)
  then obtain x where "t = run_step cfg x s" by blast
  with 4(2) show ?case by (cases x) (auto simp: run_defs Let_def)
qed

lemma run_snoc: "run cfg (xs @ [x]) = run_step cfg x (run cfg xs)"
  by (simp add: run_def)

lemma run_reachable: "(\<lambda>m m'. \<exists>x. m' = run_step cfg x m)\<^sup>*\<^sup>* manager_new (run cfg xs)"
proof (induction xs rule: rev_induct)
  case (snoc x xs)
  have "\<exists>y. run cfg (xs @ [x]) = run_step cfg y (run cfg xs)" by (auto simp: run_snoc)
  with snoc show ?case by (rule rtranclp.rtrancl_into_rtrancl)
qed (simp add: run_def)

fun events_of :: "'e seen list \<Rightarrow> 'e list" where
  "events_of [] = []"
| "events_of (Event e # xs) = e # events_of xs"
| "events_of (x # xs) = events_of xs"

lemma events_of_append: "events_of (xs @ ys) = events_of xs @ events_of ys"
  by (induction xs rule: events_of.induct) auto

lemma run_state:
  "running (run cfg xs) \<longleftrightarrow> Closed \<notin> set xs"
  "taken (run cfg xs) = events_of (takeWhile (\<lambda>x. x \<noteq> Closed) xs)"
  "Closed \<in> set xs \<Longrightarrow> buf (run cfg xs) = []"
proof (induction xs rule: rev_induct)
  case Nil
  {
    case 1
    show ?case by (simp add: run_def manager_new_def)
  next
    case 2
    show ?case by (simp add: run_def manager_new_def)
  next
    case 3
    then show ?case by simp
  }
next
  case (snoc x xs)
  {
    case 1
    show ?case using snoc by (cases x) (auto simp: run_snoc run_defs Let_def)
  next
    case 2
    show ?case
      using snoc by (cases x; cases "Closed \<in> set xs")
        (auto simp: run_snoc run_defs Let_def events_of_append takeWhile_append takeWhile_eq_all_conv [THEN iffD2])
  next
    case 3
    then show ?case using snoc by (cases x) (auto simp: run_snoc run_defs Let_def)
  }
qed

section \<open>The local file\<close>

text \<open>When saving a batch locally succeeds: the file opens, every event is serialised, no write and no flush fails.\<close>

definition wal_works :: "(SiemEvent \<Rightarrow> string option) \<Rightarrow> wal \<Rightarrow> SiemEvent list \<Rightarrow> bool" where
  "wal_works ser w batch \<longleftrightarrow> open_ok w \<and> flush_ok w \<and> list_all (\<lambda>e. ser e \<noteq> None) batch
     \<and> list_all (\<lambda>i. write_fails w i = None) [0..<2 * length batch]"

text \<open>When the database has taken a batch for sure.\<close>

definition committed :: "ch \<Rightarrow> SiemEvent list \<Rightarrow> bool" where
  "committed c batch \<longleftrightarrow> insert_ok c \<and> list_all (write_ok c) [0..<length batch] \<and> end_result c = End_ok"

lemma wal_loop_ok:
  assumes "wal_loop ser w i batch content = (content', ok)"
  shows "ok \<longleftrightarrow> list_all (\<lambda>e. ser e \<noteq> None) batch \<and> (\<forall>j < 2 * length batch. write_fails w (i + j) = None)"
  using assms
proof (induction batch arbitrary: i content)
  case (Cons e evs)
  from Cons.prems show ?case
    by (auto simp: file_write_def All_less_Suc2 split: option.splits dest!: Cons.IH)
qed simp

lemma wal_loop_content:
  assumes "wal_loop ser w i batch content = (content', True)"
  shows "content' = content @ unlines (map (the \<circ> ser) batch)"
  using assms
proof (induction batch arbitrary: i content)
  case (Cons e evs)
  from Cons.prems show ?case
    by (auto simp: file_write_def unlines_def split: option.splits dest!: Cons.IH)
qed (simp add: unlines_def)

lemma dump_to_wal_works:
  assumes "dump_to_wal ser w batch content = (content', ok, out)"
  shows "ok \<longleftrightarrow> wal_works ser w batch" and "out = (if ok then [Saved_to_wal] else [])"
    and "ok \<Longrightarrow> content' = content @ unlines (map (the \<circ> ser) batch)"
proof -
  obtain c k where loop: "wal_loop ser w 0 batch content = (c, k)"
    by (cases "wal_loop ser w 0 batch content")
  note ok = wal_loop_ok [OF this, simplified] wal_loop_content [of ser w 0 batch content c]
  from assms loop ok show "ok \<longleftrightarrow> wal_works ser w batch" "out = (if ok then [Saved_to_wal] else [])"
      "ok \<Longrightarrow> content' = content @ unlines (map (the \<circ> ser) batch)"
    by (auto simp: dump_to_wal_def wal_works_def list_all_iff split: if_splits bool.splits)
qed

lemma wal_lines:
  "list_all clean_line old \<Longrightarrow> (\<And>e. e \<in> set batch \<Longrightarrow> clean_line (the (ser e))) \<Longrightarrow>
   lines (unlines old @ unlines (map (the \<circ> ser) batch)) = old @ map (the \<circ> ser) batch"
  by (subst unlines_append [symmetric], rule lines_unlines) (auto simp: list_all_iff)

section \<open>Properties\<close>

text \<open>
  C14: The batching actor loses and reorders nothing: whatever sequence of events, timer expirations and
  closing it sees, the batches it handed to the writer followed by its buffer are exactly the events it took
  from the channel before it was closed; no batch is empty or larger than the configured size (one event, if that is
  zero); and once the channel is closed nothing is left in the buffer.\<close>

theorem siem_batches_exact:
  shows "concat (map snd (handed (run cfg xs))) @ buf (run cfg xs) = events_of (takeWhile (\<lambda>x. x \<noteq> Closed) xs)
     \<and> [] \<notin> snd ` set (handed (run cfg xs))
     \<and> (\<forall>b \<in> snd ` set (handed (run cfg xs)). length b \<le> max 1 (max_batch_size cfg))
     \<and> (Closed \<in> set xs \<longrightarrow> concat (map snd (handed (run cfg xs))) = events_of (takeWhile (\<lambda>x. x \<noteq> Closed) xs))"
proof -
  note reach = run_reachable [of cfg xs]
  have all: "concat (map snd (handed (run cfg xs))) @ buf (run cfg xs) = events_of (takeWhile (\<lambda>x. x \<noteq> Closed) xs)"
    using siem.conserved [OF refl reach] by (simp add: run_state(2))
  with siem.batches_nonempty [OF refl reach] siem.batches_bounded [OF refl reach] run_state(3) [of xs cfg]
  show ?thesis by auto
qed

theorem siem_batches_exact_witness:
  "concat (map snd (handed (run main_config [Event (1 :: nat), Timeout, Event 2, Closed, Event 3]))) = [1, 2]"
  using siem_batches_exact [of main_config "[Event (1 :: nat), Timeout, Event 2, Closed, Event 3]"] by simp

text \<open>
  C16: What becomes of a batch, for every outcome of the ClickHouse calls and of the local file. If the insert, every
  write and the commit succeed, the rows are appended, the local file is untouched, and only the success is logged. If
  one of them fails and saving to the local file succeeds, the file holds, line by line, its old records followed by
  the serialised batch, and this is logged, also when the insert could not even be initialised. If saving fails as
  well, it is not reported as saved, and the loss is logged exactly if the insert could be initialised: the one loss
  that is not logged is that of a batch whose insert could not be initialised. Without the commit no row is added,
  unless the commit failed after the server had already taken the batch.\<close>

theorem write_batch_outcome:
  assumes "write_batch ser c w batch st = (st', out)" and "batch \<noteq> []"
    and "wal_file st = unlines old" and "list_all clean_line old"
    and "\<And>e s. e \<in> set batch \<Longrightarrow> ser e = Some s \<Longrightarrow> clean_line s"
  shows "(committed c batch \<longrightarrow> st' = st\<lparr>rows := rows st @ batch\<rparr> \<and> out = [Written (length batch)])
     \<and> (\<not> committed c batch \<and> wal_works ser w batch \<longrightarrow>
          lines (wal_file st') = old @ map (the \<circ> ser) batch \<and> Saved_to_wal \<in> set out \<and> Data_lost \<notin> set out)
     \<and> (\<not> committed c batch \<and> \<not> wal_works ser w batch \<longrightarrow>
          Saved_to_wal \<notin> set out \<and> (Data_lost \<in> set out \<longleftrightarrow> insert_ok c))
     \<and> (\<not> committed c batch \<longrightarrow> rows st' = rows st \<or> end_result c = End_failed True \<and> rows st' = rows st @ batch)"
proof -
  obtain content ok out2 where dump: "dump_to_wal ser w batch (wal_file st) = (content, ok, out2)"
    by (cases "dump_to_wal ser w batch (wal_file st)") auto
  note works = dump_to_wal_works [OF dump]
  have saved: "lines content = old @ map (the \<circ> ser) batch" if ok
    using works(1) works(3) [OF that] that wal_lines [OF assms(4), of batch ser] assms(3,5)
    by (fastforce simp: wal_works_def list_all_iff)
  show ?thesis
    using assms(1,2) dump works(1,2) saved
    by (auto simp: write_batch_def committed_def Let_def split: if_splits end_outcome.splits)
qed

definition demo_event :: SiemEvent where
  "demo_event = siem_event (\<lambda>n. n) int 7"

theorem write_batch_outcome_witness:
  "lines (wal_file (fst (write_batch (\<lambda>e. Some (message e)) \<lparr>insert_ok = False, write_ok = (\<lambda>i. True), end_result = End_ok\<rparr>
      \<lparr>open_ok = True, write_fails = (\<lambda>i. None), flush_ok = True\<rparr> [demo_event] \<lparr>rows = [], wal_file = unlines [''old'']\<rparr>)))
   = [''old''] @ map (the \<circ> (\<lambda>e. Some (message e))) [demo_event]"
proof -
  let ?c = "\<lparr>insert_ok = False, write_ok = (\<lambda>i. True), end_result = End_ok\<rparr>"
  let ?w = "\<lparr>open_ok = True, write_fails = (\<lambda>i. None), flush_ok = True\<rparr>"
  let ?st = "\<lparr>rows = [], wal_file = unlines [''old'']\<rparr>"
  let ?r = "write_batch (\<lambda>e. Some (message e)) ?c ?w [demo_event] ?st"
  have "clean_line (message demo_event)" "clean_line ''old''" by code_simp+
  moreover have "\<not> committed ?c [demo_event]" "wal_works (\<lambda>e. Some (message e)) ?w [demo_event]"
    by (simp_all add: committed_def wal_works_def list_all_iff)
  ultimately show ?thesis
    using write_batch_outcome [OF surjective_pairing [of ?r], of "[''old'']"] by auto
qed

text \<open>
  From the generator to the batches: when every send succeeds the generator produces its 50 events, and
  the actor, whatever the timer does in between, hands over these 50 events in order, in nonempty batches of
  at most 20, once the channel is closed.\<close>

lemma siem_pipeline:
  assumes "\<And>n. send_ok n" and "events_of xs = simulate_siem_traffic uuid now send_ok" and "Closed \<notin> set xs"
  shows "concat (map snd (handed (run main_config (xs @ [Closed])))) = map (siem_event uuid now) [1..<51]
     \<and> (\<forall>b \<in> snd ` set (handed (run main_config (xs @ [Closed]))). b \<noteq> [] \<and> length b \<le> 20)"
proof -
  have gen: "traffic uuid now send_ok c = map (siem_event uuid now) [Suc c..<51]" if "c < 50" for c
    using that
  proof (induction "50 - c" arbitrary: c)
    case (Suc d)
    show ?case
    proof (cases "c = 49")
      case True
      then show ?thesis by (subst traffic.simps) (simp add: assms(1) upt_rec)
    next
      case False
      with Suc have "traffic uuid now send_ok (Suc c) = map (siem_event uuid now) [Suc (Suc c)..<51]" by simp
      with Suc.prems False show ?thesis
        by (subst traffic.simps) (simp add: assms(1) upt_conv_Cons)
    qed
  qed simp
  have "takeWhile (\<lambda>x. x \<noteq> Closed) (xs @ [Closed]) = xs"
    using assms(3) by (subst takeWhile_append2) auto
  then have "concat (map snd (handed (run main_config (xs @ [Closed])))) @ buf (run main_config (xs @ [Closed]))
      = map (siem_event uuid now) [1..<51]"
    using siem.conserved [OF refl run_reachable, of main_config "xs @ [Closed]"] assms(2) gen [of 0]
    by (simp add: run_state(2) simulate_siem_traffic_def)
  moreover have "buf (run main_config (xs @ [Closed])) = []"
    by (rule run_state(3)) simp
  moreover have "b \<noteq> [] \<and> length b \<le> 20" if "b \<in> snd ` set (handed (run main_config (xs @ [Closed])))" for b
  proof -
    have "max 1 (max_batch_size main_config) = 20" by (simp add: main_config_def)
    with siem.batches_nonempty [OF refl run_reachable, of main_config "xs @ [Closed]"]
      siem.batches_bounded [OF refl run_reachable, of main_config "xs @ [Closed]"] that
    show ?thesis by (metis list.set_map)
  qed
  ultimately show ?thesis by simp
qed

lemma siem_pipeline_example:
  "concat (map snd (handed (run main_config
      (map Event (simulate_siem_traffic (\<lambda>n. n) int (\<lambda>n. True)) @ [Closed])))) = map (siem_event (\<lambda>n. n) int) [1..<51]"
proof -
  have "events_of (map Event ys) = ys" for ys :: "SiemEvent list" by (induction ys) auto
  then show ?thesis
    using siem_pipeline [of "\<lambda>n. True" "map Event (simulate_siem_traffic (\<lambda>n. n) int (\<lambda>n. True))" "\<lambda>n. n" int] by auto
qed

end
