(* ===== verification/Dns_Telemetry.thy ===== *)
theory Dns_Telemetry
  imports Interfaces
begin

text \<open>
  The DNS telemetry collector (\<^verbatim>\<open>dns_telemetry/src/main.rs\<close>): the capture thread, the parsing loop and
  the worker that writes batches to ClickHouse, connected by two bounded channels.

  Packet slicing (etherparse), DNS decoding (hickory), capturing (pcap) and the ClickHouse client are
  parameters: a decoder from packets to messages, and the outcome of each flush. The channels are
  tokio's bounded queues, of which \<^verbatim>\<open>try_send\<close> is used: it refuses a value when the queue is full.
\<close>

section \<open>Data\<close>

datatype message_type = Query | Response

record dns_message =
  msg_id :: u16
  msg_kind :: message_type
  queries :: "(string \<times> string) list"
  msg_answers :: "string option list"

record DnsRecord =
  rec_timestamp :: int
  tx_id :: u16
  msg_type :: string
  query_type :: string
  domain :: string
  answers :: "string list"

text \<open>A query is its name and the debug form of its type; an answer is its formatted data, if any.\<close>

definition parse_dns_to_record :: "int \<Rightarrow> dns_message \<Rightarrow> DnsRecord option" where
  "parse_dns_to_record now msg =
     (case queries msg of
        [] \<Rightarrow> None
      | query # _ \<Rightarrow>
          (let (mt, ans) = (case msg_kind msg of
                  Query \<Rightarrow> (''Query'', [])
                | Response \<Rightarrow> (''Response'', List.map_filter (\<lambda>a. a) (msg_answers msg)))
           in Some \<lparr>rec_timestamp = now, tx_id = msg_id msg, msg_type = mt, query_type = snd query,
                    domain = fst query, answers = ans\<rparr>))"

section \<open>The parsing loop\<close>

record sliced =
  is_udp :: bool
  payload :: bytes

definition packet_record ::
    "(bytes \<Rightarrow> sliced option) \<Rightarrow> (bytes \<Rightarrow> dns_message option) \<Rightarrow> int \<Rightarrow> bytes \<Rightarrow> DnsRecord option" where
  "packet_record from_ethernet from_bytes now packet_data =
     (case from_ethernet packet_data of
        None \<Rightarrow> None
      | Some sl \<Rightarrow>
          if is_udp sl \<and> payload sl \<noteq> []
          then case from_bytes (payload sl) of
              None \<Rightarrow> None
            | Some dns_msg \<Rightarrow> parse_dns_to_record now dns_msg
          else None)"

definition try_send :: "nat \<Rightarrow> 'a \<Rightarrow> 'a list \<Rightarrow> 'a list" where
  "try_send cap x q = (if length q < cap then q @ [x] else q)"

section \<open>The worker\<close>

text \<open>
  How the calls of a flush go: whether the insert is created, which writes succeed, and whether the
  commit succeeds. A batch that leaves the worker is stored, or its fate is not confirmed; a failed
  write keeps the batch for the next flush.
\<close>

record flush_io =
  insert_ok :: bool
  write_ok :: "nat \<Rightarrow> bool"
  end_ok :: bool

datatype fate = Stored | Not_confirmed

record collector =
  packets :: "bytes list"
  logs :: "DnsRecord list"
  batch :: "DnsRecord list"
  received :: "DnsRecord list"
  flushed :: "(fate \<times> DnsRecord list) list"
  captured :: "bytes list"

definition flush_to_clickhouse :: "flush_io \<Rightarrow> collector \<Rightarrow> collector" where
  "flush_to_clickhouse io c =
     (if insert_ok io then
        if \<not> list_all (write_ok io) [0..<length (batch c)] then c
        else c\<lparr>batch := [], flushed := flushed c @ [(if end_ok io then Stored else Not_confirmed, batch c)]\<rparr>
      else c\<lparr>batch := [], flushed := flushed c @ [(Not_confirmed, batch c)]\<rparr>)"

definition worker_recv :: "flush_io \<Rightarrow> collector \<Rightarrow> collector" where
  "worker_recv io c =
     (case logs c of
        [] \<Rightarrow> c
      | record # rest \<Rightarrow>
          (let c' = c\<lparr>logs := rest, batch := batch c @ [record], received := received c @ [record]\<rparr>
           in if length (batch c') \<ge> 1000 then flush_to_clickhouse io c' else c'))"

definition worker_timer :: "flush_io \<Rightarrow> collector \<Rightarrow> collector" where
  "worker_timer io c = (if batch c \<noteq> [] then flush_to_clickhouse io c else c)"

definition sniff :: "bytes \<Rightarrow> collector \<Rightarrow> collector" where
  "sniff data c = c\<lparr>packets := try_send 10000 data (packets c), captured := captured c @ [data]\<rparr>"

definition parse_next ::
    "(bytes \<Rightarrow> sliced option) \<Rightarrow> (bytes \<Rightarrow> dns_message option) \<Rightarrow> int \<Rightarrow> collector \<Rightarrow> collector" where
  "parse_next from_ethernet from_bytes now c =
     (case packets c of
        [] \<Rightarrow> c
      | packet_data # rest \<Rightarrow>
          (case packet_record from_ethernet from_bytes now packet_data of
             None \<Rightarrow> c\<lparr>packets := rest\<rparr>
           | Some record \<Rightarrow> c\<lparr>packets := rest, logs := try_send 50000 record (logs c)\<rparr>))"

definition collector_new :: collector where
  "collector_new = \<lparr>packets = [], logs = [], batch = [], received = [], flushed = [], captured = []\<rparr>"

inductive collect_step ::
    "(bytes \<Rightarrow> sliced option) \<Rightarrow> (bytes \<Rightarrow> dns_message option) \<Rightarrow> collector \<Rightarrow> collector \<Rightarrow> bool"
  for from_ethernet from_bytes where
  "collect_step from_ethernet from_bytes c (sniff data c)"
| "collect_step from_ethernet from_bytes c (parse_next from_ethernet from_bytes now c)"
| "collect_step from_ethernet from_bytes c (worker_recv io c)"
| "collect_step from_ethernet from_bytes c (worker_timer io c)"

inductive_cases collect_stepE: "collect_step from_ethernet from_bytes c c'"

section \<open>The worker as a batching component\<close>

lemmas worker_defs = worker_recv_def worker_timer_def flush_to_clickhouse_def sniff_def parse_next_def

interpretation telemetry: batcher
    "\<lambda>c. c = collector_new" "collect_step from_ethernet from_bytes" received "\<lambda>c. map snd (flushed c)" batch
  for from_ethernet from_bytes
proof (unfold_locales, goal_cases)
  case (1 s)
  then show ?case by (simp add: collector_new_def)
next
  case (2 s t)
  then show ?case
    by (rule collect_stepE) (auto simp: worker_defs Let_def split: list.splits option.splits)
qed

definition queues_ok :: "collector \<Rightarrow> bool" where
  "queues_ok c \<longleftrightarrow> length (packets c) \<le> 10000 \<and> length (logs c) \<le> 50000"

interpretation queues: inv_system "\<lambda>c. c = collector_new" "collect_step from_ethernet from_bytes" queues_ok
  for from_ethernet from_bytes
proof (unfold_locales, goal_cases)
  case (1 s)
  then show ?case by (simp add: collector_new_def queues_ok_def)
next
  case (2 s t)
  then show ?case
    by (auto simp: worker_defs queues_ok_def try_send_def Let_def elim!: collect_stepE
        split: list.splits option.splits)
qed

section \<open>Properties\<close>

text \<open>
  C39: However capture, parsing, reception and the timer interleave, and however the flushes go: the two
  channels stay within their capacities, no flushed batch is empty, and the records of the flushed batches
  followed by those still held by the worker are exactly the records it received, in order; so when every
  flush was confirmed, the rows stored and the batch held make up everything received.\<close>

theorem telemetry_accounts_for_all:
  assumes "(collect_step from_ethernet from_bytes)\<^sup>*\<^sup>* collector_new c"
  shows "length (packets c) \<le> 10000 \<and> length (logs c) \<le> 50000
     \<and> [] \<notin> snd ` set (flushed c)
     \<and> concat (map snd (flushed c)) @ batch c = received c
     \<and> (list_all (\<lambda>b. fst b = Stored) (flushed c) \<longrightarrow>
          concat (map snd (filter (\<lambda>b. fst b = Stored) (flushed c))) @ batch c = received c)"
  using telemetry.conserved [OF refl assms] telemetry.batches_nonempty [OF refl assms]
    queues.inv_reachable [OF refl assms]
  by (auto simp: queues_ok_def list_all_iff cong: filter_cong)

text \<open>A run in which one record goes all the way and the commit of its batch fails.\<close>

definition demo_message :: dns_message where
  "demo_message = \<lparr>msg_id = 7, msg_kind = Query, queries = [(''example.org.'', ''A'')], msg_answers = []\<rparr>"

definition demo_decode :: "bytes \<Rightarrow> sliced option" where
  "demo_decode p = Some \<lparr>is_udp = True, payload = p\<rparr>"

definition demo_run :: "flush_io \<Rightarrow> collector" where
  "demo_run io = worker_timer io (worker_recv io (parse_next demo_decode (\<lambda>b. Some demo_message) 5 (sniff [1] collector_new)))"

lemma demo_run_reachable: "(collect_step demo_decode (\<lambda>b. Some demo_message))\<^sup>*\<^sup>* collector_new (demo_run io)"
proof -
  let ?R = "collect_step demo_decode (\<lambda>b. Some demo_message)"
  let ?c1 = "sniff [1] collector_new"
  let ?c2 = "parse_next demo_decode (\<lambda>b. Some demo_message) 5 ?c1"
  let ?c3 = "worker_recv io ?c2"
  have "?R\<^sup>*\<^sup>* collector_new ?c1" by (rule r_into_rtranclp) (rule collect_step.intros(1))
  then have "?R\<^sup>*\<^sup>* collector_new ?c2" by (rule rtranclp.rtrancl_into_rtrancl) (rule collect_step.intros(2))
  then have "?R\<^sup>*\<^sup>* collector_new ?c3" by (rule rtranclp.rtrancl_into_rtrancl) (rule collect_step.intros(3))
  then show ?thesis
    unfolding demo_run_def by (rule rtranclp.rtrancl_into_rtrancl) (rule collect_step.intros(4))
qed

theorem telemetry_accounts_for_all_witness:
  "length (packets (demo_run \<lparr>insert_ok = True, write_ok = (\<lambda>i. True), end_ok = True\<rparr>)) \<le> 10000
   \<and> length (received (demo_run \<lparr>insert_ok = True, write_ok = (\<lambda>i. True), end_ok = True\<rparr>)) = 1"
  using telemetry_accounts_for_all [OF demo_run_reachable, of "\<lparr>insert_ok = True, write_ok = (\<lambda>i. True), end_ok = True\<rparr>"]
  by (simp add: demo_run_def worker_defs try_send_def collector_new_def packet_record_def demo_decode_def
      parse_dns_to_record_def demo_message_def)

text \<open>
  A batch whose commit fails is discarded: a reachable state of the collector has received a record that is
  neither held by the worker nor in any confirmed batch, and the two queues are empty.\<close>

lemma failed_commit_discards:
  "\<exists>from_ethernet from_bytes c record. (collect_step from_ethernet from_bytes)\<^sup>*\<^sup>* collector_new c
     \<and> received c = [record] \<and> batch c = [] \<and> filter (\<lambda>b. fst b = Stored) (flushed c) = []
     \<and> packets c = [] \<and> logs c = []"
proof -
  let ?io = "\<lparr>insert_ok = True, write_ok = (\<lambda>i. True), end_ok = False\<rparr>"
  have "received (demo_run ?io) = [the (parse_dns_to_record 5 demo_message)] \<and> batch (demo_run ?io) = []
      \<and> filter (\<lambda>b. fst b = Stored) (flushed (demo_run ?io)) = [] \<and> packets (demo_run ?io) = [] \<and> logs (demo_run ?io) = []"
    by (simp add: demo_run_def worker_defs try_send_def collector_new_def packet_record_def demo_decode_def
        parse_dns_to_record_def demo_message_def)
  with demo_run_reachable [of ?io] show ?thesis by blast
qed

end
