(* ===== verification/Dns_Server.thy ===== *)
theory Dns_Server
  imports Interfaces Rust_Text
begin

text \<open>
  The DNS and dynamic DNS server (\<^verbatim>\<open>dns_server/src/main.rs\<close>): local records set over HTTP, a cache of
  forwarded answers, forwarding, and the clearing of the cache.

  SQLite, chrono and the forwarding resolver are parameters. The database is the record \<open>sql\<close> of the
  five statements the source executes (\<^const>\<open>Inl\<close> is an error), with the contract \<open>dns_db\<close>: the tables have a
  unique domain, and all rows have record type A. A time is a count of nanoseconds, formatted and parsed by
  the record \<open>chrono\<close>; \<open>str_less\<close> is SQLite's comparison of texts.
\<close>

section \<open>Parameters\<close>

record 'db sql =
  select_record :: "'db \<Rightarrow> string \<Rightarrow> unit + string option"
  select_cache :: "'db \<Rightarrow> string \<Rightarrow> unit + (string \<times> string) option"
  replace_record :: "string \<Rightarrow> string \<Rightarrow> 'db \<Rightarrow> unit + 'db"
  replace_cache :: "string \<Rightarrow> string \<Rightarrow> string \<Rightarrow> 'db \<Rightarrow> unit + 'db"
  delete_expired :: "string \<Rightarrow> 'db \<Rightarrow> unit + 'db"

record chrono =
  to_rfc3339 :: "int \<Rightarrow> string"
  parse_from_rfc3339 :: "string \<Rightarrow> int option"

datatype rdata = A bytes | Other_data string

record dns_rr =
  rr_name :: string
  rr_ttl :: u32
  rr_data :: rdata

datatype rcode = NoError | NXDomain

record response =
  authoritative :: bool
  response_code :: rcode
  answers :: "dns_rr list"

datatype record_type = Type_A | Type_other

section \<open>The handler\<close>

definition lookup_local_a_record :: "'db sql \<Rightarrow> 'db \<Rightarrow> string \<Rightarrow> bytes option" where
  "lookup_local_a_record S db domain =
     (let clean_domain = trim_end_matches CHR ''.'' domain
      in case select_record S db clean_domain of
           Inl _ \<Rightarrow> None
         | Inr None \<Rightarrow> None
         | Inr (Some ip_str) \<Rightarrow> ipv4_from_str ip_str)"

definition lookup_cache_a_record :: "'db sql \<Rightarrow> chrono \<Rightarrow> int \<Rightarrow> 'db \<Rightarrow> string \<Rightarrow> bytes option" where
  "lookup_cache_a_record S T now db domain =
     (let clean_domain = trim_end_matches CHR ''.'' domain
      in case select_cache S db clean_domain of
           Inl _ \<Rightarrow> None
         | Inr None \<Rightarrow> None
         | Inr (Some (ip_str, expires_str)) \<Rightarrow>
             (case parse_from_rfc3339 T expires_str of
                None \<Rightarrow> None
              | Some expires_at \<Rightarrow> if now < expires_at then ipv4_from_str ip_str else None))"

definition save_to_cache :: "'db sql \<Rightarrow> chrono \<Rightarrow> int \<Rightarrow> string \<Rightarrow> string \<Rightarrow> u32 \<Rightarrow> 'db \<Rightarrow> 'db" where
  "save_to_cache S T now domain ip ttl db =
     (let clean_domain = trim_end_matches CHR ''.'' domain;
          expires_str = to_rfc3339 T (now + uint ttl * 1000000000)
      in case replace_cache S clean_domain ip expires_str db of Inl _ \<Rightarrow> db | Inr db' \<Rightarrow> db')"

definition respond_with_a :: "string \<Rightarrow> bytes \<Rightarrow> u32 \<Rightarrow> bool \<Rightarrow> response" where
  "respond_with_a name ip ttl auth =
     \<lparr>authoritative = auth, response_code = NoError, answers = [\<lparr>rr_name = name, rr_ttl = ttl, rr_data = A ip\<rparr>]\<rparr>"

fun first_a :: "dns_rr list \<Rightarrow> (bytes \<times> u32) option" where
  "first_a [] = None"
| "first_a (r # rs) = (case rr_data r of A ip \<Rightarrow> Some (ip, rr_ttl r) | Other_data _ \<Rightarrow> first_a rs)"

text \<open>\<open>lookup\<close> is what the forwarder answers: \<^const>\<open>None\<close> for an error, or the records.\<close>

definition handle_request ::
    "'db sql \<Rightarrow> chrono \<Rightarrow> (string \<Rightarrow> record_type \<Rightarrow> dns_rr list option) \<Rightarrow> int \<Rightarrow> string \<Rightarrow> record_type \<Rightarrow> 'db
     \<Rightarrow> response \<times> 'db" where
  "handle_request S T lookup now name rt db =
     (let forward =
        (case lookup name rt of
           None \<Rightarrow> (\<lparr>authoritative = False, response_code = NXDomain, answers = []\<rparr>, db)
         | Some records \<Rightarrow>
             (\<lparr>authoritative = False, response_code = NoError, answers = records\<rparr>,
              if rt = Type_A
              then case first_a records of
                  None \<Rightarrow> db
                | Some (ip, ttl) \<Rightarrow> save_to_cache S T now name (ipv4_to_string ip) ttl db
              else db))
      in if rt = Type_A
         then case lookup_local_a_record S db name of
             Some local_ip \<Rightarrow> (respond_with_a name local_ip 60 True, db)
           | None \<Rightarrow>
               (case lookup_cache_a_record S T now db name of
                  Some cached_ip \<Rightarrow> (respond_with_a name cached_ip 300 False, db)
                | None \<Rightarrow> forward)
         else forward)"

section \<open>The HTTP handler and the cleaner\<close>

datatype status = OK | BAD_REQUEST | INTERNAL_SERVER_ERROR

definition handle_ddns_update :: "'db sql \<Rightarrow> string \<Rightarrow> string \<Rightarrow> 'db \<Rightarrow> (status \<times> string) \<times> 'db" where
  "handle_ddns_update S domain ip db =
     (if ipv4_from_str ip = None then ((BAD_REQUEST, ''Error: invalid IPv4 address format'' @ [CHR 0x0A]), db)
      else let clean_domain = trim_end_matches CHR ''.'' domain
           in case replace_record S clean_domain ip db of
                Inr db' \<Rightarrow> ((OK, ''successfully updated: '' @ clean_domain @ '' points to '' @ ip @ [CHR 0x0A]), db')
              | Inl _ \<Rightarrow> ((INTERNAL_SERVER_ERROR, ''internal database error'' @ [CHR 0x0A]), db))"

definition cleanup_cache :: "'db sql \<Rightarrow> chrono \<Rightarrow> int \<Rightarrow> 'db \<Rightarrow> 'db" where
  "cleanup_cache S T now db =
     (let now_str = to_rfc3339 T now
      in case delete_expired S now_str db of Inl _ \<Rightarrow> db | Inr db' \<Rightarrow> db')"

section \<open>Contracts\<close>

text \<open>
  The database as the server uses it. \<open>records\<close> and \<open>cache\<close> are the contents of the two tables; a
  select that does not fail shows them, and a statement that does not fail changes one row, or deletes
  the rows whose expiry text is below the argument.
\<close>

locale dns_db =
  fixes S :: "'db sql"
    and records :: "'db \<Rightarrow> string \<rightharpoonup> string"
    and cache :: "'db \<Rightarrow> string \<rightharpoonup> string \<times> string"
    and str_less :: "string \<Rightarrow> string \<Rightarrow> bool"
  assumes select_record: "select_record S db d = Inr r \<Longrightarrow> r = records db d"
    and select_cache: "select_cache S db d = Inr c \<Longrightarrow> c = cache db d"
    and replace_record: "replace_record S d ip db = Inr db' \<Longrightarrow>
       records db' = (records db)(d \<mapsto> ip) \<and> cache db' = cache db"
    and replace_cache: "replace_cache S d ip e db = Inr db' \<Longrightarrow>
       cache db' = (cache db)(d \<mapsto> (ip, e)) \<and> records db' = records db"
    and delete_expired: "delete_expired S now db = Inr db' \<Longrightarrow> records db' = records db
       \<and> cache db' d = (case cache db d of None \<Rightarrow> None | Some (ip, e) \<Rightarrow> if str_less e now then None else Some (ip, e))"
begin

text \<open>Without an error of the select, a lookup is a lookup in the table.\<close>

lemma lookup_local:
  "\<not> isl (select_record S db (trim_end_matches CHR ''.'' d)) \<Longrightarrow>
   lookup_local_a_record S db d
   = (case records db (trim_end_matches CHR ''.'' d) of None \<Rightarrow> None | Some ip \<Rightarrow> ipv4_from_str ip)"
  by (cases "select_record S db (trim_end_matches CHR ''.'' d)")
    (auto simp: lookup_local_a_record_def dest: select_record split: option.splits)

lemma lookup_cache:
  "\<not> isl (select_cache S db (trim_end_matches CHR ''.'' d)) \<Longrightarrow>
   lookup_cache_a_record S T now db d
   = (case cache db (trim_end_matches CHR ''.'' d) of None \<Rightarrow> None
      | Some (ip, e) \<Rightarrow> (case parse_from_rfc3339 T e of None \<Rightarrow> None
          | Some t \<Rightarrow> if now < t then ipv4_from_str ip else None))"
  by (cases "select_cache S db (trim_end_matches CHR ''.'' d)")
    (auto simp: lookup_cache_a_record_def dest: select_cache split: option.splits)

lemma lookup_cache_hit:
  "lookup_cache_a_record S T now db d = Some a \<Longrightarrow>
   \<exists>ip e t. cache db (trim_end_matches CHR ''.'' d) = Some (ip, e) \<and> parse_from_rfc3339 T e = Some t \<and> now < t
     \<and> ipv4_from_str ip = Some a"
  by (cases "select_cache S db (trim_end_matches CHR ''.'' d)")
    (auto simp: lookup_cache_a_record_def Let_def dest!: select_cache [THEN sym] split: option.splits if_splits)

end

text \<open>A local record is only found by a select that does not fail.\<close>

lemma lookup_local_hit:
  "lookup_local_a_record S db d = Some a \<Longrightarrow> \<not> isl (select_record S db (trim_end_matches CHR ''.'' d))"
  by (auto simp: lookup_local_a_record_def split: sum.splits)

text \<open>
  A time is formatted without loss, and its texts sort like the times. The contract is written for all integers; of
  chrono it is documented for the times in its range (and, for the order, for years of four digits), in which
  the clock of a running server and the expiry times, at most 136 years later, lie.
\<close>

definition chrono_ok :: "chrono \<Rightarrow> (string \<Rightarrow> string \<Rightarrow> bool) \<Rightarrow> bool" where
  "chrono_ok T str_less \<longleftrightarrow> (\<forall>t. parse_from_rfc3339 T (to_rfc3339 T t) = Some t)
     \<and> (\<forall>t u. str_less (to_rfc3339 T t) (to_rfc3339 T u) \<longleftrightarrow> t < u)"

text \<open>The reference database: two tables in memory, no statement fails.\<close>

record tables =
  t_records :: "(string, string) hashmap"
  t_cache :: "(string, string \<times> string) hashmap"

definition mem_sql :: "(string \<Rightarrow> string \<Rightarrow> bool) \<Rightarrow> tables sql" where
  "mem_sql str_less = \<lparr>
     select_record = (\<lambda>db d. Inr (hm_get (t_records db) d)),
     select_cache = (\<lambda>db d. Inr (hm_get (t_cache db) d)),
     replace_record = (\<lambda>d ip db. Inr (db\<lparr>t_records := hm_insert d ip (t_records db)\<rparr>)),
     replace_cache = (\<lambda>d ip e db. Inr (db\<lparr>t_cache := hm_insert d (ip, e) (t_cache db)\<rparr>)),
     delete_expired = (\<lambda>now db. Inr (db\<lparr>t_cache := hm_retain (\<lambda>_ (ip, e). \<not> str_less e now) (t_cache db)\<rparr>))\<rparr>"

interpretation mem: dns_db "mem_sql str_less" t_records t_cache str_less for str_less
  by unfold_locales (auto simp: mem_sql_def hashmap_defs split: option.splits)

section \<open>Properties\<close>

text \<open>
  C20: A dynamic DNS update is visible to DNS: when the update of a domain answers 200, an A query for that
  domain, with any number of trailing dots on either side, is answered authoritatively with exactly the
  address of the update and a TTL of 60, and neither the cache nor the forwarder is asked, provided that the
  SELECT of this query does not fail. (A query whose SELECT fails goes on to the cache and the forwarder.)\<close>

theorem ddns_update_then_query:
  assumes "dns_db S records cache str_less"
    and "handle_ddns_update S domain ip db = ((OK, msg), db')"
    and "trim_end_matches CHR ''.'' name = trim_end_matches CHR ''.'' domain"
    and "\<not> isl (select_record S db' (trim_end_matches CHR ''.'' name))"
  shows "\<exists>addr. ipv4_from_str ip = Some addr
     \<and> handle_request S T lookup now name Type_A db'
         = (\<lparr>authoritative = True, response_code = NoError,
             answers = [\<lparr>rr_name = name, rr_ttl = 60, rr_data = A addr\<rparr>]\<rparr>, db')"
proof -
  from assms(2) obtain addr where addr: "ipv4_from_str ip = Some addr"
      and rep: "replace_record S (trim_end_matches CHR ''.'' domain) ip db = Inr db'"
    by (auto simp: handle_ddns_update_def Let_def split: if_splits sum.splits)
  from dns_db.replace_record [OF assms(1) rep] assms(3)
  have "records db' (trim_end_matches CHR ''.'' name) = Some ip" by simp
  with dns_db.lookup_local [OF assms(1,4)] addr have "lookup_local_a_record S db' name = Some addr" by simp
  with addr show ?thesis by (simp add: handle_request_def respond_with_a_def)
qed

text \<open>For the examples: a time as a sign and its absolute value in unary, compared by value.\<close>

definition demo_parse :: "string \<Rightarrow> int option" where
  "demo_parse s = (case s of [] \<Rightarrow> None
     | c # cs \<Rightarrow> Some (if c = CHR ''-'' then - int (length cs) else int (length cs)))"

definition demo_chrono :: chrono where
  "demo_chrono = \<lparr>to_rfc3339 = (\<lambda>t. (if t < 0 then CHR ''-'' else CHR ''+'') # replicate (nat \<bar>t\<bar>) CHR ''x''),
     parse_from_rfc3339 = demo_parse\<rparr>"

definition demo_less :: "string \<Rightarrow> string \<Rightarrow> bool" where
  "demo_less s u \<longleftrightarrow> the (demo_parse s) < the (demo_parse u)"

lemma demo_chrono_ok: "chrono_ok demo_chrono demo_less"
  by (auto simp: chrono_ok_def demo_chrono_def demo_less_def demo_parse_def)

theorem ddns_update_then_query_witness:
  "handle_request (mem_sql (\<lambda>_ _. False)) demo_chrono (\<lambda>_ _. None) 5 ''home.example.'' Type_A
     (snd (handle_ddns_update (mem_sql (\<lambda>_ _. False)) ''home.example'' ''10.0.0.7'' \<lparr>t_records = (\<lambda>_. None), t_cache = (\<lambda>_. None)\<rparr>))
   = (\<lparr>authoritative = True, response_code = NoError,
       answers = [\<lparr>rr_name = ''home.example.'', rr_ttl = 60, rr_data = A [10, 0, 0, 7]\<rparr>]\<rparr>,
      snd (handle_ddns_update (mem_sql (\<lambda>_ _. False)) ''home.example'' ''10.0.0.7'' \<lparr>t_records = (\<lambda>_. None), t_cache = (\<lambda>_. None)\<rparr>))"
proof -
  let ?S = "mem_sql (\<lambda>_ _. False)" and ?db = "\<lparr>t_records = (\<lambda>_. None), t_cache = (\<lambda>_. None)\<rparr>"
  have ip: "ipv4_from_str ''10.0.0.7'' = Some [10, 0, 0, 7]" by code_simp
  have ok: "\<exists>msg. handle_ddns_update ?S ''home.example'' ''10.0.0.7'' ?db
      = ((OK, msg), snd (handle_ddns_update ?S ''home.example'' ''10.0.0.7'' ?db))"
    by (simp add: handle_ddns_update_def ip mem_sql_def Let_def)
  then obtain msg where "handle_ddns_update ?S ''home.example'' ''10.0.0.7'' ?db
      = ((OK, msg), snd (handle_ddns_update ?S ''home.example'' ''10.0.0.7'' ?db))" by blast
  from ddns_update_then_query [OF mem.dns_db_axioms this, of "''home.example.''" demo_chrono "\<lambda>_ _. None" 5] ip
  show ?thesis by (simp add: trim_end_matches_def mem_sql_def)
qed

end
