(* ===== verification/S3_Server.thy ===== *)
theory S3_Server
  imports Interfaces
begin

text \<open>
  The in-memory S3 service (\<^verbatim>\<open>s3_server/src/main.rs\<close>): buckets of objects, and the three requests.
  The storage is the standard library's HashMap, twice. A request body is the outcome of collecting
  its stream.
\<close>

section \<open>The service\<close>

datatype s3_error = BucketAlreadyExists | NoSuchBucket | NoSuchKey | InvalidRequestBody | InternalError

type_synonym storage = "(string, (string, bytes) hashmap) hashmap"

record InMemoryS3 = buckets :: storage

text \<open>The body of a request: absent, a stream that fails, or its bytes.\<close>

type_synonym body = "(unit + bytes) option"

record GetObjectOutput =
  out_body :: bytes
  content_length :: int

definition s3_new :: InMemoryS3 where
  "s3_new = \<lparr>buckets = (\<lambda>_. None)\<rparr>"

definition create_bucket :: "string \<Rightarrow> InMemoryS3 \<Rightarrow> (s3_error + unit) \<times> InMemoryS3" where
  "create_bucket bucket s =
     (if hm_get (buckets s) bucket \<noteq> None then (Inl BucketAlreadyExists, s)
      else (Inr (), s\<lparr>buckets := hm_insert bucket (\<lambda>_. None) (buckets s)\<rparr>))"

definition put_object :: "string \<Rightarrow> string \<Rightarrow> body \<Rightarrow> InMemoryS3 \<Rightarrow> (s3_error + unit) \<times> InMemoryS3" where
  "put_object bucket key body s =
     (case hm_get (buckets s) bucket of
        None \<Rightarrow> (Inl NoSuchBucket, s)
      | Some b \<Rightarrow>
          (case body of
             None \<Rightarrow> (Inl InvalidRequestBody, s)
           | Some (Inl e) \<Rightarrow> (Inl InternalError, s)
           | Some (Inr data) \<Rightarrow>
               (Inr (), s\<lparr>buckets := hm_insert bucket (hm_insert key data b) (buckets s)\<rparr>)))"

definition get_object :: "string \<Rightarrow> string \<Rightarrow> InMemoryS3 \<Rightarrow> s3_error + GetObjectOutput" where
  "get_object bucket key s =
     (case hm_get (buckets s) bucket of
        None \<Rightarrow> Inl NoSuchBucket
      | Some b \<Rightarrow>
          (case hm_get b key of
             None \<Rightarrow> Inl NoSuchKey
           | Some data \<Rightarrow> Inr \<lparr>out_body = data, content_length = int (length data)\<rparr>))"

text \<open>The requests, handled one at a time under the mutex.\<close>

datatype request = CreateBucket string | PutObject string string body | GetObject string string

definition serve :: "request \<Rightarrow> InMemoryS3 \<Rightarrow> InMemoryS3" where
  "serve r s = (case r of
      CreateBucket b \<Rightarrow> snd (create_bucket b s)
    | PutObject b k d \<Rightarrow> snd (put_object b k d s)
    | GetObject b k \<Rightarrow> s)"

section \<open>The abstract store\<close>

text \<open>
  What the service promises: a set of bucket names and a partial map from bucket and key to data.
\<close>

record object_store =
  names :: "string set"
  objects :: "string \<times> string \<rightharpoonup> bytes"

definition abs_store :: "InMemoryS3 \<Rightarrow> object_store" where
  "abs_store s = \<lparr>names = dom (buckets s),
     objects = (\<lambda>(b, k). case buckets s b of None \<Rightarrow> None | Some m \<Rightarrow> m k)\<rparr>"

definition spec_serve :: "request \<Rightarrow> object_store \<Rightarrow> object_store" where
  "spec_serve r a = (case r of
      CreateBucket b \<Rightarrow> a\<lparr>names := insert b (names a)\<rparr>
    | PutObject b k (Some (Inr d)) \<Rightarrow> if b \<in> names a then a\<lparr>objects := (objects a)((b, k) \<mapsto> d)\<rparr> else a
    | _ \<Rightarrow> a)"

definition spec_get :: "string \<Rightarrow> string \<Rightarrow> object_store \<Rightarrow> s3_error + GetObjectOutput" where
  "spec_get b k a =
     (if b \<notin> names a then Inl NoSuchBucket
      else case objects a (b, k) of
          None \<Rightarrow> Inl NoSuchKey
        | Some d \<Rightarrow> Inr \<lparr>out_body = d, content_length = int (length d)\<rparr>)"

lemma abs_serve: "abs_store (serve r s) = spec_serve r (abs_store s)"
proof (cases r)
  case (CreateBucket b)
  then show ?thesis
    by (auto simp: serve_def spec_serve_def create_bucket_def abs_store_def hashmap_defs fun_eq_iff split: option.splits)
next
  case (PutObject b k d)
  then show ?thesis
    by (auto simp: serve_def spec_serve_def put_object_def abs_store_def hashmap_defs fun_eq_iff
        split: option.splits sum.splits)
qed (simp add: serve_def spec_serve_def)

lemma abs_fold: "abs_store (fold serve rs s) = fold spec_serve rs (abs_store s)"
  by (induction rs arbitrary: s) (simp_all add: abs_serve)

lemma abs_get: "get_object b k s = spec_get b k (abs_store s)"
  by (auto simp: get_object_def spec_get_def abs_store_def hm_get_def split: option.splits)

section \<open>Properties\<close>

text \<open>
  The service implements an object store: after any sequence of requests, reading an object answers exactly
  what a store of named buckets and a map from bucket and key to data answers (the data and its length, or
  no such bucket, or no such key), where creating an existing bucket and a put that fails change nothing.\<close>

lemma s3_refines_object_store:
  "get_object b k (fold serve rs s3_new) = spec_get b k (fold spec_serve rs \<lparr>names = {}, objects = (\<lambda>_. None)\<rparr>)"
proof -
  have "abs_store s3_new = \<lparr>names = {}, objects = (\<lambda>_. None)\<rparr>"
    by (auto simp: abs_store_def s3_new_def)
  then show ?thesis by (simp add: abs_get abs_fold)
qed

text \<open>
  A put that succeeds is read back by every later get until the next put to the same object; creating buckets
  in between does not change it.\<close>

lemma s3_put_get:
  assumes "put_object b k body s = (Inr (), s')"
    and "\<And>r. r \<in> set rs \<Longrightarrow> (\<forall>d. r \<noteq> PutObject b k d)"
  shows "\<exists>data. body = Some (Inr data)
     \<and> get_object b k (fold serve rs s') = Inr \<lparr>out_body = data, content_length = int (length data)\<rparr>"
proof -
  from assms(1) obtain data where body: "body = Some (Inr data)" and b: "buckets s b \<noteq> None"
    by (auto simp: put_object_def hm_get_def split: option.splits sum.splits)
  have s': "objects (abs_store s') (b, k) = Some data" "b \<in> names (abs_store s')"
    using assms(1) body b by (auto simp: put_object_def abs_store_def hashmap_defs split: option.splits)
  have "b \<in> names (fold spec_serve rs a) \<and> objects (fold spec_serve rs a) (b, k) = objects a (b, k)"
    if "b \<in> names a" for a
    using that assms(2)
  proof (induction rs arbitrary: a)
    case (Cons r rs)
    have "b \<in> names (spec_serve r a) \<and> objects (spec_serve r a) (b, k) = objects a (b, k)"
      using Cons.prems(1) Cons.prems(2) [of r] by (auto simp: spec_serve_def split: request.splits option.splits sum.splits)
    with Cons.IH [of "spec_serve r a"] Cons.prems(2) show ?case by simp
  qed simp
  from this [OF s'(2)] s'(1) body show ?thesis by (simp add: abs_get abs_fold spec_get_def)
qed

section \<open>The server\<close>

text \<open>
  The loop of \<^verbatim>\<open>main\<close>: every accepted connection is served by a task of its own, one request after the other, and
  the tasks interleave. An error of \<^verbatim>\<open>accept\<close> is returned by \<^verbatim>\<open>main\<close>, which ends all of them. The address has to be free;
  \<open>s3_auth\<close> are the credentials the service is built with.
\<close>

definition s3_auth :: "string \<times> string" where
  "s3_auth = (''access_key'', ''secret_key'')"

datatype s3_answer = Created "s3_error + unit" | Stored "s3_error + unit" | Got "s3_error + GetObjectOutput"

definition respond :: "request \<Rightarrow> InMemoryS3 \<Rightarrow> s3_answer" where
  "respond r s = (case r of
      CreateBucket b \<Rightarrow> Created (fst (create_bucket b s))
    | PutObject b k d \<Rightarrow> Stored (fst (put_object b k d s))
    | GetObject b k \<Rightarrow> Got (get_object b k s))"

record s3_sys =
  service :: InMemoryS3
  conns :: "request list list"
  listening :: bool

definition s3_main :: "bool \<Rightarrow> s3_sys option" where
  "s3_main bind_ok = (if bind_ok then Some \<lparr>service = s3_new, conns = [], listening = True\<rparr> else None)"

datatype s3_event = Accepted "request list" | Accept_failed | Answered nat request s3_answer

inductive s3_step :: "s3_sys \<Rightarrow> s3_event \<Rightarrow> s3_sys \<Rightarrow> bool" where
  accept: "listening s \<Longrightarrow> s3_step s (Accepted rs) (s\<lparr>conns := conns s @ [rs]\<rparr>)"
| accept_failed: "listening s \<Longrightarrow> s3_step s Accept_failed (s\<lparr>listening := False\<rparr>)"
| answered: "listening s \<Longrightarrow> i < length (conns s) \<Longrightarrow> conns s ! i = r # rs \<Longrightarrow>
     s3_step s (Answered i r (respond r (service s))) (s\<lparr>conns := (conns s)[i := rs], service := serve r (service s)\<rparr>)"

text \<open>The abstract store answers the same requests.\<close>

definition spec_respond :: "request \<Rightarrow> object_store \<Rightarrow> s3_answer" where
  "spec_respond r a = (case r of
      CreateBucket b \<Rightarrow> Created (if b \<in> names a then Inl BucketAlreadyExists else Inr ())
    | PutObject b k d \<Rightarrow>
        Stored (if b \<notin> names a then Inl NoSuchBucket
                else case d of None \<Rightarrow> Inl InvalidRequestBody | Some (Inl _) \<Rightarrow> Inl InternalError | Some (Inr _) \<Rightarrow> Inr ())
    | GetObject b k \<Rightarrow> Got (spec_get b k a))"

fun spec_next :: "s3_event \<Rightarrow> object_store \<Rightarrow> object_store" where
  "spec_next (Answered i r ans) a = spec_serve r a"
| "spec_next _ a = a"

definition spec_step :: "object_store \<Rightarrow> s3_event \<Rightarrow> object_store \<Rightarrow> bool" where
  "spec_step a e a' \<longleftrightarrow> (\<forall>i r ans. e = Answered i r ans \<longrightarrow> ans = spec_respond r a) \<and> a' = spec_next e a"

definition spec_after :: "s3_event list \<Rightarrow> object_store" where
  "spec_after es = fold spec_next es \<lparr>names = {}, objects = (\<lambda>_. None)\<rparr>"

lemma abs_respond: "respond r s = spec_respond r (abs_store s)"
proof (cases r)
  case (GetObject b k)
  then show ?thesis by (simp add: respond_def spec_respond_def abs_get)
qed (auto simp: respond_def spec_respond_def create_bucket_def put_object_def abs_store_def hm_get_def dom_def
    split: option.splits sum.splits)

interpretation store: simulation s3_step spec_step "\<lambda>s. abs_store (service s)" "\<lambda>_. True"
proof (unfold_locales, goal_cases)
  case (2 s e t)
  from 2(2) show ?case
    by cases (simp_all add: spec_step_def abs_respond abs_serve)
qed simp

lemma spec_trace: "trace spec_step a es a' \<Longrightarrow> a' = fold spec_next es a"
  by (induction rule: trace.induct) (auto simp: spec_step_def)

text \<open>
  C19: The server is linearizable: however the requests of any number of connections interleave, every answer (of creating
  a bucket, of a put with a body that arrives, fails or is missing, and of a get) is the one an abstract store of
  named buckets and of a map from bucket and key to data gives after exactly the requests answered before it.
\<close>
theorem s3_server_linearizable:
  assumes "s3_main bind_ok = Some s" and "trace s3_step s (pre @ Answered i r ans # post) s'"
  shows "ans = spec_respond r (spec_after pre)"
proof -
  have "abs_store (service s) = \<lparr>names = {}, objects = (\<lambda>_. None)\<rparr>"
    using assms(1) by (auto simp: s3_main_def abs_store_def s3_new_def split: if_splits)
  then show ?thesis
    using store.sim_event [OF assms(2)] by (auto simp: spec_step_def spec_after_def dest: spec_trace)
qed

text \<open>One failed \<^verbatim>\<open>accept\<close>, as when the process has no descriptors left, ends the service of every open connection.\<close>

lemma accept_failure_ends_service:
  assumes "trace s3_step s (pre @ Accept_failed # post) s'"
  shows "post = []"
proof (cases post)
  case (Cons e es)
  with assms trace_prefix [of s3_step s "pre @ [Accept_failed]" "e # es" s']
  obtain t where "trace s3_step s (pre @ [Accept_failed]) t" and "trace s3_step t ([] @ e # es) s'" by auto
  moreover from this(1) have "\<not> listening t" by (rule trace_snocE) (auto elim: s3_step.cases)
  ultimately show ?thesis by (elim trace_split) (auto elim: s3_step.cases)
qed

theorem s3_server_linearizable_witness:
  "respond (GetObject ''b'' ''k'') (serve (PutObject ''b'' ''k'' (Some (Inr [7]))) (serve (CreateBucket ''b'') s3_new)) =
   spec_respond (GetObject ''b'' ''k'') (spec_after [Accepted [CreateBucket ''b'', PutObject ''b'' ''k'' (Some (Inr [7]))],
     Accepted [GetObject ''b'' ''k''], Answered 0 (CreateBucket ''b'') (Created (Inr ())),
     Answered 0 (PutObject ''b'' ''k'' (Some (Inr [7]))) (Stored (Inr ()))])"
proof -
  let ?c = "CreateBucket ''b''" and ?p = "PutObject ''b'' ''k'' (Some (Inr [7]))" and ?g = "GetObject ''b'' ''k''"
  define s0 where "s0 = \<lparr>service = s3_new, conns = [[?c, ?p], [?g]], listening = True\<rparr>"
  define s1 where "s1 = s0\<lparr>conns := [[?p], [?g]], service := serve ?c s3_new\<rparr>"
  define s2 where "s2 = s1\<lparr>conns := [[], [?g]], service := serve ?p (serve ?c s3_new)\<rparr>"
  let ?start = "\<lparr>service = s3_new, conns = [], listening = True\<rparr>"
  have 3: "s3_step s0 (Answered 0 ?c (Created (Inr ()))) s1"
    using answered [of s0 0 ?c "[?p]"] by (simp add: s0_def s1_def respond_def create_bucket_def s3_new_def hm_get_def)
  have 4: "s3_step s1 (Answered 0 ?p (Stored (Inr ()))) s2"
    using answered [of s1 0 ?p "[]"]
    by (simp add: s0_def s1_def s2_def respond_def serve_def create_bucket_def put_object_def s3_new_def hashmap_defs)
  have 5: "s3_step s2 (Answered 1 ?g (respond ?g (service s2))) (s2\<lparr>conns := [[], []], service := serve ?g (service s2)\<rparr>)"
    using answered [of s2 1 ?g "[]"] by (simp add: s0_def s1_def s2_def)
  have 1: "s3_step ?start (Accepted [?c, ?p]) (?start\<lparr>conns := [[?c, ?p]]\<rparr>)"
    using accept [of ?start "[?c, ?p]"] by simp
  have 2: "s3_step (?start\<lparr>conns := [[?c, ?p]]\<rparr>) (Accepted [?g]) s0"
    using accept [of "?start\<lparr>conns := [[?c, ?p]]\<rparr>" "[?g]"] by (simp add: s0_def)
  note run = trace_Cons [where step = s3_step]
  have "trace s3_step ?start ([Accepted [?c, ?p], Accepted [?g], Answered 0 ?c (Created (Inr ())),
      Answered 0 ?p (Stored (Inr ()))] @ Answered 1 ?g (respond ?g (service s2)) # [])
      (s2\<lparr>conns := [[], []], service := serve ?g (service s2)\<rparr>)"
    using run [OF run [OF run [OF run [OF run [OF trace_Nil 5] 4] 3] 2] 1] by simp
  from s3_server_linearizable [OF _ this, of True] show ?thesis
    by (simp add: s3_main_def s2_def)
qed

end
