(* ===== verification/Ws_Server.thy ===== *)
theory Ws_Server
  imports Interfaces
begin

text \<open>
  A node of the WebSocket cluster (\<^verbatim>\<open>hl_websocket_server/src/main.rs\<close>): sessions, their registration, the
  processing of client messages, and the delivery of broadcasts that arrive over Redis.

  The registry (a DashMap) is a parameter with the contract \<open>registry\<close>; encoding and decoding
  (postcard) is the record \<open>codec\<close>. A session's channel is named by the session's number: the registry
  maps a session to its sender. Redis delivers a published payload to every node.
\<close>

section \<open>Messages\<close>

datatype ClientMessage = Ping | Auth u64 string | Broadcast string

datatype ServerMessage = Pong | Welcome u64 | Notification u64 string | Error u16 string

record codec =
  enc_server :: "ServerMessage \<Rightarrow> bytes option"
  dec_server :: "bytes \<Rightarrow> ServerMessage option"
  dec_client :: "bytes \<Rightarrow> ClientMessage option"

record 'm registry_ops =
  rg_get :: "'m \<Rightarrow> u64 \<Rightarrow> u64 option"
  rg_insert :: "u64 \<Rightarrow> u64 \<Rightarrow> 'm \<Rightarrow> 'm"
  rg_remove :: "u64 \<Rightarrow> 'm \<Rightarrow> 'm"
  rg_iter :: "'m \<Rightarrow> (u64 \<times> u64) list"

section \<open>The node\<close>

text \<open>
  Where a session is: in the handshake, registered but not yet welcomed, running, running without its
  writer, ended, or ended by a failed welcome (which leaves its registration behind).
\<close>

datatype ws_phase = Handshake | Registered | Active | Writer_gone | Ended | Welcome_failed

record 'm ServerState =
  connections :: 'm
  queues :: "u64 \<Rightarrow> ServerMessage list"
  receivers :: "u64 \<Rightarrow> bool"
  session_counter :: u64
  sessions :: "(u64, ws_phase) hashmap"
  published :: "bytes list"

definition ws_node_new :: "'m \<Rightarrow> 'm ServerState" where
  "ws_node_new m = \<lparr>connections = m, queues = (\<lambda>_. []), receivers = (\<lambda>_. False), session_counter = 0,
     sessions = (\<lambda>_. None), published = []\<rparr>"

text \<open>
  The start: the runtime with its thread pool, then the listener, the Redis manager and the pool of connections; each
  failure is returned. The registry starts as the empty map \<open>m\<close>.
\<close>

record runtime_config =
  worker_threads :: nat
  max_blocking_threads :: nat
  thread_name :: string
  thread_stack_size :: nat

definition ws_runtime :: "nat \<Rightarrow> runtime_config" where
  "ws_runtime cpus = \<lparr>worker_threads = cpus, max_blocking_threads = 512, thread_name = ''hl-ws-worker'',
     thread_stack_size = 3 * 1024 * 1024\<rparr>"

record ws_env =
  cpus :: nat
  runtime_builds :: "runtime_config \<Rightarrow> bool"
  binds :: "string \<Rightarrow> bool"
  redis_opens :: "string \<Rightarrow> bool"
  pool_builds :: "nat \<Rightarrow> bool"

datatype ws_start_error = Runtime_failed | Bind_failed | Redis_failed | Pool_failed

definition async_main :: "'m \<Rightarrow> ws_env \<Rightarrow> ws_start_error + 'm ServerState" where
  "async_main m E =
     (if \<not> binds E ''0.0.0.0:8080'' then Inl Bind_failed
      else if \<not> redis_opens E ''redis://127.0.0.1:6379'' then Inl Redis_failed
      else if \<not> pool_builds E 50 then Inl Pool_failed
      else Inr (ws_node_new m))"

definition ws_main :: "'m \<Rightarrow> ws_env \<Rightarrow> ws_start_error + 'm ServerState" where
  "ws_main m E = (if runtime_builds E (ws_runtime (cpus E)) then async_main m E else Inl Runtime_failed)"

text \<open>\<^verbatim>\<open>UnboundedSender::send\<close>: queued while the receiver exists, else an error that is ignored.\<close>

definition send :: "u64 \<Rightarrow> ServerMessage \<Rightarrow> 'm ServerState \<Rightarrow> 'm ServerState" where
  "send ch msg s = (if receivers s ch then s\<lparr>queues := (queues s)(ch := queues s ch @ [msg])\<rparr> else s)"

definition process_message ::
    "'m registry_ops \<Rightarrow> codec \<Rightarrow> bool \<Rightarrow> u64 \<Rightarrow> ClientMessage \<Rightarrow> 'm ServerState \<Rightarrow> 'm ServerState" where
  "process_message R C redis_ok sender_id msg s =
     (case msg of
        Ping \<Rightarrow> (case rg_get R (connections s) sender_id of None \<Rightarrow> s | Some sender \<Rightarrow> send sender Pong s)
      | Auth user_id token \<Rightarrow> s
      | Broadcast txt \<Rightarrow>
          (case enc_server C (Notification sender_id txt) of
             None \<Rightarrow> s
           | Some payload \<Rightarrow> if redis_ok then s\<lparr>published := published s @ [payload]\<rparr> else s))"

definition origin_sender :: "ServerMessage \<Rightarrow> u64" where
  "origin_sender m = (case m of Notification from_user _ \<Rightarrow> from_user | _ \<Rightarrow> 0)"

text \<open>One message of the Redis stream, delivered to the local clients.\<close>

definition deliver :: "'m registry_ops \<Rightarrow> codec \<Rightarrow> bytes \<Rightarrow> 'm ServerState \<Rightarrow> 'm ServerState" where
  "deliver R C payload s =
     (case dec_server C payload of
        None \<Rightarrow> s
      | Some server_msg \<Rightarrow>
          fold (\<lambda>(key, sender) s. if key \<noteq> origin_sender server_msg then send sender server_msg s else s)
            (rg_iter R (connections s)) s)"

text \<open>
  The task that listens to Redis: one attempt after the other to connect and to subscribe, and the
  messages of a subscription until its stream ends. A payload that cannot be read is the empty one.
\<close>

datatype redis_attempt = No_connection | No_subscription | Stream "bytes option list"

fun attempt_payloads :: "redis_attempt \<Rightarrow> bytes list" where
  "attempt_payloads (Stream msgs) = map (\<lambda>msg. case msg of Some payload \<Rightarrow> payload | None \<Rightarrow> []) msgs"
| "attempt_payloads _ = []"

fun listen_global_broadcast ::
    "'m registry_ops \<Rightarrow> codec \<Rightarrow> redis_attempt list \<Rightarrow> 'm ServerState \<Rightarrow> 'm ServerState" where
  "listen_global_broadcast R C [] s = s"
| "listen_global_broadcast R C (a # attempts) s =
     listen_global_broadcast R C attempts (fold (deliver R C) (attempt_payloads a) s)"

definition set_session :: "u64 \<Rightarrow> ws_phase \<Rightarrow> 'm ServerState \<Rightarrow> 'm ServerState" where
  "set_session k ph s = s\<lparr>sessions := hm_insert k ph (sessions s)\<rparr>"

definition ws_register :: "'m registry_ops \<Rightarrow> u64 \<Rightarrow> 'm ServerState \<Rightarrow> 'm ServerState" where
  "ws_register R k s = s\<lparr>connections := rg_insert R k k (connections s), receivers := (receivers s)(k := True)\<rparr>"

definition ws_unregister :: "'m registry_ops \<Rightarrow> u64 \<Rightarrow> 'm ServerState \<Rightarrow> 'm ServerState" where
  "ws_unregister R k s = s\<lparr>connections := rg_remove R k (connections s), receivers := (receivers s)(k := False)\<rparr>"

definition drop_receiver :: "u64 \<Rightarrow> 'm ServerState \<Rightarrow> 'm ServerState" where
  "drop_receiver k s = s\<lparr>receivers := (receivers s)(k := False)\<rparr>"

text \<open>
  The steps of the node, in the order of \<^verbatim>\<open>async_main\<close> and \<^verbatim>\<open>handle_connection\<close>: accepting a connection, the
  handshake, the welcome, the writer task, the reader (which stops at a close, an error or the
  time-out), and a message from Redis. \<open>oc\<close> is the build's overflow check for the session counter. A delivery walks the
  registry as one step; the walk over the DashMap is not interrupted by registrations in the model.
\<close>

inductive ws_step :: "'m registry_ops \<Rightarrow> codec \<Rightarrow> bool \<Rightarrow> 'm ServerState \<Rightarrow> 'm ServerState \<Rightarrow> bool"
  for R C oc where
  accept: "add_u64 oc (session_counter s) 1 = Ret k \<Longrightarrow>
     ws_step R C oc s (set_session k Handshake (s\<lparr>session_counter := k\<rparr>))"
| handshake_failed: "sessions s k = Some Handshake \<Longrightarrow> ws_step R C oc s (set_session k Ended s)"
| handshake_ok: "sessions s k = Some Handshake \<Longrightarrow> ws_step R C oc s (set_session k Registered (ws_register R k s))"
| welcome_ok: "sessions s k = Some Registered \<Longrightarrow> enc_server C (Welcome k) \<noteq> None \<Longrightarrow>
     ws_step R C oc s (set_session k Active s)"
| welcome_failed: "sessions s k = Some Registered \<Longrightarrow>
     ws_step R C oc s (set_session k Welcome_failed (drop_receiver k s))"
| written: "sessions s k = Some Active \<Longrightarrow> queues s k = m # ms \<Longrightarrow>
     ws_step R C oc s (s\<lparr>queues := (queues s)(k := ms)\<rparr>)"
| write_failed: "sessions s k = Some Active \<Longrightarrow>
     ws_step R C oc s (set_session k Writer_gone (ws_unregister R k s))"
| frame: "sessions s k \<in> {Some Active, Some Writer_gone} \<Longrightarrow> dec_client C bytes = Some msg \<Longrightarrow>
     ws_step R C oc s (process_message R C redis_ok k msg s)"
| closed: "sessions s k \<in> {Some Active, Some Writer_gone} \<Longrightarrow>
     ws_step R C oc s (set_session k Ended (ws_unregister R k s))"
| redis: "ws_step R C oc s (deliver R C payload s)"

text \<open>The cluster: a published payload reaches every node.\<close>

definition cluster_deliver :: "'m registry_ops \<Rightarrow> codec \<Rightarrow> bytes \<Rightarrow> 'm ServerState list \<Rightarrow> 'm ServerState list" where
  "cluster_deliver R C payload nodes = map (deliver R C payload) nodes"

section \<open>The contract of the registry\<close>

locale registry =
  fixes R :: "'m registry_ops"
  assumes get_insert: "rg_get R (rg_insert R k v m) = (rg_get R m)(k \<mapsto> v)"
    and get_remove: "rg_get R (rg_remove R k m) = (rg_get R m)(k := None)"
    and iter: "map_of (rg_iter R m) = rg_get R m"
    and iter_distinct: "distinct (map fst (rg_iter R m))"

definition alist_registry :: "(u64 \<times> u64) list registry_ops" where
  "alist_registry = \<lparr>rg_get = map_of, rg_insert = AList.update, rg_remove = AList.delete, rg_iter = AList.clearjunk\<rparr>"

interpretation alist: registry alist_registry
  by unfold_locales (auto simp: alist_registry_def update_conv' delete_conv' map_of_clearjunk distinct_clearjunk)

section \<open>The node's invariant\<close>

definition ws_ok :: "'m registry_ops \<Rightarrow> 'm ServerState \<Rightarrow> bool" where
  "ws_ok R s \<longleftrightarrow>
     (\<forall>k. rg_get R (connections s) k =
        (if sessions s k \<in> {Some Registered, Some Active, Some Welcome_failed} then Some k else None))
     \<and> (\<forall>k. receivers s k \<longleftrightarrow> sessions s k \<in> {Some Registered, Some Active})
     \<and> (\<forall>k. sessions s k \<noteq> None \<longleftrightarrow> 0 < k \<and> k \<le> session_counter s)"

lemma send_simps [simp]:
  "connections (send ch m s) = connections s" "receivers (send ch m s) = receivers s"
  "sessions (send ch m s) = sessions s" "session_counter (send ch m s) = session_counter s"
  by (simp_all add: send_def)

lemma queues_send: "queues (send ch m s) k = queues s k @ (if k = ch \<and> receivers s ch then [m] else [])"
  by (simp add: send_def)

lemma ws_ok_same:
  "connections s' = connections s \<Longrightarrow> receivers s' = receivers s \<Longrightarrow> sessions s' = sessions s \<Longrightarrow>
   session_counter s' = session_counter s \<Longrightarrow> ws_ok R s' = ws_ok R s"
  by (simp add: ws_ok_def)

lemma process_message_ok [simp]: "ws_ok R (process_message R C redis_ok k msg s) = ws_ok R s"
  by (rule ws_ok_same) (auto simp: process_message_def split: ClientMessage.splits option.splits)

definition to_targets :: "ServerMessage \<Rightarrow> (u64 \<times> u64) list \<Rightarrow> 'm ServerState \<Rightarrow> 'm ServerState" where
  "to_targets m xs s = fold (\<lambda>(key, sender) s. if key \<noteq> origin_sender m then send sender m s else s) xs s"

lemma to_targets_simps [simp]:
  "connections (to_targets m xs s) = connections s" "receivers (to_targets m xs s) = receivers s"
  "sessions (to_targets m xs s) = sessions s" "session_counter (to_targets m xs s) = session_counter s"
  by (induction xs arbitrary: s) (auto simp: to_targets_def split: if_splits)

lemma deliver_to_targets:
  "deliver R C payload s = (case dec_server C payload of None \<Rightarrow> s | Some m \<Rightarrow> to_targets m (rg_iter R (connections s)) s)"
  by (cases "dec_server C payload") (simp_all add: deliver_def to_targets_def)

lemma deliver_ok [simp]: "ws_ok R (deliver R C payload s) = ws_ok R s"
  by (rule ws_ok_same) (auto simp: deliver_to_targets split: option.splits)

lemma listen_global_broadcast_fold:
  "listen_global_broadcast R C attempts s = fold (deliver R C) (concat (map attempt_payloads attempts)) s"
  by (induction attempts arbitrary: s) auto

text \<open>The listener keeps the registry exact, whatever arrives and however often it has to reconnect.\<close>

lemma listen_global_broadcast_ok: "ws_ok R s \<Longrightarrow> ws_ok R (listen_global_broadcast R C attempts s)"
proof -
  have "ws_ok R s \<Longrightarrow> ws_ok R (fold (deliver R C) ps s)" for ps
    by (induction ps arbitrary: s) auto
  then show "ws_ok R s \<Longrightarrow> ws_ok R (listen_global_broadcast R C attempts s)"
    by (simp add: listen_global_broadcast_fold)
qed

lemma queues_to_targets:
  "distinct (map fst xs) \<Longrightarrow> (\<And>k v. (k, v) \<in> set xs \<Longrightarrow> v = k) \<Longrightarrow>
   queues (to_targets m xs s) k
   = queues s k @ (if k \<in> fst ` set xs \<and> k \<noteq> origin_sender m \<and> receivers s k then [m] else [])"
proof (induction xs arbitrary: s)
  case (Cons x xs)
  obtain key where x: "x = (key, key)" using Cons.prems(2) [of "fst x" "snd x"] by (cases x) auto
  let ?s = "if key \<noteq> origin_sender m then send key m s else s"
  have "to_targets m (x # xs) s = to_targets m xs ?s" by (simp add: to_targets_def x)
  moreover have "queues (to_targets m xs ?s) k
      = queues ?s k @ (if k \<in> fst ` set xs \<and> k \<noteq> origin_sender m \<and> receivers ?s k then [m] else [])"
    using Cons.prems by (intro Cons.IH) auto
  moreover have "key \<notin> fst ` set xs" using Cons.prems(1) x by simp
  ultimately show ?case by (auto simp: x queues_send)
qed (simp add: to_targets_def)

lemma succ_counter: "add_u64 True c 1 = Ret k \<Longrightarrow> unat k = unat c + 1"
  by (auto simp: add_u64_def unat_word_ariths split: if_splits)

context registry
begin

lemma ws_ok_step: "ws_ok R s \<Longrightarrow> ws_step R C True s t \<Longrightarrow> ws_ok R t"
proof (erule ws_step.cases, goal_cases)
  case (1 s' k)
  then have k: "unat k = unat (session_counter s) + 1" by (auto dest: succ_counter)
  then have "0 < j \<and> j \<le> k \<longleftrightarrow> j = k \<or> (0 < j \<and> j \<le> session_counter s)" for j
    by (auto simp: word_less_nat_alt word_le_nat_alt word_unat_eq_iff)
  moreover have "sessions s k = None"
  proof -
    have "\<not> k \<le> session_counter s" using k by (simp add: word_le_nat_alt)
    with 1(1) show ?thesis unfolding ws_ok_def by blast
  qed
  ultimately show ?case using 1 by (auto simp: ws_ok_def set_session_def hm_insert_def)
next
  case (8 s' k bytes msg redis_ok)
  then show ?case by simp
next
  case (10 s' payload)
  then show ?case by simp
qed (auto simp: ws_ok_def set_session_def hm_insert_def ws_register_def ws_unregister_def drop_receiver_def
      get_insert get_remove)

lemma deliver_queues:
  assumes "ws_ok R s" and "dec_server C payload = Some m"
  shows "queues (deliver R C payload s) k
     = queues s k @ (if sessions s k \<in> {Some Registered, Some Active} \<and> k \<noteq> origin_sender m then [m] else [])"
proof -
  let ?xs = "rg_iter R (connections s)"
  have get: "v = j" if "(j, v) \<in> set ?xs" for j v
  proof -
    have "map_of ?xs j = Some v" by (rule map_of_is_SomeI [OF iter_distinct that])
    with assms(1) show ?thesis by (auto simp: iter ws_ok_def split: if_splits)
  qed
  have "k \<in> fst ` set ?xs \<longleftrightarrow> rg_get R (connections s) k \<noteq> None"
    by (simp add: iter [symmetric] map_of_eq_None_iff)
  with assms(1) have "k \<in> fst ` set ?xs \<and> receivers s k \<longleftrightarrow> sessions s k \<in> {Some Registered, Some Active}"
    by (auto simp: ws_ok_def)
  with queues_to_targets [where xs = ?xs and m = m and s = s and k = k, OF iter_distinct get] assms(2) show ?thesis
    by (auto simp: deliver_to_targets)
qed

end

definition ws_init :: "'m registry_ops \<Rightarrow> 'm ServerState \<Rightarrow> bool" where
  "ws_init R s \<longleftrightarrow> (\<exists>m. s = ws_node_new m \<and> (\<forall>k. rg_get R m k = None))"

sublocale registry \<subseteq> node: inv_system "ws_init R" "ws_step R C True" "ws_ok R" for C
proof (unfold_locales, goal_cases)
  case (1 s)
  then show ?case by (auto simp: ws_init_def ws_node_new_def ws_ok_def)
next
  case (2 s t)
  then show ?case by (rule ws_ok_step)
qed

context registry
begin

lemma ws_main_init: "ws_main m E = Inr s \<Longrightarrow> (\<And>k. rg_get R m k = None) \<Longrightarrow> ws_init R s"
  by (auto simp: ws_main_def async_main_def ws_init_def split: if_splits)

lemma ws_reachable_ok: "ws_init R s \<Longrightarrow> (ws_step R C True)\<^sup>*\<^sup>* s t \<Longrightarrow> ws_ok R t"
  by (rule node.inv_reachable)

end

section \<open>Properties\<close>

lemma welcome_failed_step:
  assumes "ws_ok R s" and "sessions s k = Some Welcome_failed" and "ws_step R C True s t"
  shows "sessions t k = Some Welcome_failed"
  using assms(3)
proof (cases rule: ws_step.cases)
  case (accept k')
  with succ_counter [of "session_counter s" k'] have "\<not> k' \<le> session_counter s" by (simp add: word_le_nat_alt)
  with assms(1) have "sessions s k' = None" unfolding ws_ok_def by blast
  with accept assms(2) show ?thesis by (auto simp: set_session_def hm_insert_def)
next
  case (frame k' bytes msg redis_ok)
  with assms(2) show ?thesis by (auto simp: process_message_def split: ClientMessage.splits option.splits)
next
  case (redis payload)
  with assms(2) show ?thesis by (auto simp: deliver_to_targets split: option.splits)
qed (use assms(2) in \<open>auto simp: set_session_def hm_insert_def ws_register_def ws_unregister_def drop_receiver_def\<close>)

lemma welcome_failed_stays:
  assumes "(ws_step R C True)\<^sup>*\<^sup>* s t" and "registry R" and "ws_ok R s" and "sessions s k = Some Welcome_failed"
  shows "sessions t k = Some Welcome_failed \<and> ws_ok R t"
  using assms(1)
proof (induction rule: rtranclp_induct)
  case base
  with assms(3,4) show ?case by simp
next
  case (step t u)
  then show ?case using welcome_failed_step registry.ws_ok_step [OF assms(2)] by blast
qed

text \<open>
  C40: In every state a node reaches from its start with an empty registry (with overflow checks for the session counter),
  session numbers are exactly those handed out so far, a session can be reached by broadcasts exactly while
  it is registered or active, and the registry holds exactly the sessions that are registered or active and
  those whose welcome message could not be sent; such a session stays as it is, and in the registry, in all
  states that the node reaches afterwards.\<close>

theorem ws_registry_exact:
  assumes "registry R" and "\<And>k. rg_get R m k = None" and "ws_main m E = Inr s0" and "(ws_step R C True)\<^sup>*\<^sup>* s0 s"
  shows "(\<forall>k. sessions s k \<noteq> None \<longleftrightarrow> 0 < k \<and> k \<le> session_counter s)
     \<and> (\<forall>k. receivers s k \<longleftrightarrow> sessions s k \<in> {Some Registered, Some Active})
     \<and> (\<forall>k. rg_get R (connections s) k \<noteq> None \<longleftrightarrow> sessions s k \<in> {Some Registered, Some Active, Some Welcome_failed})
     \<and> (\<forall>k t. sessions s k = Some Welcome_failed \<longrightarrow> (ws_step R C True)\<^sup>*\<^sup>* s t \<longrightarrow>
          sessions t k = Some Welcome_failed \<and> rg_get R (connections t) k \<noteq> None)"
proof -
  have "ws_init R s0" by (rule registry.ws_main_init [OF assms(1,3,2)])
  note ok = registry.ws_reachable_ok [OF assms(1) this assms(4)]
  have "sessions t k = Some Welcome_failed \<and> rg_get R (connections t) k \<noteq> None"
    if "sessions s k = Some Welcome_failed" "(ws_step R C True)\<^sup>*\<^sup>* s t" for k t
    using welcome_failed_stays [OF that(2) assms(1) ok that(1)] by (auto simp: ws_ok_def)
  with ok show ?thesis by (auto simp: ws_ok_def)
qed

text \<open>
  A broadcast reaches the whole cluster: when a session's text message is published and every node delivers
  the payload, each session that is registered or active on any node gets the notification once, at the end of
  its queue, except those whose session number is the sender's, on every node.\<close>

lemma cluster_broadcast:
  assumes "registry R" and "list_all (ws_ok R) nodes"
    and "enc_server C (Notification k txt) = Some payload" and "dec_server C payload = Some (Notification k txt)"
    and "n < length nodes"
  shows "published (process_message R C True k (Broadcast txt) (nodes ! n)) = published (nodes ! n) @ [payload]
     \<and> list_all2 (\<lambda>s s'. \<forall>j. queues s' j = queues s j @
           (if sessions s j \<in> {Some Registered, Some Active} \<and> j \<noteq> k then [Notification k txt] else []))
         nodes (cluster_deliver R C payload nodes)"
proof -
  have "queues (deliver R C payload s) j = queues s j @
      (if sessions s j \<in> {Some Registered, Some Active} \<and> j \<noteq> k then [Notification k txt] else [])"
    if "s \<in> set nodes" for s j
    using registry.deliver_queues [OF assms(1) _ assms(4), of s j] that assms(2)
    by (simp add: list_all_iff origin_sender_def)
  then show ?thesis
    using assms(3) by (auto simp: process_message_def cluster_deliver_def list_all2_conv_all_nth)
qed

lemma deliver_sessions [simp]: "sessions (deliver R C payload s) = sessions s"
  by (auto simp: deliver_to_targets split: option.split)

lemma fold_deliver_queues:
  assumes "registry R" and "sessions s k \<in> {Some Registered, Some Active}" and "ws_ok R s"
  shows "queues (fold (deliver R C) ps s) k =
    queues s k @ filter (\<lambda>m. origin_sender m \<noteq> k) (List.map_filter (dec_server C) ps)"
  using assms(2,3)
proof (induction ps arbitrary: s)
  case (Cons p ps)
  have "queues (deliver R C p s) k = queues s k @ filter (\<lambda>m. origin_sender m \<noteq> k) (List.map_filter (dec_server C) [p])"
    using registry.deliver_queues [OF assms(1) Cons.prems(2), of C p] Cons.prems(1)
    by (cases "dec_server C p") (auto simp: deliver_def map_filter_simps)
  then show ?case
    using Cons.IH [of "deliver R C p s"] Cons.prems by (simp add: map_filter_simps split: option.splits)
qed (simp add: map_filter_simps)

text \<open>
  C33: The listener delivers the bus in order: however often it loses its connection, a session that is registered or active
  gets, at the end of its queue, exactly the messages of the subscriptions that can be decoded, in the order of the
  bus and each once, except those that carry its own session number. So all sessions of the cluster see what the
  nodes receive in the same order.
\<close>
theorem listener_delivers_in_order:
  assumes "registry R" and "ws_ok R s" and "sessions s k \<in> {Some Registered, Some Active}"
  shows "queues (listen_global_broadcast R C attempts s) k =
    queues s k @ filter (\<lambda>m. origin_sender m \<noteq> k) (List.map_filter (dec_server C) (concat (map attempt_payloads attempts)))"
  unfolding listen_global_broadcast_fold by (rule fold_deliver_queues [OF assms(1,3,2)])

definition demo_codec :: codec where
  "demo_codec = \<lparr>enc_server = (\<lambda>m. Some [1]), dec_server = (\<lambda>b. Some (Notification 1 ''hi'')), dec_client = (\<lambda>b. Some Ping)\<rparr>"

definition demo_node :: "(u64 \<times> u64) list ServerState" where
  "demo_node = set_session 1 Registered (ws_register alist_registry 1
     (set_session 1 Handshake ((ws_node_new [])\<lparr>session_counter := 1\<rparr>)))"

lemma demo_node_reachable: "(ws_step alist_registry demo_codec True)\<^sup>*\<^sup>* (ws_node_new []) demo_node"
proof -
  let ?s = "set_session 1 Handshake ((ws_node_new [])\<lparr>session_counter := 1\<rparr>) :: (u64 \<times> u64) list ServerState"
  have "ws_step alist_registry demo_codec True (ws_node_new []) ?s"
    by (rule accept) (simp add: ws_node_new_def add_u64_def)
  moreover have "ws_step alist_registry demo_codec True ?s demo_node"
    unfolding demo_node_def by (rule handshake_ok) (simp add: set_session_def hm_insert_def)
  ultimately show ?thesis by (meson r_into_rtranclp rtranclp.rtrancl_into_rtrancl)
qed

lemma alist_empty: "rg_get alist_registry [] k = None"
  by (simp add: alist_registry_def)

theorem ws_registry_exact_witness:
  "rg_get alist_registry (connections demo_node) 1 \<noteq> None \<longleftrightarrow>
     sessions demo_node 1 \<in> {Some Registered, Some Active, Some Welcome_failed}"
  using ws_registry_exact [OF alist.registry_axioms alist_empty _ demo_node_reachable,
      of "\<lparr>cpus = 4, runtime_builds = (\<lambda>_. True), binds = (\<lambda>_. True), redis_opens = (\<lambda>_. True), pool_builds = (\<lambda>_. True)\<rparr>"]
  by (simp add: ws_main_def async_main_def)

lemma cluster_broadcast_example:
  "list_all2 (\<lambda>s s'. \<forall>j. queues s' j = queues s j @
       (if sessions s j \<in> {Some Registered, Some Active} \<and> j \<noteq> 1 then [Notification 1 ''hi''] else []))
     [demo_node, demo_node] (cluster_deliver alist_registry demo_codec [1] [demo_node, demo_node])"
proof -
  have "ws_init alist_registry (ws_node_new [])" by (auto simp: ws_init_def alist_empty)
  then have "ws_ok alist_registry demo_node" by (rule alist.ws_reachable_ok) (rule demo_node_reachable)
  then have "list_all (ws_ok alist_registry) [demo_node, demo_node]" by simp
  from cluster_broadcast [OF alist.registry_axioms this, of demo_codec 1 "''hi''" "[1]" 0] show ?thesis
    by (simp add: demo_codec_def)
qed

theorem listener_delivers_in_order_witness:
  "queues (listen_global_broadcast alist_registry (demo_codec\<lparr>dec_server := \<lambda>b. if b = [] then None else Some (Notification 2 ''hi'')\<rparr>)
     [No_connection, Stream [Some [7], None], No_subscription, Stream [Some [8]]] demo_node) 1 =
   queues demo_node 1 @ [Notification 2 ''hi'', Notification 2 ''hi'']"
proof -
  have "sessions demo_node 1 = Some Registered"
    by (simp add: demo_node_def set_session_def hm_insert_def)
  moreover have "ws_ok alist_registry demo_node"
    by (rule alist.ws_reachable_ok [OF _ demo_node_reachable]) (auto simp: ws_init_def alist_empty)
  ultimately show ?thesis
    by (subst listener_delivers_in_order [OF alist.registry_axioms]) (simp_all add: map_filter_simps origin_sender_def)
qed

end
