(* ===== verification/Ebpf_Protect.thy ===== *)
theory Ebpf_Protect
  imports Rust_Utf8 "HOL-Library.AList"
begin

text \<open>
  The guard of the loaded eBPF programs (\<^verbatim>\<open>ebpf_protect\<close>): every second it lists the programs of
  the kernel, looks each one up in a pinned whitelist map, and for the others detaches, removes the
  pin files and raises a syslog alert.

  The kernel, the file system and the syslog socket are the record \<open>bpf_sys\<close> of operations on an
  arbitrary state. What the guard relies on is the locale \<open>bpf_kernel\<close>, stated over a view of the
  state (open descriptors, pins, live programs, map contents): the guard is the only process that
  changes these between two of its calls. \<open>reliable_kernel\<close> adds that the calls on existing objects
  succeed. Both are interpreted on a reference kernel. The entries of the walk over the BPF file
  system are those present when the walk starts. The local log (\<^verbatim>\<open>info!\<close>, \<^verbatim>\<open>warn!\<close>, \<^verbatim>\<open>error!\<close>) has
  no influence and is left out; syslog messages are kept with their severity.
\<close>

section \<open>Constants, keys, messages\<close>

definition BPF_FS_PATH :: string where "BPF_FS_PATH = ''/sys/fs/bpf''"
definition WHITELIST_MAP_PIN_PATH :: string where
  "WHITELIST_MAP_PIN_PATH = ''/sys/fs/bpf/fw_whitelist_map''"
definition BPF_OBJ_NAME_LEN :: nat where "BPF_OBJ_NAME_LEN = 16"

record WhitelistKey =
  key_prog_type :: u32
  key_name :: bytes

text \<open>The fields of \<^verbatim>\<open>bpf_prog_info\<close> the guard reads.\<close>

record bpf_prog_info =
  info_type :: u32
  info_id :: u32
  info_name :: bytes

datatype severity = Crit | Err | Warning | Notice | Info

datatype guard_msg =
    Unauthorized u32 string u32
  | Purged u32
  | Unpinned bytes
  | Failed_unpin bytes
  | Started

section \<open>The system interface\<close>

record 'k bpf_sys =
  walkdir :: "string \<Rightarrow> 'k \<Rightarrow> bytes option list"
  path_is_file :: "bytes \<Rightarrow> 'k \<Rightarrow> bool"
  path_exists :: "string \<Rightarrow> 'k \<Rightarrow> bool"
  remove_file :: "bytes \<Rightarrow> 'k \<Rightarrow> bool \<times> 'k"
  bpf_obj_get :: "bytes \<Rightarrow> 'k \<Rightarrow> int \<times> 'k"
  bpf_obj_pin :: "int \<Rightarrow> bytes \<Rightarrow> 'k \<Rightarrow> int \<times> 'k"
  bpf_obj_get_info_by_fd :: "int \<Rightarrow> 'k \<Rightarrow> int \<times> bpf_prog_info"
  bpf_map_create :: "u32 \<Rightarrow> u32 \<Rightarrow> u32 \<Rightarrow> 'k \<Rightarrow> int \<times> 'k"
  bpf_map_lookup_elem :: "int \<Rightarrow> WhitelistKey \<Rightarrow> 'k \<Rightarrow> int"
  bpf_prog_detach :: "int \<Rightarrow> u32 \<Rightarrow> 'k \<Rightarrow> int \<times> 'k"
  bpf_prog_get_next_id :: "u32 \<Rightarrow> 'k \<Rightarrow> int \<times> u32"
  bpf_prog_get_fd_by_id :: "u32 \<Rightarrow> 'k \<Rightarrow> int \<times> 'k"
  sys_close :: "int \<Rightarrow> 'k \<Rightarrow> 'k"
  syslog :: "severity \<Rightarrow> guard_msg \<Rightarrow> 'k \<Rightarrow> bool \<times> 'k"

section \<open>The guard\<close>

text \<open>The body of the loop over the directory entries.\<close>

definition unpin_entry :: "'k bpf_sys \<Rightarrow> u32 \<Rightarrow> bytes \<Rightarrow> 'k \<Rightarrow> 'k" where
  "unpin_entry K prog_id path k =
     (if \<not> path_is_file K path k then k
      else if from_utf8_lossy path = WHITELIST_MAP_PIN_PATH then k
      else if 0 \<in> set path then k
      else case bpf_obj_get K path k of (fd, k1) \<Rightarrow>
        if fd < 0 then k1
        else case bpf_obj_get_info_by_fd K fd k1 of (info_res, info) \<Rightarrow>
          sys_close K fd
            (if info_res = 0 \<and> info_id info = prog_id
             then case remove_file K path k1 of (ok, k2) \<Rightarrow>
               (if \<not> ok then snd (syslog K Err (Failed_unpin path) k2)
                else snd (syslog K Notice (Unpinned path) k2))
             else k1))"

definition remove_bpf_pins_by_id :: "'k bpf_sys \<Rightarrow> u32 \<Rightarrow> 'k \<Rightarrow> 'k" where
  "remove_bpf_pins_by_id K prog_id k =
     fold (unpin_entry K prog_id) (List.map_filter (\<lambda>e. e) (walkdir K BPF_FS_PATH k)) k"

definition setup_whitelist_map :: "'k bpf_sys \<Rightarrow> 'k \<Rightarrow> (int \<times> 'k) run" where
  "setup_whitelist_map K k =
     (let (loaded, k1) =
        (if path_exists K WHITELIST_MAP_PIN_PATH k
         then bpf_obj_get K (as_bytes WHITELIST_MAP_PIN_PATH) k else (- 1, k))
      in if 0 \<le> loaded then Ret (loaded, k1)
         else case bpf_map_create K (of_nat (4 + BPF_OBJ_NAME_LEN)) 4 1024 k1 of (map_fd, k2) \<Rightarrow>
           if map_fd < 0 then Panic
           else case bpf_obj_pin K map_fd (as_bytes WHITELIST_MAP_PIN_PATH) k2 of (pin_res, k3) \<Rightarrow>
             if pin_res \<noteq> 0 then Panic else Ret (map_fd, k3))"

definition whitelist_key :: "string \<Rightarrow> u32 \<Rightarrow> WhitelistKey" where
  "whitelist_key name prog_type =
     (let name_bytes = as_bytes name;
          len = min (length name_bytes) (BPF_OBJ_NAME_LEN - 1)
      in \<lparr>key_prog_type = prog_type,
          key_name = take len name_bytes @ replicate (BPF_OBJ_NAME_LEN - len) 0\<rparr>)"

definition is_prog_allowed :: "'k bpf_sys \<Rightarrow> int \<Rightarrow> string \<Rightarrow> u32 \<Rightarrow> 'k \<Rightarrow> bool" where
  "is_prog_allowed K map_fd name prog_type k \<longleftrightarrow>
     bpf_map_lookup_elem K map_fd (whitelist_key name prog_type) k = 0"

definition force_unload_bpf_program :: "'k bpf_sys \<Rightarrow> int \<Rightarrow> u32 \<Rightarrow> 'k \<Rightarrow> 'k" where
  "force_unload_bpf_program K fd prog_id k =
     sys_close K fd (remove_bpf_pins_by_id K prog_id (snd (bpf_prog_detach K fd 0 k)))"

definition info_prog_name :: "bpf_prog_info \<Rightarrow> string" where
  "info_prog_name info = from_utf8_lossy (c_str (info_name info))"

text \<open>The body of the loop over the program ids, after \<^verbatim>\<open>id = next_id\<close>.\<close>

definition enforce_prog :: "'k bpf_sys \<Rightarrow> int \<Rightarrow> u32 \<Rightarrow> 'k \<Rightarrow> 'k" where
  "enforce_prog K map_fd prog_id k =
     (case bpf_prog_get_fd_by_id K prog_id k of (fd, k1) \<Rightarrow>
        if fd < 0 then k1
        else case bpf_obj_get_info_by_fd K fd k1 of (info_res, info) \<Rightarrow>
          if info_res \<noteq> 0 then sys_close K fd k1
          else if is_prog_allowed K map_fd (info_prog_name info) (info_type info) k1
          then sys_close K fd k1
          else
            let k2 = snd (syslog K Crit (Unauthorized prog_id (info_prog_name info) (info_type info)) k1);
                k3 = force_unload_bpf_program K fd prog_id k2
            in snd (syslog K Warning (Purged prog_id) k3))"

partial_function (option) enforce_from :: "'k bpf_sys \<Rightarrow> int \<Rightarrow> u32 \<Rightarrow> 'k \<Rightarrow> 'k option" where
  "enforce_from K map_fd prog_id k =
     (case bpf_prog_get_next_id K prog_id k of (res, next_id) \<Rightarrow>
        if res \<noteq> 0 then Some k
        else enforce_from K map_fd next_id (enforce_prog K map_fd next_id k))"

definition check_and_enforce :: "'k bpf_sys \<Rightarrow> int \<Rightarrow> 'k \<Rightarrow> 'k option" where
  "check_and_enforce K map_fd k = enforce_from K map_fd 0 k"

text \<open>
  The start of \<^verbatim>\<open>main\<close>: \<^verbatim>\<open>syslog::unix\<close> either gives a writer or fails, which panics.
\<close>

definition guard_start :: "'k bpf_sys \<Rightarrow> bool \<Rightarrow> 'k \<Rightarrow> (int \<times> 'k) run" where
  "guard_start K syslog_opened k =
     (if \<not> syslog_opened then Panic
      else setup_whitelist_map K (snd (syslog K Info Started k)))"

text \<open>The first rounds of the endless loop of \<^verbatim>\<open>main\<close>.\<close>

fun guard_rounds :: "'k bpf_sys \<Rightarrow> int \<Rightarrow> nat \<Rightarrow> 'k \<Rightarrow> 'k option" where
  "guard_rounds K map_fd 0 k = Some k"
| "guard_rounds K map_fd (Suc n) k =
     (case check_and_enforce K map_fd k of
        None \<Rightarrow> None
      | Some k1 \<Rightarrow> guard_rounds K map_fd n k1)"

section \<open>The contract of the kernel\<close>

text \<open>
  The objects a descriptor or a pin refers to. The id is at the same offset of the three info
  structures, so \<^verbatim>\<open>bpf_obj_get_info_by_fd\<close> fills it in whatever the object is.
\<close>

datatype kobj = KProg u32 | KMap u32 | KLink u32

fun kobj_id :: "kobj \<Rightarrow> u32" where
  "kobj_id (KProg i) = i"
| "kobj_id (KMap i) = i"
| "kobj_id (KLink i) = i"

record kview =
  kv_fds :: "int \<rightharpoonup> kobj"
  kv_pins :: "bytes \<rightharpoonup> kobj"
  kv_progs :: "u32 \<rightharpoonup> bpf_prog_info"
  kv_attached :: "u32 set"
  kv_maps :: "u32 \<rightharpoonup> WhitelistKey set"

text \<open>
  The programs that something keeps alive: an attachment (other than by a link), a descriptor or a
  pin. When a reference goes away the kernel may free programs, but none of these.
\<close>

definition kv_held :: "kview \<Rightarrow> u32 set" where
  "kv_held v = kv_attached v \<union> {i. KProg i \<in> ran (kv_fds v) \<union> ran (kv_pins v)}"

definition refs_dropped :: "kview \<Rightarrow> kview \<Rightarrow> bool" where
  "refs_dropped v v' \<longleftrightarrow>
     (\<exists>gone. gone \<inter> kv_held v = {} \<and> v' = v\<lparr>kv_progs := kv_progs v |` (- gone)\<rparr>)"

definition kv_listed :: "kview \<Rightarrow> u32 \<Rightarrow> WhitelistKey \<Rightarrow> bool" where
  "kv_listed v m key \<longleftrightarrow> (case kv_maps v m of None \<Rightarrow> False | Some keys \<Rightarrow> key \<in> keys)"

locale bpf_kernel =
  fixes K :: "'k bpf_sys" and view :: "'k \<Rightarrow> kview"
  assumes obj_get_ok: "bpf_obj_get K p k = (fd, k') \<Longrightarrow> 0 \<le> fd \<Longrightarrow>
      kv_fds (view k) fd = None \<and>
      (\<exists>ob. kv_pins (view k) p = Some ob \<and> view k' = view k\<lparr>kv_fds := (kv_fds (view k))(fd \<mapsto> ob)\<rparr>)"
    and obj_get_fail: "bpf_obj_get K p k = (fd, k') \<Longrightarrow> fd < 0 \<Longrightarrow> view k' = view k"
    and obj_pin_ok: "bpf_obj_pin K fd p k = (0, k') \<Longrightarrow> kv_fds (view k) fd = Some ob \<Longrightarrow>
      kv_pins (view k) p = None \<and> view k' = view k\<lparr>kv_pins := (kv_pins (view k))(p \<mapsto> ob)\<rparr>"
    and info_ok: "bpf_obj_get_info_by_fd K fd k = (0, info) \<Longrightarrow> kv_fds (view k) fd = Some ob \<Longrightarrow>
      info_id info = kobj_id ob \<and> (\<forall>i. ob = KProg i \<longrightarrow> kv_progs (view k) i = Some info)"
    and map_create_ok: "bpf_map_create K ks vs n k = (fd, k') \<Longrightarrow> 0 \<le> fd \<Longrightarrow>
      kv_fds (view k) fd = None \<and>
      (\<exists>m. kv_maps (view k) m = None \<and>
           view k' = view k\<lparr>kv_fds := (kv_fds (view k))(fd \<mapsto> KMap m),
                            kv_maps := (kv_maps (view k))(m \<mapsto> {})\<rparr>)"
    and lookup: "kv_fds (view k) fd = Some (KMap m) \<Longrightarrow>
      bpf_map_lookup_elem K fd key k = 0 \<longleftrightarrow> kv_listed (view k) m key"
    and remove_ok: "remove_file K p k = (True, k') \<Longrightarrow>
      refs_dropped (view k\<lparr>kv_pins := (kv_pins (view k))(p := None)\<rparr>) (view k')"
    and remove_fail: "remove_file K p k = (False, k') \<Longrightarrow> view k' = view k"
    and close_fd: "refs_dropped (view k\<lparr>kv_fds := (kv_fds (view k))(fd := None)\<rparr>) (view (sys_close K fd k))"
    and next_id_ok: "bpf_prog_get_next_id K i k = (0, j) \<Longrightarrow>
      i < j \<and> j \<in> dom (kv_progs (view k)) \<and> (\<forall>l \<in> dom (kv_progs (view k)). i < l \<longrightarrow> j \<le> l)"
    and next_id_end: "bpf_prog_get_next_id K i k = (r, j) \<Longrightarrow> r \<noteq> 0 \<Longrightarrow>
      l \<in> dom (kv_progs (view k)) \<Longrightarrow> l \<le> i"
    and prog_fd_ok: "bpf_prog_get_fd_by_id K i k = (fd, k') \<Longrightarrow> 0 \<le> fd \<Longrightarrow>
      kv_fds (view k) fd = None \<and> i \<in> dom (kv_progs (view k)) \<and>
      view k' = view k\<lparr>kv_fds := (kv_fds (view k))(fd \<mapsto> KProg i)\<rparr>"
    and prog_fd_fail: "bpf_prog_get_fd_by_id K i k = (fd, k') \<Longrightarrow> fd < 0 \<Longrightarrow> view k' = view k"
    \<comment> \<open>the first argument of \<^verbatim>\<open>bpf_prog_detach\<close> is the target (a cgroup); a program is none\<close>
    and detach_prog: "kv_fds (view k) fd = Some (KProg i) \<Longrightarrow> view (snd (bpf_prog_detach K fd t k)) = view k"
    and syslog_view: "view (snd (syslog K sev msg k)) = view k"

text \<open>The calls on objects that exist succeed, and the walk lists every pin.\<close>

locale reliable_kernel = bpf_kernel +
  assumes walk_pins: "p \<in> dom (kv_pins (view k)) \<Longrightarrow>
      Some p \<in> set (walkdir K BPF_FS_PATH k) \<and> path_is_file K p k \<and> 0 \<notin> set p"
    and obj_get_works: "p \<in> dom (kv_pins (view k)) \<Longrightarrow> 0 \<le> fst (bpf_obj_get K p k)"
    and info_works: "kv_fds (view k) fd = Some ob \<Longrightarrow>
      (\<And>i. ob = KProg i \<Longrightarrow> kv_progs (view k) i \<noteq> None) \<Longrightarrow> fst (bpf_obj_get_info_by_fd K fd k) = 0"
    and remove_works: "p \<in> dom (kv_pins (view k)) \<Longrightarrow> fst (remove_file K p k)"
    and prog_fd_works: "i \<in> dom (kv_progs (view k)) \<Longrightarrow> 0 \<le> fst (bpf_prog_get_fd_by_id K i k)"

section \<open>What a scan changes\<close>

text \<open>
  The effect of the guard on the system: descriptors, attachments and map contents are the same
  afterwards; pins only disappear, never that of the whitelist, and only pins of objects whose id is
  in the given set; programs only disappear, and only when nothing holds them any more.
\<close>

definition only_unpins :: "u32 set \<Rightarrow> kview \<Rightarrow> kview \<Rightarrow> bool" where
  "only_unpins S v v' \<longleftrightarrow>
     kv_fds v' = kv_fds v \<and> kv_attached v' = kv_attached v \<and> kv_maps v' = kv_maps v \<and>
     kv_pins v' \<subseteq>\<^sub>m kv_pins v \<and> kv_progs v' \<subseteq>\<^sub>m kv_progs v \<and>
     kv_pins v' (as_bytes WHITELIST_MAP_PIN_PATH) = kv_pins v (as_bytes WHITELIST_MAP_PIN_PATH) \<and>
     (\<forall>p ob. kv_pins v p = Some ob \<and> kobj_id ob \<notin> S \<longrightarrow> kv_pins v' p = Some ob) \<and>
     (\<forall>i \<in> kv_held v'. kv_progs v' i = kv_progs v i)"

lemma ran_map_le: "m \<subseteq>\<^sub>m m' \<Longrightarrow> ran m \<subseteq> ran m'"
  by (force simp: ran_def map_le_def dom_def)

lemma only_unpins_refl [simp]: "only_unpins S v v"
  by (simp add: only_unpins_def)

lemma only_unpins_mono: "only_unpins S v v' \<Longrightarrow> S \<subseteq> T \<Longrightarrow> only_unpins T v v'"
  by (auto simp: only_unpins_def)

lemma only_unpins_held: "only_unpins S v v' \<Longrightarrow> kv_held v' \<subseteq> kv_held v"
  using ran_map_le [of "kv_pins v'" "kv_pins v"] by (auto simp: only_unpins_def kv_held_def)

lemma only_unpins_trans:
  assumes "only_unpins S u v" and "only_unpins S v w"
  shows "only_unpins S u w"
proof -
  have "kv_pins w \<subseteq>\<^sub>m kv_pins u" "kv_progs w \<subseteq>\<^sub>m kv_progs u"
    using assms by (auto simp: only_unpins_def intro: map_le_trans)
  moreover have "\<forall>i \<in> kv_held w. kv_progs w i = kv_progs u i"
    using assms only_unpins_held [OF assms(2)] by (auto simp: only_unpins_def)
  ultimately show ?thesis
    using assms by (simp add: only_unpins_def)
qed

lemma only_unpins_fold:
  "(\<And>x k. x \<in> set xs \<Longrightarrow> only_unpins S (view k) (view (f x k))) \<Longrightarrow>
   only_unpins S (view k) (view (fold f xs k))"
  by (induction xs arbitrary: k) (auto intro: only_unpins_trans)

lemma from_utf8_lossy_whitelist [simp]:
  "from_utf8_lossy (as_bytes WHITELIST_MAP_PIN_PATH) = WHITELIST_MAP_PIN_PATH"
proof -
  have "\<forall>b \<in> set (as_bytes WHITELIST_MAP_PIN_PATH). b < 0x80"
    by code_simp
  then show ?thesis
    by (simp add: from_utf8_lossy_def utf8_lossy_ascii)
qed

lemma refs_dropped_fields:
  "refs_dropped v v' \<Longrightarrow>
   kv_fds v' = kv_fds v \<and> kv_pins v' = kv_pins v \<and> kv_attached v' = kv_attached v \<and> kv_maps v' = kv_maps v \<and>
   kv_held v' = kv_held v \<and> kv_progs v' \<subseteq>\<^sub>m kv_progs v \<and> (\<forall>i \<in> kv_held v. kv_progs v' i = kv_progs v i)"
  by (auto simp: refs_dropped_def kv_held_def map_le_def restrict_map_def split: if_splits)

text \<open>Opening a descriptor, doing some unpinning and closing it again.\<close>

lemma only_unpins_bracket:
  assumes new: "kv_fds v fd = None"
    and mid: "only_unpins S (v\<lparr>kv_fds := (kv_fds v)(fd \<mapsto> ob)\<rparr>) v2"
    and close: "refs_dropped (v2\<lparr>kv_fds := (kv_fds v2)(fd := None)\<rparr>) v3"
  shows "only_unpins S v v3"
proof -
  let ?v2 = "v2\<lparr>kv_fds := (kv_fds v2)(fd := None)\<rparr>"
  note v3 = refs_dropped_fields [OF close]
  have fds: "kv_fds ?v2 = kv_fds v"
    using new mid by (auto simp: only_unpins_def)
  have sub: "kv_held ?v2 \<subseteq> kv_held v2"
    by (auto simp: kv_held_def ran_def split: if_splits)
  have "\<forall>i \<in> kv_held v3. kv_progs v3 i = kv_progs v i"
    using v3 sub mid by (auto simp: only_unpins_def)
  moreover have "kv_progs v3 \<subseteq>\<^sub>m kv_progs v"
    using v3 mid by (auto simp: only_unpins_def intro: map_le_trans)
  ultimately show ?thesis
    using v3 mid fds by (simp add: only_unpins_def)
qed

lemma only_unpins_remove:
  assumes "refs_dropped (v\<lparr>kv_pins := (kv_pins v)(p := None)\<rparr>) v'"
    and "p \<noteq> as_bytes WHITELIST_MAP_PIN_PATH" and "kv_pins v p = Some ob" and "kobj_id ob \<in> S"
  shows "only_unpins S v v'"
  using refs_dropped_fields [OF assms(1)] assms(2-)
  by (auto simp: only_unpins_def map_le_def)

text \<open>A live program the whitelist map \<open>m\<close> has no entry for.\<close>

definition offender :: "kview \<Rightarrow> u32 \<Rightarrow> u32 \<Rightarrow> bool" where
  "offender v m i \<longleftrightarrow>
     (case kv_progs v i of
        None \<Rightarrow> False
      | Some info \<Rightarrow> \<not> kv_listed v m (whitelist_key (info_prog_name info) (info_type info)))"

lemma map_le_SomeD: "m \<subseteq>\<^sub>m m' \<Longrightarrow> m x = Some y \<Longrightarrow> m' x = Some y"
  by (metis domI map_le_def)

lemma offender_back:
  assumes "only_unpins S v v'" and "offender v' m i"
  shows "offender v m i"
proof -
  have le: "kv_progs v' \<subseteq>\<^sub>m kv_progs v" and maps: "kv_maps v' = kv_maps v"
    using assms(1) by (auto simp: only_unpins_def)
  obtain info where "kv_progs v' i = Some info"
    using assms(2) by (auto simp: offender_def split: option.splits)
  with map_le_SomeD [OF le this] maps assms(2) show ?thesis
    by (simp add: offender_def kv_listed_def)
qed

lemma offender_held:
  assumes "only_unpins S v v'" and "i \<in> kv_held v'"
  shows "offender v' m i \<longleftrightarrow> offender v m i"
proof -
  have "kv_maps v' = kv_maps v" "kv_progs v' i = kv_progs v i"
    using assms by (auto simp: only_unpins_def)
  then show ?thesis by (simp add: offender_def kv_listed_def cong: option.case_cong)
qed

context bpf_kernel
begin

lemma unpin_entry_effect: "only_unpins {i} (view k) (view (unpin_entry K i p k))"
proof (cases "path_is_file K p k \<and> from_utf8_lossy p \<noteq> WHITELIST_MAP_PIN_PATH \<and> 0 \<notin> set p")
  case True
  then have p: "p \<noteq> as_bytes WHITELIST_MAP_PIN_PATH" by auto
  obtain fd k1 where get: "bpf_obj_get K p k = (fd, k1)" by force
  obtain r info where inf: "bpf_obj_get_info_by_fd K fd k1 = (r, info)" by force
  obtain ok k2 where rm: "remove_file K p k1 = (ok, k2)" by force
  show ?thesis
  proof (cases "fd < 0")
    case True
    then show ?thesis
      using get by (simp add: unpin_entry_def obj_get_fail)
  next
    case False
    then obtain ob where fresh: "kv_fds (view k) fd = None" and pin: "kv_pins (view k) p = Some ob"
      and v1: "view k1 = view k\<lparr>kv_fds := (kv_fds (view k))(fd \<mapsto> ob)\<rparr>"
      using obj_get_ok [OF get] by auto
    have id: "kobj_id ob = i" if "r = 0" "info_id info = i"
      using info_ok [of fd k1 info ob] inf v1 that by simp
    have removed: "only_unpins {i} (view k1) (view k2)" if "r = 0" "info_id info = i"
      using remove_ok [of p k1 k2] remove_fail [of p k1 k2] rm id that p pin v1
      by (cases ok) (auto intro!: only_unpins_remove [where ob = ob])
    let ?k = "if r = 0 \<and> info_id info = i
        then (if \<not> ok then snd (syslog K Err (Failed_unpin p) k2) else snd (syslog K Notice (Unpinned p) k2)) else k1"
    have "only_unpins {i} (view k1) (view ?k)"
      using removed by (simp add: syslog_view)
    then have "only_unpins {i} (view k) (view (sys_close K fd ?k))"
      unfolding v1 by (rule only_unpins_bracket [OF fresh _ close_fd])
    then show ?thesis
      using True False get inf rm by (auto simp: unpin_entry_def split: if_splits)
  qed
qed (auto simp: unpin_entry_def)

lemma remove_pins_effect: "only_unpins {i} (view k) (view (remove_bpf_pins_by_id K i k))"
  unfolding remove_bpf_pins_by_id_def by (rule only_unpins_fold) (rule unpin_entry_effect)

lemma enforce_prog_effect:
  assumes map: "kv_fds (view k) map_fd = Some (KMap m)"
  shows "only_unpins {j. j = i \<and> offender (view k) m j} (view k) (view (enforce_prog K map_fd i k))"
    (is "only_unpins ?S _ _")
proof -
  obtain fd k1 where get: "bpf_prog_get_fd_by_id K i k = (fd, k1)" by force
  obtain r info where inf: "bpf_obj_get_info_by_fd K fd k1 = (r, info)" by force
  show ?thesis
  proof (cases "fd < 0")
    case True
    then show ?thesis
      using get by (simp add: enforce_prog_def prog_fd_fail)
  next
    case False
    then have fresh: "kv_fds (view k) fd = None"
      and v1: "view k1 = view k\<lparr>kv_fds := (kv_fds (view k))(fd \<mapsto> KProg i)\<rparr>"
      using prog_fd_ok [OF get] by auto
    have map1: "kv_fds (view k1) map_fd = Some (KMap m)"
      using map fresh v1 by auto
    let ?allowed = "is_prog_allowed K map_fd (info_prog_name info) (info_type info) k1"
    have closed: "only_unpins ?S (view k) (view (sys_close K fd k'))"
      if "only_unpins ?S (view k1) (view k')" for k'
      using that unfolding v1 by (rule only_unpins_bracket [OF fresh _ close_fd])
    have S: "?S = {i}" if "r = 0" "\<not> ?allowed"
      using info_ok [of fd k1 info "KProg i"] inf that map1 v1
      by (auto simp: offender_def is_prog_allowed_def lookup kv_listed_def)
    have unload: "only_unpins {i} (view k1) (view (remove_bpf_pins_by_id K i (snd (bpf_prog_detach K fd 0
          (snd (syslog K Crit msg k1))))))" for msg
      using remove_pins_effect [of i "snd (bpf_prog_detach K fd 0 (snd (syslog K Crit msg k1)))"]
      by (simp add: detach_prog [where i = i] syslog_view v1)
    show ?thesis
      using False get inf S unload closed [of k1] closed
      by (auto simp: enforce_prog_def force_unload_bpf_program_def Let_def syslog_view)
  qed
qed

lemma enforce_prog_map:
  "kv_fds (view k) map_fd = Some (KMap m) \<Longrightarrow>
   kv_fds (view (enforce_prog K map_fd i k)) map_fd = Some (KMap m)"
  using enforce_prog_effect [of k map_fd m i] by (simp add: only_unpins_def)

lemma enforce_from_effect:
  assumes "kv_fds (view k) map_fd = Some (KMap m)"
  shows "\<exists>k'. enforce_from K map_fd i k = Some k' \<and>
           only_unpins {j. i < j \<and> offender (view k) m j} (view k) (view k')"
  using assms
proof (induction "2 ^ 32 - unat i" arbitrary: i k rule: less_induct)
  case less
  obtain r n where next_id: "bpf_prog_get_next_id K i k = (r, n)" by force
  show ?case
  proof (cases "r = 0")
    case True
    then have "i < n" using next_id_ok next_id by blast
    let ?k = "enforce_prog K map_fd n k" and ?S = "{j. i < j \<and> offender (view k) m j}"
    have "2 ^ 32 - unat n < 2 ^ 32 - unat i"
      using \<open>i < n\<close> unsigned_less [of n, where ?'a = nat] by (simp add: word_less_nat_alt)
    from less.hyps [OF this enforce_prog_map [OF less.prems]]
    obtain k' where k': "enforce_from K map_fd n ?k = Some k'"
      and later: "only_unpins {j. n < j \<and> offender (view ?k) m j} (view ?k) (view k')"
      by blast
    note first = enforce_prog_effect [OF less.prems, of n]
    have "only_unpins ?S (view k) (view ?k)"
      by (rule only_unpins_mono [OF first]) (use \<open>i < n\<close> in auto)
    moreover have "only_unpins ?S (view ?k) (view k')"
      by (rule only_unpins_mono [OF later]) (use \<open>i < n\<close> offender_back [OF first] in auto)
    ultimately have "only_unpins ?S (view k) (view k')"
      by (rule only_unpins_trans)
    then show ?thesis
      using k' next_id True by (simp add: enforce_from.simps [of K map_fd i k])
  qed (use next_id in \<open>simp add: enforce_from.simps [of K map_fd i k]\<close>)
qed

lemma check_and_enforce_effect:
  assumes "kv_fds (view k) map_fd = Some (KMap m)"
  shows "\<exists>k'. check_and_enforce K map_fd k = Some k' \<and>
           only_unpins {j. offender (view k) m j} (view k) (view k')"
proof -
  obtain k' where k': "check_and_enforce K map_fd k = Some k'"
    and eff: "only_unpins {j. 0 < j \<and> offender (view k) m j} (view k) (view k')"
    using enforce_from_effect [OF assms, of 0] by (auto simp: check_and_enforce_def)
  from eff have "only_unpins {j. offender (view k) m j} (view k) (view k')"
    by (rule only_unpins_mono) auto
  with k' show ?thesis by blast
qed

lemma guard_rounds_effect:
  "kv_fds (view k) map_fd = Some (KMap m) \<Longrightarrow>
   \<exists>k'. guard_rounds K map_fd n k = Some k' \<and>
        only_unpins {j. offender (view k) m j} (view k) (view k')"
proof (induction n arbitrary: k)
  case (Suc n)
  obtain k1 where k1: "check_and_enforce K map_fd k = Some k1"
    and first: "only_unpins {j. offender (view k) m j} (view k) (view k1)"
    using check_and_enforce_effect [OF Suc.prems] by blast
  then have "kv_fds (view k1) map_fd = Some (KMap m)"
    using Suc.prems by (simp add: only_unpins_def)
  then obtain k2 where k2: "guard_rounds K map_fd n k1 = Some k2"
    and later: "only_unpins {j. offender (view k1) m j} (view k1) (view k2)"
    using Suc.IH by blast
  have "only_unpins {j. offender (view k) m j} (view k1) (view k2)"
    by (rule only_unpins_mono [OF later]) (use offender_back [OF first] in auto)
  with first have "only_unpins {j. offender (view k) m j} (view k) (view k2)"
    by (rule only_unpins_trans)
  with k1 k2 show ?case by simp
qed simp

end

context bpf_kernel
begin

lemma setup_whitelist_map_effect:
  assumes "setup_whitelist_map K k0 = Ret (fd, k')" and k0: "view k0 = view k"
  shows "kv_fds (view k) fd = None \<and>
         (case kv_pins (view k) (as_bytes WHITELIST_MAP_PIN_PATH) of
            Some ob \<Rightarrow> view k' = view k\<lparr>kv_fds := (kv_fds (view k))(fd \<mapsto> ob)\<rparr>
          | None \<Rightarrow> (\<exists>m. view k' = view k\<lparr>kv_fds := (kv_fds (view k))(fd \<mapsto> KMap m),
                       kv_pins := (kv_pins (view k))(as_bytes WHITELIST_MAP_PIN_PATH \<mapsto> KMap m),
                       kv_maps := (kv_maps (view k))(m \<mapsto> {})\<rparr> \<and>
                     (\<forall>i. kv_progs (view k) i \<noteq> None \<longrightarrow> offender (view k') m i)))"
proof -
  let ?wl = "as_bytes WHITELIST_MAP_PIN_PATH"
  obtain l k1 where first: "(if path_exists K WHITELIST_MAP_PIN_PATH k0 then bpf_obj_get K ?wl k0 else (- 1, k0)) = (l, k1)"
    by force
  show ?thesis
  proof (cases "0 \<le> l")
    case True
    then have "bpf_obj_get K ?wl k0 = (l, k1)" "fd = l" "k' = k1"
      using first assms(1) by (auto simp: setup_whitelist_map_def split: if_splits)
    then show ?thesis
      using obj_get_ok [of ?wl k0 l k1] True k0 by auto
  next
    case False
    then have v1: "view k1 = view k"
      using first obj_get_fail [of ?wl k0 l k1] k0 by (auto split: if_splits)
    obtain f k2 where new: "bpf_map_create K (of_nat (4 + BPF_OBJ_NAME_LEN)) 4 1024 k1 = (f, k2)" by force
    obtain r k3 where pin: "bpf_obj_pin K f ?wl k2 = (r, k3)" by force
    have res: "0 \<le> f" "r = 0" "fd = f" "k' = k3"
      using assms(1) first False new pin by (auto simp: setup_whitelist_map_def split: if_splits)
    obtain m where "kv_fds (view k) fd = None"
      and v2: "view k2 = view k\<lparr>kv_fds := (kv_fds (view k))(fd \<mapsto> KMap m), kv_maps := (kv_maps (view k))(m \<mapsto> {})\<rparr>"
      using map_create_ok [OF new] res v1 by auto
    moreover have "kv_pins (view k2) ?wl = None"
      "view k3 = view k2\<lparr>kv_pins := (kv_pins (view k2))(?wl \<mapsto> KMap m)\<rparr>"
      using obj_pin_ok [of f ?wl k2 k3 "KMap m"] pin res v2 by auto
    ultimately show ?thesis
      using res by (auto simp: offender_def kv_listed_def intro!: exI [of _ m])
  qed
qed

end

text \<open>Only the pin path itself is skipped: its lossy form has no other source.\<close>

lemma lossy_whitelist_iff:
  "from_utf8_lossy p = WHITELIST_MAP_PIN_PATH \<longleftrightarrow> p = as_bytes WHITELIST_MAP_PIN_PATH"
proof
  assume "from_utf8_lossy p = WHITELIST_MAP_PIN_PATH"
  then have eq: "utf8_lossy p = as_bytes WHITELIST_MAP_PIN_PATH"
    by (metis from_utf8_lossy_def as_bytes_bytes_str)
  have "\<forall>b \<in> set (as_bytes WHITELIST_MAP_PIN_PATH). b < 0x80"
    by code_simp
  then have "utf8_lossy p = p"
    by (intro utf8_lossy_ascii_inv) (simp add: eq)
  with eq show "p = as_bytes WHITELIST_MAP_PIN_PATH" by simp
qed simp

lemma only_unpins_None: "only_unpins S v v' \<Longrightarrow> kv_pins v p = None \<Longrightarrow> kv_pins v' p = None"
  by (cases "kv_pins v' p") (auto simp: only_unpins_def dest: map_le_SomeD)

lemma kv_held_pinned: "kv_pins v p = Some (KProg j) \<Longrightarrow> j \<in> kv_held v"
  by (auto simp: kv_held_def ran_def)

lemma only_unpins_pinned:
  "only_unpins S v v' \<Longrightarrow> kv_pins v' p = Some (KProg j) \<Longrightarrow> kv_progs v' j = kv_progs v j"
  by (drule kv_held_pinned) (simp add: only_unpins_def)

context reliable_kernel
begin

lemma unpin_entry_removes:
  assumes pin: "kv_pins (view k) p = Some ob" "kobj_id ob = i" "p \<noteq> as_bytes WHITELIST_MAP_PIN_PATH"
    and live: "\<And>j. ob = KProg j \<Longrightarrow> kv_progs (view k) j \<noteq> None"
  shows "kv_pins (view (unpin_entry K i p k)) p = None"
proof -
  have dom: "p \<in> dom (kv_pins (view k))" using pin by blast
  obtain fd k1 where get: "bpf_obj_get K p k = (fd, k1)" by force
  then have fd: "\<not> fd < 0" using obj_get_works [OF dom] by simp
  then have v1: "view k1 = view k\<lparr>kv_fds := (kv_fds (view k))(fd \<mapsto> ob)\<rparr>"
    using obj_get_ok [OF get] pin by auto
  then obtain info where inf: "bpf_obj_get_info_by_fd K fd k1 = (0, info)"
    using info_works [of k1 fd ob] live by (cases "bpf_obj_get_info_by_fd K fd k1") auto
  have id: "info_id info = i"
    using info_ok [OF inf, of ob] v1 pin by simp
  obtain k2 where rm: "remove_file K p k1 = (True, k2)"
    using remove_works [of p k1] dom v1 by (cases "remove_file K p k1") auto
  have gone: "kv_pins (view k2) p = None"
    using refs_dropped_fields [OF remove_ok [OF rm]] by simp
  have "unpin_entry K i p k = sys_close K fd (snd (syslog K Notice (Unpinned p) k2))"
    using walk_pins [OF dom] pin(3) fd get inf id rm
    by (simp add: unpin_entry_def lossy_whitelist_iff)
  then show ?thesis
    using refs_dropped_fields [OF close_fd [of "snd (syslog K Notice (Unpinned p) k2)" fd]] gone
    by (simp add: syslog_view)
qed

lemma unpin_fold_removes:
  "p \<in> set ps \<Longrightarrow> kv_pins (view k) p = Some ob \<Longrightarrow> kobj_id ob = i \<Longrightarrow> p \<noteq> as_bytes WHITELIST_MAP_PIN_PATH \<Longrightarrow>
   (\<And>j. ob = KProg j \<Longrightarrow> kv_progs (view k) j \<noteq> None) \<Longrightarrow>
   kv_pins (view (fold (unpin_entry K i) ps k)) p = None"
proof (induction ps arbitrary: k)
  case (Cons q ps)
  let ?k = "unpin_entry K i q k"
  have rest: "only_unpins {i} (view ?k) (view (fold (unpin_entry K i) ps ?k))"
    by (rule only_unpins_fold) (rule unpin_entry_effect)
  show ?case
  proof (cases "kv_pins (view ?k) p")
    case None
    then show ?thesis using only_unpins_None [OF rest] by simp
  next
    case (Some ob')
    have "kv_pins (view ?k) \<subseteq>\<^sub>m kv_pins (view k)"
      using unpin_entry_effect by (simp add: only_unpins_def)
    from map_le_SomeD [OF this Some] have "ob' = ob" using Cons.prems by simp
    moreover have "p \<noteq> q"
      using Some unpin_entry_removes [OF Cons.prems(2-5)] by auto
    moreover have "kv_progs (view ?k) j \<noteq> None" if "ob = KProg j" for j
      using only_unpins_pinned [OF unpin_entry_effect] Some \<open>ob' = ob\<close> Cons.prems(5) that by simp
    ultimately show ?thesis
      using Cons Some by simp
  qed
qed simp

lemma remove_pins_removes:
  assumes "kv_pins (view k) p = Some ob" "kobj_id ob = i" "p \<noteq> as_bytes WHITELIST_MAP_PIN_PATH"
    "\<And>j. ob = KProg j \<Longrightarrow> kv_progs (view k) j \<noteq> None"
  shows "kv_pins (view (remove_bpf_pins_by_id K i k)) p = None"
proof -
  have "Some p \<in> set (walkdir K BPF_FS_PATH k)"
    using walk_pins assms(1) by blast
  then have "p \<in> set (List.map_filter (\<lambda>e. e) (walkdir K BPF_FS_PATH k))"
    by (force simp: List.map_filter_def)
  from unpin_fold_removes [OF this assms] show ?thesis
    by (simp add: remove_bpf_pins_by_id_def)
qed

lemma enforce_prog_removes:
  assumes map: "kv_fds (view k) map_fd = Some (KMap m)" and off: "offender (view k) m i"
    and pin: "kv_pins (view k) p = Some ob" "kobj_id ob = i" "p \<noteq> as_bytes WHITELIST_MAP_PIN_PATH"
  shows "kv_pins (view (enforce_prog K map_fd i k)) p = None"
proof -
  obtain fd k1 where get: "bpf_prog_get_fd_by_id K i k = (fd, k1)" by force
  obtain info where live: "kv_progs (view k) i = Some info"
    and bad: "\<not> kv_listed (view k) m (whitelist_key (info_prog_name info) (info_type info))"
    using off by (auto simp: offender_def split: option.splits)
  have fd: "\<not> fd < 0" using prog_fd_works [of i k] live get by (simp add: domIff)
  then have fresh: "kv_fds (view k) fd = None"
    and v1: "view k1 = view k\<lparr>kv_fds := (kv_fds (view k))(fd \<mapsto> KProg i)\<rparr>"
    using prog_fd_ok [OF get] by auto
  have inf: "bpf_obj_get_info_by_fd K fd k1 = (0, info)"
    using info_works [of k1 fd "KProg i"] info_ok [of fd k1 _ "KProg i"] v1 live
    by (cases "bpf_obj_get_info_by_fd K fd k1") auto
  have map1: "kv_fds (view k1) map_fd = Some (KMap m)"
    using map fresh v1 by auto
  have denied: "\<not> is_prog_allowed K map_fd (info_prog_name info) (info_type info) k1"
    using lookup [OF map1] bad by (simp add: is_prog_allowed_def kv_listed_def v1)
  define k2 where "k2 = snd (bpf_prog_detach K fd 0 (snd (syslog K Crit
      (Unauthorized i (info_prog_name info) (info_type info)) k1)))"
  have "view k2 = view k1"
    unfolding k2_def by (simp add: detach_prog [where i = i] syslog_view v1)
  then have "kv_pins (view (remove_bpf_pins_by_id K i k2)) p = None"
    using pin v1 live by (intro remove_pins_removes) auto
  then have "kv_pins (view (sys_close K fd (remove_bpf_pins_by_id K i k2))) p = None"
    using refs_dropped_fields [OF close_fd [of "remove_bpf_pins_by_id K i k2" fd]] by simp
  then show ?thesis
    using get fd inf denied
    by (simp add: enforce_prog_def force_unload_bpf_program_def Let_def syslog_view k2_def)
qed

lemma enforce_from_removes:
  assumes "kv_fds (view k) map_fd = Some (KMap m)" "kv_pins (view k) p = Some (KProg j)"
    "p \<noteq> as_bytes WHITELIST_MAP_PIN_PATH" "i < j" "offender (view k) m j"
    "enforce_from K map_fd i k = Some k'"
  shows "kv_pins (view k') p = None"
  using assms
proof (induction "2 ^ 32 - unat i" arbitrary: i k rule: less_induct)
  case less
  have live: "j \<in> dom (kv_progs (view k))"
    using less.prems(5) by (auto simp: offender_def split: option.splits)
  obtain r n where next_id: "bpf_prog_get_next_id K i k = (r, n)" by force
  have r: "r = 0"
    using next_id_end [OF next_id _ live] less.prems(4) by (metis leD)
  then have n: "i < n" "n \<le> j"
    using next_id_ok [of i k n] next_id live less.prems(4) by auto
  let ?k = "enforce_prog K map_fd n k"
  have run: "enforce_from K map_fd n ?k = Some k'"
    using less.prems(6) next_id r by (simp add: enforce_from.simps [of K map_fd i k])
  note eff = enforce_prog_effect [OF less.prems(1), of n]
  show ?case
  proof (cases "n = j")
    case True
    have "kv_pins (view ?k) p = None"
      using enforce_prog_removes [OF less.prems(1,5,2) _ less.prems(3)] True by simp
    then show ?thesis
      using enforce_from_effect [OF enforce_prog_map [OF less.prems(1)], of n n] run only_unpins_None
      by fastforce
  next
    case False
    have pin: "kv_pins (view ?k) p = Some (KProg j)"
      using eff less.prems(2) False by (auto simp: only_unpins_def)
    then have "j \<in> kv_held (view ?k)"
      by (rule kv_held_pinned)
    then have off: "offender (view ?k) m j"
      using offender_held [OF eff] less.prems(5) by simp
    have "2 ^ 32 - unat n < 2 ^ 32 - unat i"
      using n(1) unsigned_less [of n, where ?'a = nat] by (simp add: word_less_nat_alt)
    moreover have "n < j" using n(2) False by simp
    ultimately show ?thesis
      using less.hyps enforce_prog_map [OF less.prems(1)] pin less.prems(3) off run by blast
  qed
qed

end

section \<open>The reference kernel\<close>

text \<open>
  A kernel with finite tables. Closing a descriptor or removing a pin frees the programs that
  nothing holds any more.
\<close>

record ref_kernel =
  rk_fds :: "(int \<times> kobj) list"
  rk_pins :: "(bytes \<times> kobj) list"
  rk_progs :: "bpf_prog_info list"
  rk_attached :: "u32 list"
  rk_maps :: "(u32 \<times> WhitelistKey list) list"
  rk_log :: "(severity \<times> guard_msg) list"

definition rk_visible :: "ref_kernel \<Rightarrow> (bytes \<times> kobj) list" where
  "rk_visible k = filter (\<lambda>e. 0 \<notin> set (fst e)) (rk_pins k)"

definition rk_prog_tab :: "ref_kernel \<Rightarrow> (u32 \<times> bpf_prog_info) list" where
  "rk_prog_tab k = map (\<lambda>i. (info_id i, i)) (rk_progs k)"

definition rk_view :: "ref_kernel \<Rightarrow> kview" where
  "rk_view k =
     \<lparr>kv_fds = map_of (rk_fds k), kv_pins = map_of (rk_visible k), kv_progs = map_of (rk_prog_tab k),
      kv_attached = set (rk_attached k), kv_maps = (\<lambda>m. map_option set (map_of (rk_maps k) m))\<rparr>"

definition rk_fresh :: "ref_kernel \<Rightarrow> int" where
  "rk_fresh k = fold max (map fst (rk_fds k)) 2 + 1"

definition rk_open :: "kobj \<Rightarrow> ref_kernel \<Rightarrow> int \<times> ref_kernel" where
  "rk_open ob k = (rk_fresh k, k\<lparr>rk_fds := (rk_fresh k, ob) # rk_fds k\<rparr>)"

definition rk_held :: "ref_kernel \<Rightarrow> u32 \<Rightarrow> bool" where
  "rk_held k i \<longleftrightarrow>
     i \<in> set (rk_attached k) \<or> KProg i \<in> set (map snd (rk_fds k) @ map snd (rk_visible k))"

definition rk_gc :: "ref_kernel \<Rightarrow> ref_kernel" where
  "rk_gc k = k\<lparr>rk_progs := filter (\<lambda>i. rk_held k (info_id i)) (rk_progs k)\<rparr>"

definition rk_new_map :: "ref_kernel \<Rightarrow> u32" where
  "rk_new_map k = fold max (map fst (rk_maps k)) 0 + 1"

definition rk_info :: "kobj \<Rightarrow> ref_kernel \<Rightarrow> bpf_prog_info option" where
  "rk_info ob k =
     (case ob of
        KProg i \<Rightarrow> map_of (rk_prog_tab k) i
      | _ \<Rightarrow> Some \<lparr>info_type = 1, info_id = kobj_id ob, info_name = replicate 16 0\<rparr>)"

definition rk_no_info :: bpf_prog_info where
  "rk_no_info = \<lparr>info_type = 0, info_id = 0, info_name = replicate 16 0\<rparr>"

definition rk_next_ids :: "u32 \<Rightarrow> ref_kernel \<Rightarrow> u32 list" where
  "rk_next_ids i k = filter (\<lambda>j. i < j) (map info_id (rk_progs k))"

definition ref_sys :: "ref_kernel bpf_sys" where
  "ref_sys =
     \<lparr>walkdir = (\<lambda>root k. map (\<lambda>e. Some (fst e)) (rk_visible k)),
      path_is_file = (\<lambda>p k. p \<in> fst ` set (rk_visible k)),
      path_exists = (\<lambda>p k. as_bytes p \<in> fst ` set (rk_visible k)),
      remove_file = (\<lambda>p k. if p \<in> fst ` set (rk_visible k)
          then (True, rk_gc (k\<lparr>rk_pins := AList.delete p (rk_pins k)\<rparr>)) else (False, k)),
      bpf_obj_get = (\<lambda>p k. case map_of (rk_visible k) p of None \<Rightarrow> (- 2, k) | Some ob \<Rightarrow> rk_open ob k),
      bpf_obj_pin = (\<lambda>fd p k. case map_of (rk_fds k) fd of None \<Rightarrow> (- 9, k) | Some ob \<Rightarrow>
          if p \<in> fst ` set (rk_visible k) \<or> 0 \<in> set p then (- 17, k)
          else (0, k\<lparr>rk_pins := (p, ob) # rk_pins k\<rparr>)),
      bpf_obj_get_info_by_fd = (\<lambda>fd k. case map_of (rk_fds k) fd of None \<Rightarrow> (- 9, rk_no_info) | Some ob \<Rightarrow>
          (case rk_info ob k of None \<Rightarrow> (- 9, rk_no_info) | Some info \<Rightarrow> (0, info))),
      bpf_map_create = (\<lambda>ks vs n k. if rk_new_map k \<in> fst ` set (rk_maps k) then (- 28, k)
          else rk_open (KMap (rk_new_map k)) (k\<lparr>rk_maps := (rk_new_map k, []) # rk_maps k\<rparr>)),
      bpf_map_lookup_elem = (\<lambda>fd key k. case map_of (rk_fds k) fd of
          Some (KMap m) \<Rightarrow> (if kv_listed (rk_view k) m key then 0 else - 2) | _ \<Rightarrow> - 9),
      bpf_prog_detach = (\<lambda>fd t k. (- 9, k)),
      bpf_prog_get_next_id = (\<lambda>i k. case rk_next_ids i k of [] \<Rightarrow> (- 2, 0) | j # js \<Rightarrow> (0, fold min js j)),
      bpf_prog_get_fd_by_id = (\<lambda>i k. case map_of (rk_prog_tab k) i of None \<Rightarrow> (- 2, k) | Some _ \<Rightarrow> rk_open (KProg i) k),
      sys_close = (\<lambda>fd k. rk_gc (k\<lparr>rk_fds := AList.delete fd (rk_fds k)\<rparr>)),
      syslog = (\<lambda>sev msg k. (True, k\<lparr>rk_log := rk_log k @ [(sev, msg)]\<rparr>))\<rparr>"

lemma rk_fresh_Max: "rk_fresh k = Max (set (2 # map fst (rk_fds k))) + 1"
  unfolding rk_fresh_def Max.set_eq_fold ..

lemma rk_fresh_None: "map_of (rk_fds k) (rk_fresh k) = None"
proof -
  have "x < rk_fresh k" if "x \<in> set (map fst (rk_fds k))" for x
    using that unfolding rk_fresh_Max by (intro zless_add1_eq [THEN iffD2] le_neq_trans) (auto simp: le_less [symmetric])
  then have "rk_fresh k \<notin> set (map fst (rk_fds k))" by blast
  then show ?thesis by (simp add: map_of_eq_None_iff)
qed

lemma rk_fresh_nonneg: "0 \<le> rk_fresh k"
proof -
  have "2 \<le> Max (set (2 # map fst (rk_fds k)))" by simp
  then show ?thesis unfolding rk_fresh_Max by linarith
qed

lemma rk_next_ids_min:
  assumes "rk_next_ids i k = j # js"
  shows "i < fold min js j \<and> fold min js j \<in> info_id ` set (rk_progs k) \<and>
         (\<forall>l \<in> info_id ` set (rk_progs k). i < l \<longrightarrow> fold min js j \<le> l)"
proof -
  have eq: "set (j # js) = {l \<in> info_id ` set (rk_progs k). i < l}"
    by (subst assms [symmetric]) (auto simp: rk_next_ids_def)
  have "fold min js j \<in> set (j # js) \<and> (\<forall>l \<in> set (j # js). fold min js j \<le> l)"
    unfolding Min.set_eq_fold [symmetric]
    using Min_in [of "set (j # js)"] Min_le [of "set (j # js)"] by simp
  then show ?thesis unfolding eq by blast
qed

lemma map_of_filter_key: "map_of (filter (\<lambda>e. P (fst e)) xs) = map_of xs |` {a. P a}"
  by (induction xs) (auto simp: restrict_map_def fun_eq_iff)

lemma map_of_rk_visible: "map_of (rk_visible k) = map_of (rk_pins k) |` {p. 0 \<notin> set p}"
  unfolding rk_visible_def by (rule map_of_filter_key)

lemma rk_prog_tab_filter:
  "map_of (map (\<lambda>i. (info_id i, i)) (filter (\<lambda>i. P (info_id i)) xs)) =
   map_of (map (\<lambda>i. (info_id i, i)) xs) |` {a. P a}"
  by (induction xs) (auto simp: restrict_map_def fun_eq_iff)

lemma ran_map_of: "ran (map_of xs) \<subseteq> snd ` set xs"
  by (force simp: ran_def dest: map_of_SomeD)

lemma rk_gc_view: "refs_dropped (rk_view k) (rk_view (rk_gc k))"
proof -
  have "kv_held (rk_view k) \<subseteq> {i. rk_held k i}"
    using ran_map_of [of "rk_fds k"] ran_map_of [of "rk_visible k"]
    by (auto simp: kv_held_def rk_view_def rk_held_def)
  moreover have "rk_view (rk_gc k) = rk_view k\<lparr>kv_progs := kv_progs (rk_view k) |` (- {i. \<not> rk_held k i})\<rparr>"
    by (simp add: rk_view_def rk_gc_def rk_visible_def rk_prog_tab_def rk_prog_tab_filter [where P = "rk_held k"]
        Collect_neg_eq)
  ultimately show ?thesis
    unfolding refs_dropped_def by (intro exI [of _ "{i. \<not> rk_held k i}"]) auto
qed

lemma rk_view_delete_pin:
  "rk_view (k\<lparr>rk_pins := AList.delete p (rk_pins k)\<rparr>) = rk_view k\<lparr>kv_pins := (kv_pins (rk_view k))(p := None)\<rparr>"
  by (auto simp: rk_view_def map_of_rk_visible rk_prog_tab_def delete_conv' restrict_map_def fun_eq_iff)

lemma rk_view_delete_fd:
  "rk_view (k\<lparr>rk_fds := AList.delete fd (rk_fds k)\<rparr>) = rk_view k\<lparr>kv_fds := (kv_fds (rk_view k))(fd := None)\<rparr>"
  by (simp add: rk_view_def map_of_rk_visible rk_prog_tab_def delete_conv')

lemma rk_open_view:
  "rk_view (snd (rk_open ob k)) = rk_view k\<lparr>kv_fds := (kv_fds (rk_view k))(fst (rk_open ob k) \<mapsto> ob)\<rparr>"
  "kv_fds (rk_view k) (fst (rk_open ob k)) = None" "0 \<le> fst (rk_open ob k)"
  by (simp_all add: rk_open_def rk_view_def rk_visible_def rk_prog_tab_def rk_fresh_None rk_fresh_nonneg)

lemma rk_openE:
  assumes "rk_open ob k = (fd, k')"
  shows "kv_fds (rk_view k) fd = None \<and> 0 \<le> fd \<and> rk_view k' = rk_view k\<lparr>kv_fds := (kv_fds (rk_view k))(fd \<mapsto> ob)\<rparr>"
  using rk_open_view [where ob = ob and k = k] assms by simp_all

lemma rk_view_sel:
  "kv_fds (rk_view k) = map_of (rk_fds k)" "kv_pins (rk_view k) = map_of (rk_visible k)"
  "kv_progs (rk_view k) = map_of (rk_prog_tab k)"
  by (simp_all add: rk_view_def)

lemma rk_progs_dom: "dom (map_of (rk_prog_tab k)) = info_id ` set (rk_progs k)"
  by (auto simp: rk_prog_tab_def dom_map_of_conv_image_fst image_image)

lemma rk_progs_id: "map_of (rk_prog_tab k) i = Some info \<Longrightarrow> info_id info = i"
  by (auto simp: rk_prog_tab_def dest!: map_of_SomeD)

lemma rk_visible_dom: "dom (map_of (rk_visible k)) = fst ` set (rk_visible k)"
  by (simp add: dom_map_of_conv_image_fst)

lemma rk_view_new_map:
  "rk_view (k\<lparr>rk_maps := (m, []) # rk_maps k\<rparr>) = rk_view k\<lparr>kv_maps := (kv_maps (rk_view k))(m \<mapsto> {})\<rparr>"
  by (simp add: rk_view_def rk_visible_def rk_prog_tab_def fun_eq_iff)

interpretation rk: bpf_kernel ref_sys rk_view
proof (unfold_locales, goal_cases)
  case (1 p k fd k')
  then show ?case
    by (auto simp: ref_sys_def rk_view_sel(2) split: option.splits dest: rk_openE)
next
  case (2 p k fd k')
  then show ?case
    by (auto simp: ref_sys_def split: option.splits dest: rk_openE)
next
  case (3 fd p k k' ob)
  then show ?case
    by (auto simp: ref_sys_def rk_view_def rk_visible_def rk_prog_tab_def map_of_eq_None_iff split: option.splits if_splits)
next
  case (4 fd k info ob)
  then show ?case
    by (auto simp: ref_sys_def rk_view_def rk_info_def rk_progs_id split: option.splits kobj.splits)
next
  case (5 ks vs n k fd k')
  then show ?case
    using map_of_eq_None_iff [of "rk_maps k" "rk_new_map k"]
    by (auto simp: ref_sys_def rk_view_new_map rk_view_def [of k] split: if_splits
        dest!: rk_openE intro!: exI [of _ "rk_new_map k"])
next
  case (6 k fd m key)
  then show ?case
    by (simp add: ref_sys_def rk_view_sel)
next
  case (7 p k k')
  then show ?case
    using rk_gc_view [of "k\<lparr>rk_pins := AList.delete p (rk_pins k)\<rparr>"]
    by (auto simp: ref_sys_def rk_view_delete_pin split: if_splits)
next
  case (8 p k k')
  then show ?case
    by (auto simp: ref_sys_def split: if_splits)
next
  case (9 k fd)
  then show ?case
    using rk_gc_view [of "k\<lparr>rk_fds := AList.delete fd (rk_fds k)\<rparr>"]
    by (simp add: ref_sys_def rk_view_delete_fd)
next
  case (10 i k j)
  then show ?case
    by (auto simp: ref_sys_def rk_view_sel rk_progs_dom split: list.splits dest: rk_next_ids_min)
next
  case (11 i k r j l)
  then show ?case
    by (auto simp: ref_sys_def rk_view_sel rk_progs_dom rk_next_ids_def filter_empty_conv not_less split: list.splits)
next
  case (12 i k fd k')
  then show ?case
    by (auto simp: ref_sys_def rk_view_sel(3) domIff split: option.splits dest: rk_openE)
next
  case (13 i k fd k')
  then show ?case
    by (auto simp: ref_sys_def split: option.splits dest: rk_openE)
next
  case (14 k fd i t)
  then show ?case by (simp add: ref_sys_def)
next
  case (15 sev msg k)
  then show ?case by (simp add: ref_sys_def rk_view_def rk_visible_def rk_prog_tab_def)
qed

interpretation rk: reliable_kernel ref_sys rk_view
proof (unfold_locales, goal_cases)
  case (1 p k)
  then show ?case
    by (auto simp: ref_sys_def rk_view_sel rk_visible_dom) (auto simp: rk_visible_def)
next
  case (2 p k)
  then show ?case
    by (auto simp: ref_sys_def rk_view_sel rk_open_view)
next
  case (3 k fd ob)
  then show ?case
    by (auto simp: ref_sys_def rk_view_sel rk_info_def split: option.splits kobj.splits)
next
  case (4 p k)
  then show ?case
    by (simp add: ref_sys_def rk_view_sel rk_visible_dom)
next
  case (5 i k)
  then show ?case
    by (auto simp: ref_sys_def rk_view_sel rk_open_view)
qed

text \<open>A kernel with one listed and one unlisted, attached program, both pinned.\<close>

definition demo_kernel :: ref_kernel where
  "demo_kernel =
     \<lparr>rk_fds = [(5, KMap 7)],
      rk_pins = [(as_bytes WHITELIST_MAP_PIN_PATH, KMap 7), (as_bytes ''/sys/fs/bpf/good'', KProg 2),
                 (as_bytes ''/sys/fs/bpf/evil'', KProg 3)],
      rk_progs = [\<lparr>info_type = 6, info_id = 2, info_name = as_bytes ''good'' @ replicate 12 0\<rparr>,
                  \<lparr>info_type = 6, info_id = 3, info_name = as_bytes ''evil'' @ replicate 12 0\<rparr>],
      rk_attached = [3],
      rk_maps = [(7, [whitelist_key ''good'' 6])],
      rk_log = []\<rparr>"

lemma demo_kernel_map: "kv_fds (rk_view demo_kernel) 5 = Some (KMap 7)"
  by (simp add: demo_kernel_def rk_view_def)

lemma demo_kernel_good: "\<not> offender (rk_view demo_kernel) 7 2"
  by code_simp

lemma demo_kernel_evil: "offender (rk_view demo_kernel) 7 3"
  by code_simp

lemma demo_kernel_good_pin: "kv_pins (rk_view demo_kernel) (as_bytes ''/sys/fs/bpf/good'') = Some (KProg 2)"
  by code_simp

lemma demo_kernel_evil_pin: "kv_pins (rk_view demo_kernel) (as_bytes ''/sys/fs/bpf/evil'') = Some (KProg 3)"
  by code_simp

section \<open>Properties\<close>

text \<open>
  C10: Any number of rounds of the guard ends, and all it does to the system is to remove pins: every
  descriptor it opened is closed again and no other one is, maps and attachments are unchanged, the
  whitelist stays pinned, and a pin disappears only if the id of its object is the id of a loaded
  program without a whitelist entry.
\<close>
theorem guard_only_unpins:
  assumes "bpf_kernel K view" and "kv_fds (view k) map_fd = Some (KMap m)"
  shows "\<exists>k'. guard_rounds K map_fd n k = Some k' \<and>
           only_unpins {i. offender (view k) m i} (view k) (view k')"
  using assms by (rule bpf_kernel.guard_rounds_effect)

theorem guard_only_unpins_witness:
  "\<exists>k'. guard_rounds ref_sys 5 3 demo_kernel = Some k' \<and>
        kv_pins (rk_view k') (as_bytes ''/sys/fs/bpf/good'') = Some (KProg 2) \<and>
        kv_fds (rk_view k') 5 = Some (KMap 7)"
proof -
  obtain k' where k': "guard_rounds ref_sys 5 3 demo_kernel = Some k'"
    and eff: "only_unpins {i. offender (rk_view demo_kernel) 7 i} (rk_view demo_kernel) (rk_view k')"
    using guard_only_unpins [OF rk.bpf_kernel_axioms demo_kernel_map] by blast
  then show ?thesis
    using demo_kernel_map demo_kernel_good demo_kernel_good_pin by (auto simp: only_unpins_def)
qed

text \<open>
  C11: On a kernel whose calls succeed, one scan removes every pin of every unauthorized program, and
  keeps every pin of the other programs.
\<close>
theorem scan_unpins_offenders:
  assumes "reliable_kernel K view" and "kv_fds (view k) map_fd = Some (KMap m)"
  shows "\<exists>k'. check_and_enforce K map_fd k = Some k' \<and>
           (\<forall>p i. kv_pins (view k) p = Some (KProg i) \<and> 0 < i \<and> p \<noteq> as_bytes WHITELIST_MAP_PIN_PATH \<longrightarrow>
                  kv_pins (view k') p = (if offender (view k) m i then None else Some (KProg i)))"
proof -
  have "bpf_kernel K view"
    using assms(1) by (simp add: reliable_kernel_def)
  from bpf_kernel.check_and_enforce_effect [OF this assms(2)]
  obtain k' where run: "check_and_enforce K map_fd k = Some k'"
    and eff: "only_unpins {i. offender (view k) m i} (view k) (view k')" by blast
  have "kv_pins (view k') p = None"
    if "kv_pins (view k) p = Some (KProg i)" "0 < i" "p \<noteq> as_bytes WHITELIST_MAP_PIN_PATH" "offender (view k) m i"
    for p i
    using reliable_kernel.enforce_from_removes [OF assms] that run by (simp add: check_and_enforce_def)
  with run eff show ?thesis
    by (auto simp: only_unpins_def)
qed

theorem scan_unpins_offenders_witness:
  "\<exists>k'. check_and_enforce ref_sys 5 demo_kernel = Some k' \<and>
        kv_pins (rk_view k') (as_bytes ''/sys/fs/bpf/evil'') = None"
proof -
  have "as_bytes ''/sys/fs/bpf/evil'' \<noteq> as_bytes WHITELIST_MAP_PIN_PATH"
    by (simp add: as_bytes_inject WHITELIST_MAP_PIN_PATH_def)
  then show ?thesis
    using scan_unpins_offenders [OF rk.reliable_kernel_axioms demo_kernel_map] demo_kernel_evil demo_kernel_evil_pin
    by fastforce
qed

text \<open>
  The guard does not unload a program that is attached: after any number of rounds, each of which
  reported it as purged, it is still loaded and still unauthorized. (The detach call is given the
  descriptor of the program where the kernel expects that of the target.)
\<close>
lemma attached_offender_stays:
  assumes "bpf_kernel K view" and "kv_fds (view k) map_fd = Some (KMap m)"
    and "offender (view k) m i" and "i \<in> kv_attached (view k)"
  shows "\<exists>k'. guard_rounds K map_fd n k = Some k' \<and> offender (view k') m i"
proof -
  obtain k' where "guard_rounds K map_fd n k = Some k'"
    and eff: "only_unpins {i. offender (view k) m i} (view k) (view k')"
    using bpf_kernel.guard_rounds_effect [OF assms(1,2)] by blast
  moreover have "i \<in> kv_held (view k')"
    using eff assms(4) by (simp add: kv_held_def only_unpins_def)
  ultimately show ?thesis
    using offender_held assms(3) by blast
qed

lemma attached_offender_stays_example:
  "\<exists>k'. guard_rounds ref_sys 5 10 demo_kernel = Some k' \<and> offender (rk_view k') 7 3"
  using attached_offender_stays [OF rk.bpf_kernel_axioms demo_kernel_map demo_kernel_evil]
  by (simp add: demo_kernel_def rk_view_def)

text \<open>
  The start of the guard either panics or returns the descriptor of the object pinned as the
  whitelist, changing nothing else. A whitelist pinned by an earlier run is used with its contents;
  without one a new, empty map is pinned, for which every loaded program is unauthorized.
\<close>
lemma setup_whitelist_map_spec:
  assumes "bpf_kernel K view" and "guard_start K opened k = Ret (fd, k')"
  shows "kv_fds (view k) fd = None \<and>
         (case kv_pins (view k) (as_bytes WHITELIST_MAP_PIN_PATH) of
            Some ob \<Rightarrow> view k' = view k\<lparr>kv_fds := (kv_fds (view k))(fd \<mapsto> ob)\<rparr>
          | None \<Rightarrow> (\<exists>m. view k' = view k\<lparr>kv_fds := (kv_fds (view k))(fd \<mapsto> KMap m),
                       kv_pins := (kv_pins (view k))(as_bytes WHITELIST_MAP_PIN_PATH \<mapsto> KMap m),
                       kv_maps := (kv_maps (view k))(m \<mapsto> {})\<rparr> \<and>
                     (\<forall>i. kv_progs (view k) i \<noteq> None \<longrightarrow> offender (view k') m i)))"
proof -
  have "setup_whitelist_map K (snd (syslog K Info Started k)) = Ret (fd, k')"
    using assms(2) by (simp add: guard_start_def split: if_splits)
  then show ?thesis
    using bpf_kernel.syslog_view [OF assms(1)] by (rule bpf_kernel.setup_whitelist_map_effect [OF assms(1)])
qed

lemma setup_whitelist_map_spec_example:
  "\<exists>k'. guard_start ref_sys True demo_kernel = Ret (6, k') \<and>
        kv_fds (rk_view demo_kernel) 6 = None \<and> kv_fds (rk_view k') 6 = Some (KMap 7)"
proof -
  have fresh: "rk_fresh demo_kernel = 6" and there: "path_exists ref_sys WHITELIST_MAP_PIN_PATH demo_kernel"
    and pin: "map_of (rk_visible demo_kernel) (as_bytes WHITELIST_MAP_PIN_PATH) = Some (KMap 7)"
    by code_simp+
  let ?k = "demo_kernel\<lparr>rk_log := [(Info, Started)], rk_fds := [(6, KMap 7), (5, KMap 7)]\<rparr>"
  have "guard_start ref_sys True demo_kernel = Ret (6, ?k)"
    using fresh there pin
    by (simp add: guard_start_def setup_whitelist_map_def ref_sys_def rk_open_def rk_visible_def rk_fresh_def)
       (simp add: demo_kernel_def)
  from setup_whitelist_map_spec [OF rk.bpf_kernel_axioms this] this pin show ?thesis
    by (simp add: rk_view_sel)
qed

text \<open>
  The check on the id does not look at the kind of the object: a pinned map whose map id is the
  program id of an unauthorized program loses its pin too.
\<close>
lemma same_id_map_unpinned:
  assumes "reliable_kernel K view" and "kv_fds (view k) map_fd = Some (KMap m)" and "offender (view k) m i"
    and "kv_pins (view k) p = Some (KMap i)" and "p \<noteq> as_bytes WHITELIST_MAP_PIN_PATH"
  shows "kv_pins (view (enforce_prog K map_fd i k)) p = None"
  using reliable_kernel.enforce_prog_removes [OF assms(1-4) _ assms(5)] by simp

text \<open>
  For the names the kernel accepts (ASCII, at most 15 bytes, padded with zeros) the key the guard
  looks up is exactly the pair of the type and the name field of the program.
\<close>
lemma whitelist_key_of_info:
  assumes "info_name info = nm @ replicate (16 - length nm) 0" and "length nm \<le> 15"
    and "\<And>b. b \<in> set nm \<Longrightarrow> 0 < b \<and> b < 0x80"
  shows "whitelist_key (info_prog_name info) (info_type info) =
         \<lparr>key_prog_type = info_type info, key_name = info_name info\<rparr>"
proof -
  have "c_str (info_name info) = nm"
  proof -
    have "0 \<notin> set nm" using assms(3) by force
    moreover have "16 - length nm = Suc (15 - length nm)" using assms(2) by simp
    ultimately show ?thesis using assms(1) c_str_pad [of nm "15 - length nm"] by (simp only: simp_thms)
  qed
  then show ?thesis
    using assms by (simp add: info_prog_name_def from_utf8_lossy_def utf8_lossy_ascii whitelist_key_def
        BPF_OBJ_NAME_LEN_def Let_def min_def)
qed

end
