(* ===== verification/Dlp_Fanotify.thy ===== *)
theory Dlp_Fanotify
  imports Rust_Utf8 Rust_Bytes
begin

text \<open>
  The fanotify permission monitor (\<^verbatim>\<open>dlp/dlp_fanotify_hooks\<close>): the loop over the events of one
  \<^verbatim>\<open>read\<close>, the decision on the head of the opened file, and the order of its effects.

  Parameters: what the system calls on the descriptor of an event return (\<open>fan_io\<close>: \<^verbatim>\<open>readlink\<close> of
  \<^verbatim>\<open>/proc/self/fd\<close> and \<^verbatim>\<open>pread\<close>), and \<^verbatim>\<open>DlpConfig::matches_pattern\<close> of a module that is not in the
  repository (\<open>matches\<close>). The effects are the list of \<open>fan_action\<close> in the order they happen.
\<close>

section \<open>Events and responses\<close>

record FanotifyEventMetadata =
  event_len :: u32
  vers :: u8
  reserved :: u8
  metadata_len :: u16
  mask_bits :: u64
  md_fd :: u32
  md_pid :: u32

definition FAN_ALLOW :: u32 where "FAN_ALLOW = 0x01"
definition FAN_DENY :: u32 where "FAN_DENY = 0x02"

definition metadata_size :: nat where "metadata_size = 24"

text \<open>The cast of the buffer at an offset; \<^verbatim>\<open>i32\<close> fields are read as signed numbers by \<^const>\<open>sint\<close>.\<close>

definition metadata_at :: "bytes \<Rightarrow> nat \<Rightarrow> FanotifyEventMetadata" where
  "metadata_at buffer offset =
     (let b = drop offset buffer
      in \<lparr>event_len = field 0 4 b, vers = field 4 1 b, reserved = field 5 1 b,
          metadata_len = field 6 2 b, mask_bits = field 8 8 b, md_fd = field 16 4 b, md_pid = field 20 4 b\<rparr>)"

record fan_io =
  io_readlink :: "int \<Rightarrow> bytes option"
  io_pread :: "int \<Rightarrow> nat \<Rightarrow> bytes option"

datatype fan_action =
    Respond int u32
  | Close_fd int
  | Print_block string int
  | Send_event int string int

section \<open>One event\<close>

definition get_path_from_fd :: "fan_io \<Rightarrow> int \<Rightarrow> string option" where
  "get_path_from_fd io fd = map_option from_utf8_lossy (io_readlink io fd)"

definition evaluate_file_safety :: "fan_io \<Rightarrow> (string \<Rightarrow> bool) \<Rightarrow> int \<Rightarrow> u32" where
  "evaluate_file_safety io matches fd =
     (case io_pread io fd 1024 of
        None \<Rightarrow> FAN_ALLOW
      | Some file_buf \<Rightarrow>
          (if file_buf \<noteq> []
           then case from_utf8 file_buf of
               Some content_str \<Rightarrow> (if matches content_str then FAN_DENY else FAN_ALLOW)
             | None \<Rightarrow> FAN_ALLOW
           else FAN_ALLOW))"

definition fan_event :: "fan_io \<Rightarrow> (string \<Rightarrow> bool) \<Rightarrow> FanotifyEventMetadata \<Rightarrow> fan_action list" where
  "fan_event io matches metadata =
     (let fd = sint (md_fd metadata); pid = sint (md_pid metadata)
      in if fd \<ge> 0 then
           (let path = (case get_path_from_fd io fd of Some p \<Rightarrow> p | None \<Rightarrow> ''Unknown'');
                decision = evaluate_file_safety io matches fd
            in [Respond fd decision, Close_fd fd] @
               (if decision = FAN_DENY then [Print_block path pid] else []) @
               [Send_event pid path fd])
         else [])"

section \<open>The loops\<close>

partial_function (option) fan_batch ::
    "fan_io \<Rightarrow> (string \<Rightarrow> bool) \<Rightarrow> bytes \<Rightarrow> nat \<Rightarrow> nat \<Rightarrow> fan_action list option" where
  "fan_batch io matches buffer bytes_read offset =
     (if offset + metadata_size \<le> bytes_read
      then (let metadata = metadata_at buffer offset
            in Option.bind (fan_batch io matches buffer bytes_read (offset + unat (event_len metadata)))
                 (\<lambda>acts. Some (fan_event io matches metadata @ acts)))
      else Some [])"

text \<open>
  The endless loop on a finite sequence of results of \<^verbatim>\<open>read\<close>: an error or an empty read is
  skipped, otherwise the head of the buffer is overwritten.
\<close>

fun fan_reads :: "(string \<Rightarrow> bool) \<Rightarrow> bytes \<Rightarrow> (fan_io \<times> bytes option) list \<Rightarrow> fan_action list option" where
  "fan_reads matches buffer [] = Some []"
| "fan_reads matches buffer ((io, r) # rs) =
     (case r of
        None \<Rightarrow> fan_reads matches buffer rs
      | Some data \<Rightarrow>
          (if data = [] then fan_reads matches buffer rs
           else let buffer' = data @ drop (length data) buffer
                in case fan_batch io matches buffer' (length data) 0 of
                    None \<Rightarrow> None
                  | Some acts \<Rightarrow> map_option ((@) acts) (fan_reads matches buffer' rs)))"

datatype fan_error = Init_failed | Mark_failed

definition run_fanotify_monitor ::
    "int \<Rightarrow> int \<Rightarrow> (string \<Rightarrow> bool) \<Rightarrow> (fan_io \<times> bytes option) list \<Rightarrow> fan_error + fan_action list option" where
  "run_fanotify_monitor init_res mark_res matches rs =
     (if init_res < 0 then Inl Init_failed
      else if mark_res < 0 then Inl Mark_failed
      else Inr (fan_reads matches (replicate 4096 0) rs))"

section \<open>What the kernel sends\<close>

text \<open>
  The layout of one event: the metadata, whose \<^verbatim>\<open>event_len\<close> covers the information records that
  follow it.
\<close>

definition metadata_bytes :: "FanotifyEventMetadata \<Rightarrow> bytes" where
  "metadata_bytes m =
     word_bytes 4 (event_len m) @ word_bytes 1 (vers m) @ word_bytes 1 (reserved m) @
     word_bytes 2 (metadata_len m) @ word_bytes 8 (mask_bits m) @ word_bytes 4 (md_fd m) @ word_bytes 4 (md_pid m)"

definition event_bytes :: "FanotifyEventMetadata \<times> bytes \<Rightarrow> bytes" where
  "event_bytes e = metadata_bytes (fst e) @ snd e"

definition well_sized :: "FanotifyEventMetadata \<times> bytes \<Rightarrow> bool" where
  "well_sized e \<longleftrightarrow> unat (event_len (fst e)) = metadata_size + length (snd e)"

lemma length_metadata_bytes [simp]: "length (metadata_bytes m) = metadata_size"
  by (simp add: metadata_bytes_def metadata_size_def)

lemma length_event_bytes: "well_sized e \<Longrightarrow> length (event_bytes e) = unat (event_len (fst e))"
  by (simp add: event_bytes_def well_sized_def)

lemma event_bytes_nonempty [simp]: "event_bytes e \<noteq> []"
proof
  assume "event_bytes e = []"
  then have "length (metadata_bytes (fst e)) = 0" by (simp add: event_bytes_def)
  then show False by (simp add: metadata_size_def)
qed

lemma concat_map_event_Nil: "concat (map event_bytes es) = [] \<Longrightarrow> es = []"
  by (cases es) auto

lemma metadata_at_bytes: "metadata_at (pre @ metadata_bytes m @ post) (length pre) = m"
  by (simp add: metadata_at_def metadata_bytes_def field_word_bytes_first field_word_bytes_skip)

section \<open>The batch loop\<close>

lemma fan_batch_step:
  assumes "well_sized e" and "length pre + length (event_bytes e) \<le> n"
  shows "fan_batch io matches (pre @ event_bytes e @ post) n (length pre) =
         Option.bind (fan_batch io matches (pre @ event_bytes e @ post) n (length pre + length (event_bytes e)))
           (\<lambda>acts. Some (fan_event io matches (fst e) @ acts))"
proof -
  have "length pre + metadata_size \<le> n"
    using assms by (simp add: length_event_bytes well_sized_def)
  then show ?thesis
    using metadata_at_bytes [of pre "fst e" "snd e @ post"] assms(1)
    by (subst fan_batch.simps) (simp add: event_bytes_def Let_def well_sized_def)
qed

lemma fan_batch_events:
  assumes "list_all well_sized es"
  shows "fan_batch io matches (pre @ concat (map event_bytes es) @ junk)
           (length pre + length (concat (map event_bytes es))) (length pre) =
         Some (concat (map (\<lambda>e. fan_event io matches (fst e)) es))"
  using assms
proof (induction es arbitrary: pre)
  case Nil
  show ?case by (subst fan_batch.simps) (simp add: metadata_size_def)
next
  case (Cons e es)
  let ?rest = "concat (map event_bytes es)"
  have "fan_batch io matches (pre @ event_bytes e @ ?rest @ junk)
          (length pre + length (event_bytes e @ ?rest)) (length pre + length (event_bytes e)) =
        Some (concat (map (\<lambda>e. fan_event io matches (fst e)) es))"
    using Cons.IH [of "pre @ event_bytes e"] Cons.prems by (simp add: add.assoc)
  then show ?case
    using fan_batch_step [of e pre "length pre + length (event_bytes e @ ?rest)" io matches "?rest @ junk"] Cons.prems
    by simp
qed

text \<open>An event that announces the length zero is handled again and again.\<close>

lemma fan_batch_zero_length:
  assumes "metadata_size \<le> n" and "event_len (metadata_at buffer 0) = 0"
  shows "fan_batch io matches buffer n 0 = None"
proof (rule ccontr)
  assume "fan_batch io matches buffer n 0 \<noteq> None"
  then obtain acts where "fan_batch io matches buffer n 0 = Some acts" by blast
  moreover have "offset = 0 \<Longrightarrow> False" if "fan_batch io matches buffer n offset = Some acts" for offset acts
    using that assms
  proof (induction rule: fan_batch.raw_induct [rotated, consumes 1, case_names 1])
    case (1 rec io matches buffer n offset acts)
    then show False
      by (auto simp: Let_def bind_eq_Some_conv split: if_splits)
  qed
  ultimately show False by blast
qed

section \<open>The decision\<close>

lemma evaluate_file_safety_cases:
  "evaluate_file_safety io matches fd = FAN_DENY \<longleftrightarrow>
   (\<exists>buf. io_pread io fd 1024 = Some buf \<and> buf \<noteq> [] \<and> utf8_valid buf \<and> matches (bytes_str buf))"
  by (auto simp: evaluate_file_safety_def from_utf8_def FAN_ALLOW_def FAN_DENY_def split: option.splits)

lemma evaluate_file_safety_range: "evaluate_file_safety io matches fd \<in> {FAN_ALLOW, FAN_DENY}"
  by (auto simp: evaluate_file_safety_def split: option.splits)

section \<open>Properties\<close>

definition fan_responses :: "fan_action list \<Rightarrow> (int \<times> u32) list" where
  "fan_responses acts = concat (map (\<lambda>a. case a of Respond fd d \<Rightarrow> [(fd, d)] | _ \<Rightarrow> []) acts)"

definition fan_closed :: "fan_action list \<Rightarrow> int list" where
  "fan_closed acts = concat (map (\<lambda>a. case a of Close_fd fd \<Rightarrow> [fd] | _ \<Rightarrow> []) acts)"

lemma fan_responses_append: "fan_responses (xs @ ys) = fan_responses xs @ fan_responses ys"
  by (simp add: fan_responses_def)

lemma fan_closed_append: "fan_closed (xs @ ys) = fan_closed xs @ fan_closed ys"
  by (simp add: fan_closed_def)

lemmas fan_collect = fan_responses_append fan_closed_append

definition head_matches :: "fan_io \<Rightarrow> (string \<Rightarrow> bool) \<Rightarrow> int \<Rightarrow> bool" where
  "head_matches io matches fd =
     (case io_pread io fd 1024 of
        None \<Rightarrow> False
      | Some buf \<Rightarrow> buf \<noteq> [] \<and> utf8_valid buf \<and> matches (bytes_str buf))"

text \<open>The answers due for the events of one read: one for each event that carries a descriptor.\<close>

definition due_answers ::
    "(string \<Rightarrow> bool) \<Rightarrow> fan_io \<times> (FanotifyEventMetadata \<times> bytes) list option \<Rightarrow> (int \<times> u32) list" where
  "due_answers matches r =
     (case r of (io, es) \<Rightarrow>
        map (\<lambda>fd. (fd, if head_matches io matches fd then FAN_DENY else FAN_ALLOW))
          (filter (\<lambda>fd. 0 \<le> fd) (map (\<lambda>e. sint (md_fd (fst e))) (case es of None \<Rightarrow> [] | Some es \<Rightarrow> es))))"

lemma evaluate_head_matches:
  "evaluate_file_safety io matches fd = (if head_matches io matches fd then FAN_DENY else FAN_ALLOW)"
  by (auto simp: evaluate_file_safety_def head_matches_def from_utf8_def split: option.splits)

lemma fan_event_collect:
  "fan_responses (fan_event io matches m) = due_answers matches (io, Some [(m, x)])"
  "fan_closed (fan_event io matches m) = map fst (due_answers matches (io, Some [(m, x)]))"
  by (simp_all add: fan_event_def due_answers_def fan_responses_def fan_closed_def Let_def evaluate_head_matches)

lemma fan_events_collect:
  "fan_responses (concat (map (\<lambda>e. fan_event io matches (fst e)) es)) = due_answers matches (io, Some es)"
  "fan_closed (concat (map (\<lambda>e. fan_event io matches (fst e)) es)) = map fst (due_answers matches (io, Some es))"
  by (induction es)
     (simp_all add: fan_collect fan_event_collect [where x = "[]"], simp_all add: due_answers_def fan_responses_def fan_closed_def)

definition read_of :: "fan_io \<times> (FanotifyEventMetadata \<times> bytes) list option \<Rightarrow> fan_io \<times> bytes option" where
  "read_of r = (fst r, map_option (\<lambda>es. concat (map event_bytes es)) (snd r))"

lemma fan_reads_answers:
  assumes "list_all (\<lambda>r. case snd r of None \<Rightarrow> True | Some es \<Rightarrow> list_all well_sized es) rs"
  shows "\<exists>acts. fan_reads matches buffer (map read_of rs) = Some acts \<and>
           fan_responses acts = concat (map (due_answers matches) rs) \<and>
           fan_closed acts = map fst (concat (map (due_answers matches) rs))"
  using assms
proof (induction rs arbitrary: buffer)
  case Nil
  show ?case by (simp add: fan_responses_def fan_closed_def)
next
  case (Cons r rs)
  obtain io es where r: "r = (io, es)" by force
  show ?case
  proof (cases "es = None \<or> (\<exists>l. es = Some l \<and> concat (map event_bytes l) = [])")
    case True
    then have "es = None \<or> es = Some []"
      by (metis concat_map_event_Nil)
    then have "due_answers matches r = []"
      using r by (auto simp: due_answers_def)
    then show ?thesis
      using Cons True by (auto simp: r read_of_def [of "(io, es)"])
  next
    case False
    then obtain l where es: "es = Some l" "concat (map event_bytes l) \<noteq> []" by auto
    let ?data = "concat (map event_bytes l)"
    let ?acts = "concat (map (\<lambda>e. fan_event io matches (fst e)) l)"
    have batch: "fan_batch io matches (?data @ drop (length ?data) buffer) (length ?data) 0 = Some ?acts"
      using fan_batch_events [of l io matches "[]"] Cons.prems r es by simp
    obtain acts where "fan_reads matches (?data @ drop (length ?data) buffer) (map read_of rs) = Some acts"
      "fan_responses acts = concat (map (due_answers matches) rs)"
      "fan_closed acts = map fst (concat (map (due_answers matches) rs))"
      using Cons.IH Cons.prems by fastforce
    then show ?thesis
      using batch es fan_events_collect [of io matches l]
      by (auto simp: r read_of_def [of "(io, Some l)"] Let_def fan_collect)
  qed
qed

text \<open>
  C17: For whatever sequence of reads the kernel delivers (well-formed events with any information
  records after them, failed reads in between), the monitor ends each batch, answers every event that
  carries a descriptor exactly once and in order, closes exactly these descriptors, and denies the open
  exactly when the head of the file is UTF-8 text that matches the configured pattern.
\<close>
theorem monitor_answers_every_open:
  assumes "0 \<le> init_res" and "0 \<le> mark_res"
    and "list_all (\<lambda>r. case snd r of None \<Rightarrow> True | Some es \<Rightarrow> list_all well_sized es) rs"
  shows "\<exists>acts. run_fanotify_monitor init_res mark_res matches (map read_of rs) = Inr (Some acts) \<and>
           fan_responses acts = concat (map (due_answers matches) rs) \<and>
           fan_closed acts = map fst (concat (map (due_answers matches) rs))"
  using fan_reads_answers [OF assms(3), of matches "replicate 4096 0"] assms(1,2)
  by (simp add: run_fanotify_monitor_def)

definition fan_demo_event :: "u32 \<Rightarrow> FanotifyEventMetadata" where
  "fan_demo_event fd =
     \<lparr>event_len = 24, vers = 3, reserved = 0, metadata_len = 24, mask_bits = 0x10000, md_fd = fd, md_pid = 77\<rparr>"

definition fan_demo_io :: fan_io where
  "fan_demo_io = \<lparr>io_readlink = (\<lambda>fd. None),
     io_pread = (\<lambda>fd n. Some (take n (if fd = 9 then as_bytes ''secret'' else as_bytes ''hello'')))\<rparr>"

theorem monitor_answers_every_open_witness:
  "\<exists>acts. run_fanotify_monitor 3 0 (\<lambda>s. s = ''secret'')
      (map read_of [(fan_demo_io, None), (fan_demo_io, Some [(fan_demo_event 9, []), (fan_demo_event (- 1), []), (fan_demo_event 10, [])])])
        = Inr (Some acts) \<and> fan_responses acts = [(9, FAN_DENY), (10, FAN_ALLOW)] \<and> fan_closed acts = [9, 10]"
proof -
  let ?rs = "[(fan_demo_io, None), (fan_demo_io, Some [(fan_demo_event 9, []), (fan_demo_event (- 1), []), (fan_demo_event 10, [])])]"
  have "concat (map (due_answers (\<lambda>s. s = ''secret'')) ?rs) = [(9, FAN_DENY), (10, FAN_ALLOW)]"
    by code_simp
  moreover have "list_all (\<lambda>r. case snd r of None \<Rightarrow> True | Some es \<Rightarrow> list_all well_sized es) ?rs"
    by (simp add: well_sized_def fan_demo_event_def metadata_size_def)
  ultimately show ?thesis
    using monitor_answers_every_open [of 3 0 ?rs "\<lambda>s. s = ''secret''"] by simp
qed

text \<open>
  A file is always opened when byte 1024 falls inside a multi-byte character: the head that is
  checked is then no UTF-8 text, and what the file contains does not matter.
\<close>
lemma cut_character_bypass:
  assumes "io_pread io fd 1024 = Some (take 1024 (pre @ b # rest))"
    and "length pre = 1023" and "utf8_valid pre" and "0x80 \<le> b"
  shows "evaluate_file_safety io matches fd = FAN_ALLOW"
proof -
  have "\<not> utf8_valid [b]"
    using assms(4) by (simp add: utf8_valid.simps [of "[b]"] utf8_char_width_def Let_def not_less)
  then have "\<not> utf8_valid (pre @ [b])"
    using utf8_valid_append [OF assms(3)] by simp
  moreover have "take 1024 (pre @ b # rest) = pre @ [b]"
    using assms(2) by simp
  ultimately show ?thesis
    using assms(1) by (simp add: evaluate_file_safety_def from_utf8_def)
qed

lemma cut_character_bypass_example:
  "evaluate_file_safety \<lparr>io_readlink = (\<lambda>fd. None),
     io_pread = (\<lambda>fd n. Some (take n (replicate 1023 0x41 @ 0xC3 # [0xA9])))\<rparr> (\<lambda>s. True) 9 = FAN_ALLOW"
proof -
  have "utf8_valid (replicate 1023 0x41)"
    by (rule utf8_valid_ascii) simp
  then show ?thesis
    by (intro cut_character_bypass [where pre = "replicate 1023 0x41" and b = "0xC3" and rest = "[0xA9]"])
       simp_all
qed

end
