(* ===== verification/Pcap.thy ===== *)
theory Pcap
  imports Rust_Prelude
begin

text \<open>
  Live capture with \<^verbatim>\<open>pcap\<close>, as the two sniffers of the repository use it (\<^verbatim>\<open>dlp_sniffer\<close>, \<^verbatim>\<open>dns_telemetry\<close>): the
  device, the settings of the builder, the filter, and the results of \<^verbatim>\<open>next_packet\<close> one after
  the other. The crate is a parameter, the record \<open>pcap\<close>; the order of the calls and what a program makes of a
  failure are the program's.
\<close>

record capture_settings =
  promisc :: bool
  snaplen :: nat
  timeout_ms :: nat

text \<open>
  \<open>device_lookup\<close> is \<^const>\<open>None\<close> for an error and \<^term>\<open>Some None\<close> when there is no device. \<open>next_packets\<close> lists the
  results of \<^verbatim>\<open>next_packet\<close> on an open capture, \<^const>\<open>None\<close> for an error, among them the time-out.
\<close>

record pcap =
  device_lookup :: "string option option"
  from_device :: "string \<Rightarrow> bool"
  open_capture :: "string \<Rightarrow> capture_settings \<Rightarrow> bool"
  set_filter :: "string \<Rightarrow> string \<Rightarrow> bool"
  next_packets :: "string \<Rightarrow> capture_settings \<Rightarrow> string \<Rightarrow> bytes option list"

datatype pcap_error = Lookup_error | No_interface | Device_error | Open_error | Filter_error

text \<open>From a device to a filtered capture: the calls that both programs make, in this order.\<close>

definition start_capture :: "pcap \<Rightarrow> string \<Rightarrow> capture_settings \<Rightarrow> string \<Rightarrow> pcap_error + bytes option list" where
  "start_capture E device cfg flt =
     (if \<not> from_device E device then Inl Device_error
      else if \<not> open_capture E device cfg then Inl Open_error
      else if \<not> set_filter E device flt then Inl Filter_error
      else Inr (next_packets E device cfg flt))"

text \<open>What \<^verbatim>\<open>while let Ok(packet) = cap.next_packet()\<close> sees.\<close>

fun until_error :: "bytes option list \<Rightarrow> bytes list" where
  "until_error [] = []"
| "until_error (None # ps) = []"
| "until_error (Some data # ps) = data # until_error ps"

lemma until_error_prefix [simp]: "until_error (map Some ds @ ps) = ds @ until_error ps"
  by (induction ds) auto

lemma until_error_split: "\<exists>rest. ps = map Some (until_error ps) @ rest \<and> (rest = [] \<or> hd rest = None)"
proof (induction ps rule: until_error.induct)
  case (3 data ps)
  then show ?case by auto
qed auto

lemma start_capture_Inr:
  "start_capture E device cfg flt = Inr ps \<longleftrightarrow>
     from_device E device \<and> open_capture E device cfg \<and> set_filter E device flt \<and> ps = next_packets E device cfg flt"
  by (auto simp: start_capture_def)

text \<open>A capture on one device, for the examples.\<close>

definition one_device :: "string \<Rightarrow> bytes option list \<Rightarrow> pcap" where
  "one_device name ps =
     \<lparr>device_lookup = Some (Some name), from_device = (\<lambda>d. d = name), open_capture = (\<lambda>d cfg. True),
      set_filter = (\<lambda>d f. True), next_packets = (\<lambda>d cfg f. ps)\<rparr>"

end
