(* ===== verification/Dlp_Sniffer.thy ===== *)
theory Dlp_Sniffer
  imports Rust_Utf8 Pcap
begin

text \<open>
  The network sensors of the DLP (\<^verbatim>\<open>dlp/dlp_sniffer\<close>): the engine that reports card numbers, the
  handler of the HTTP proxy with its server, the opening of the capture and the loop over captured packets, and
  \<^verbatim>\<open>main\<close>, which runs the two sides next to each other.

  The \<^verbatim>\<open>regex\<close> crate is a parameter, the record \<open>Card_DlpEngine\<close> of the two calls on \<^verbatim>\<open>card_pattern\<close>; the
  locale \<open>card_regex\<close> states what the pattern
  \<^verbatim>\<open>\b\d{4}[- ]?\d{4}[- ]?\d{4}[- ]?\d{4}\b\<close> guarantees on ASCII digits, and is interpreted on a
  matcher for the ASCII part of the pattern. The packets are the sequence of results of
  \<^verbatim>\<open>next_packet\<close>, the body of a request the result of \<^verbatim>\<open>hyper::body::to_bytes\<close>.
\<close>

section \<open>The engine\<close>

record Card_DlpEngine =
  card_is_match :: "string \<Rightarrow> bool"
  card_find_iter :: "string \<Rightarrow> string list"

datatype dlp_print = Leak_alert string | Compromised string

definition inspect_data :: "Card_DlpEngine \<Rightarrow> string \<Rightarrow> string \<Rightarrow> dlp_print list" where
  "inspect_data dlp ctx data =
     (if card_is_match dlp data
      then Leak_alert ctx # map Compromised (card_find_iter dlp data) else [])"

section \<open>The proxy\<close>

record http_response =
  status :: nat
  resp_body :: string

definition proxy_handler :: "Card_DlpEngine \<Rightarrow> string \<Rightarrow> bytes option \<Rightarrow> http_response \<times> dlp_print list" where
  "proxy_handler dlp uri body =
     (case body of
        None \<Rightarrow> (\<lparr>status = 400, resp_body = ''Error reading request body''\<rparr>, [])
      | Some body_bytes \<Rightarrow>
          (\<lparr>status = 200, resp_body = ''data successfully processed by the DLP proxy''\<rparr>,
           case from_utf8 body_bytes of
             Some txt' \<Rightarrow> inspect_data dlp (''HTTP Proxy Request to '' @ uri) txt'
           | None \<Rightarrow> []))"

text \<open>
  The server: \<^verbatim>\<open>Server::bind\<close> panics when the address is taken; then every request of every connection gets the
  handler with the same engine. \<open>reqs\<close> are the requests in the order they are handled, and \<open>serve_ok\<close> tells whether the
  server ends without an error, which is printed.
\<close>

record proxy_run =
  responses :: "http_response list"
  alerts :: "dlp_print list"
  server_error :: bool

definition run_proxy :: "Card_DlpEngine \<Rightarrow> bool \<Rightarrow> bool \<Rightarrow> (string \<times> bytes option) list \<Rightarrow> proxy_run run" where
  "run_proxy dlp bind_ok serve_ok reqs =
     (if \<not> bind_ok then Panic
      else let rs = map (\<lambda>(uri, body). proxy_handler dlp uri body) reqs
           in Ret \<lparr>responses = map fst rs, alerts = concat (map snd rs), server_error = \<not> serve_ok\<rparr>)"

section \<open>The sniffer\<close>

definition inspect_packet :: "Card_DlpEngine \<Rightarrow> bytes \<Rightarrow> dlp_print list" where
  "inspect_packet dlp data =
     (case from_utf8 data of
        Some payload_text \<Rightarrow> inspect_data dlp ''Passive Network Sniffer'' payload_text
      | None \<Rightarrow>
          (let lossy_text = from_utf8_lossy data
           in if length lossy_text > 40
              then inspect_data dlp ''Passive Network Sniffer (Lossy)'' lossy_text else []))"

text \<open>The loop ends at the first error of the capture.\<close>

fun run_sniffer :: "Card_DlpEngine \<Rightarrow> bytes option list \<Rightarrow> dlp_print list" where
  "run_sniffer dlp [] = []"
| "run_sniffer dlp (None # ps) = []"
| "run_sniffer dlp (Some data # ps) = inspect_packet dlp data @ run_sniffer dlp ps"

text \<open>
  The device: \<^verbatim>\<open>any\<close> if a capture on it can be made, else the default one. (The two branches of the source have
  different types; this is the reading its comments give.) Every failure is unwrapped.
\<close>

definition sniffer_device :: "pcap \<Rightarrow> string run" where
  "sniffer_device E =
     (if from_device E ''any'' then Ret ''any''
      else case device_lookup E of Some (Some device) \<Rightarrow> Ret device | _ \<Rightarrow> Panic)"

definition open_sniffer :: "pcap \<Rightarrow> bytes option list run" where
  "open_sniffer E =
     bind_run (sniffer_device E) (\<lambda>device.
       case start_capture E device \<lparr>promisc = True, snaplen = 65535, timeout_ms = 1000\<rparr> ''ip'' of
         Inl _ \<Rightarrow> Panic
       | Inr results \<Rightarrow> Ret results)"

definition sniffer_thread :: "pcap \<Rightarrow> Card_DlpEngine \<Rightarrow> dlp_print list run" where
  "sniffer_thread E dlp = bind_run (open_sniffer E) (\<lambda>results. Ret (run_sniffer dlp results))"

text \<open>
  \<^verbatim>\<open>main\<close>: the sniffer in a thread whose handle is dropped, so a panic there is not seen, and the proxy. They share
  the engine, which neither changes; the pair holds what each of them does.
\<close>

definition sniffer_main ::
    "pcap \<Rightarrow> Card_DlpEngine \<Rightarrow> bool \<Rightarrow> bool \<Rightarrow> (string \<times> bytes option) list \<Rightarrow> dlp_print list run \<times> proxy_run run" where
  "sniffer_main E dlp bind_ok serve_ok reqs = (sniffer_thread E dlp, run_proxy dlp bind_ok serve_ok reqs)"

section \<open>The pattern\<close>

definition is_digit :: "char \<Rightarrow> bool" where
  "is_digit c \<longleftrightarrow> 48 \<le> byte_val c \<and> byte_val c \<le> 57"

definition is_word :: "char \<Rightarrow> bool" where
  "is_word c \<longleftrightarrow> is_digit c \<or> c = CHR ''_'' \<or> (65 \<le> byte_val c \<and> byte_val c \<le> 90) \<or> (97 \<le> byte_val c \<and> byte_val c \<le> 122)"

text \<open>A character that certainly is a word boundary next to a digit: ASCII and not of a word.\<close>

definition separator :: "char \<Rightarrow> bool" where
  "separator c \<longleftrightarrow> byte_val c < 128 \<and> \<not> is_word c"

definition four :: "string \<Rightarrow> bool" where
  "four s \<longleftrightarrow> length s = 4 \<and> list_all is_digit s"

definition sep_opt :: "string \<Rightarrow> bool" where
  "sep_opt s \<longleftrightarrow> s = [] \<or> s = ''-'' \<or> s = '' ''"

definition card_text :: "string \<Rightarrow> bool" where
  "card_text m \<longleftrightarrow> (\<exists>a s b t c u d. m = a @ s @ b @ t @ c @ u @ d \<and>
     four a \<and> four b \<and> four c \<and> four d \<and> sep_opt s \<and> sep_opt t \<and> sep_opt u)"

text \<open>
  The regex engine searches from left to right and goes on after a match, so a match that starts earlier can swallow a part of
  a card number. It cannot when the character before is one that no match contains.
\<close>

definition card_char :: "char \<Rightarrow> bool" where
  "card_char c \<longleftrightarrow> is_digit c \<or> c = CHR ''-'' \<or> c = CHR '' ''"

definition hard_boundary :: "char \<Rightarrow> bool" where
  "hard_boundary c \<longleftrightarrow> separator c \<and> \<not> card_char c"

locale card_regex =
  fixes dlp :: Card_DlpEngine
  assumes find_nonempty: "card_is_match dlp s \<longleftrightarrow> card_find_iter dlp s \<noteq> []"
    and finds_card: "card_text m \<Longrightarrow> (a = [] \<or> separator (last a)) \<Longrightarrow> (b = [] \<or> separator (hd b)) \<Longrightarrow>
      card_is_match dlp (a @ m @ b)"
    and finds_exact: "card_text m \<Longrightarrow> (a = [] \<or> hard_boundary (last a)) \<Longrightarrow> (b = [] \<or> separator (hd b)) \<Longrightarrow>
      m \<in> set (card_find_iter dlp (a @ m @ b))"

text \<open>The reference matcher: four groups of digits with optional separators, then a boundary.\<close>

definition eat_four :: "string \<Rightarrow> string option" where
  "eat_four s = (if 4 \<le> length s \<and> list_all is_digit (take 4 s) then Some (drop 4 s) else None)"

definition eat_sep :: "string \<Rightarrow> string" where
  "eat_sep s = (case s of [] \<Rightarrow> [] | c # cs \<Rightarrow> if c = CHR ''-'' \<or> c = CHR '' '' then cs else s)"

definition card_at :: "string \<Rightarrow> nat option" where
  "card_at s =
     Option.bind (eat_four s) (\<lambda>r1. Option.bind (eat_four (eat_sep r1)) (\<lambda>r2.
     Option.bind (eat_four (eat_sep r2)) (\<lambda>r3. Option.bind (eat_four (eat_sep r3)) (\<lambda>r4.
       if r4 = [] \<or> \<not> is_word (hd r4) then Some (length s - length r4) else None))))"

function card_scan :: "bool \<Rightarrow> string \<Rightarrow> string list" where
  "card_scan after_word s =
     (if s = [] then []
      else case (if after_word then None else card_at s) of
          Some n \<Rightarrow> take n s # card_scan True (drop (max n 1) s)
        | None \<Rightarrow> card_scan (is_word (hd s)) (tl s))"
  by pat_completeness auto
termination
proof (relation "measure (\<lambda>(b, s). length s)", simp)
  fix w :: bool and s :: string and n :: nat
  assume "s \<noteq> []"
  then show "((True, drop (max n 1) s), (w, s)) \<in> measure (\<lambda>(b, s). length s)"
    and "((is_word (hd s), tl s), (w, s)) \<in> measure (\<lambda>(b, s). length s)"
    by (cases s; simp add: max_def)+
qed

declare card_scan.simps [simp del]

definition ascii_engine :: Card_DlpEngine where
  "ascii_engine = \<lparr>card_is_match = (\<lambda>s. card_scan False s \<noteq> []), card_find_iter = card_scan False\<rparr>"

lemma eat_four_four: "four a \<Longrightarrow> eat_four (a @ s) = Some s"
  by (simp add: eat_four_def four_def)

lemma four_hd: "four a \<Longrightarrow> \<exists>d r. a = d # r \<and> is_digit d"
  by (cases a) (auto simp: four_def)

lemma eat_sep_four: "sep_opt s \<Longrightarrow> four a \<Longrightarrow> eat_sep (s @ a @ r) = a @ r"
  by (drule four_hd) (auto simp: sep_opt_def eat_sep_def is_digit_def byte_val_def)

lemma card_at_card:
  assumes "card_text m" and "b = [] \<or> separator (hd b)"
  shows "card_at (m @ b) = Some (length m)"
proof -
  obtain w s x t y u z where m: "m = w @ s @ x @ t @ y @ u @ z"
    and fours: "four w" "four x" "four y" "four z" and seps: "sep_opt s" "sep_opt t" "sep_opt u"
    using assms(1) by (auto simp: card_text_def)
  have "b = [] \<or> \<not> is_word (hd b)" using assms(2) by (auto simp: separator_def)
  then show ?thesis
    using fours seps by (simp add: m card_at_def eat_four_four eat_sep_four)
qed

lemma card_scan_finds:
  "card_text m \<Longrightarrow> (b = [] \<or> separator (hd b)) \<Longrightarrow>
   (if a = [] then \<not> w else separator (last a)) \<Longrightarrow> card_scan w (a @ m @ b) \<noteq> []"
proof (induction a arbitrary: w)
  case Nil
  then have "card_at (m @ b) = Some (length m)"
    by (intro card_at_card)
  moreover have "m \<noteq> []"
    using Nil.prems(1) by (auto simp: card_text_def four_def)
  ultimately have "card_scan False (m @ b) \<noteq> []"
    by (subst card_scan.simps) auto
  then show ?case using Nil by simp
next
  case (Cons c a)
  have "card_scan (is_word c) (a @ m @ b) \<noteq> []"
    using Cons by (auto simp: separator_def split: if_splits)
  then show ?case
    by (subst card_scan.simps) (simp split: option.split)
qed

text \<open>A match consists of digits, hyphens and spaces.\<close>

lemma eat_four_Some: "eat_four s = Some r \<Longrightarrow> \<exists>p. s = p @ r \<and> p \<noteq> [] \<and> list_all card_char p"
  by (rule exI [of _ "take 4 s"]) (auto simp: eat_four_def card_char_def list_all_iff split: if_splits)

lemma eat_sep_prefix: "\<exists>p. s = p @ eat_sep s \<and> list_all card_char p"
  by (cases s) (auto simp: eat_sep_def card_char_def)

lemma eat_group: "eat_four (eat_sep s) = Some r \<Longrightarrow> \<exists>p. s = p @ r \<and> list_all card_char p"
  using eat_sep_prefix [of s] by (auto dest!: eat_four_Some)

lemma card_at_Some:
  assumes "card_at s = Some n"
  obtains p r where "s = p @ r" and "n = length p" and "p \<noteq> []" and "list_all card_char p"
proof -
  from assms obtain r1 r2 r3 r4 where "eat_four s = Some r1" and "eat_four (eat_sep r1) = Some r2"
      and "eat_four (eat_sep r2) = Some r3" and "eat_four (eat_sep r3) = Some r4" and n: "n = length s - length r4"
    by (auto simp: card_at_def bind_eq_Some_conv split: if_splits)
  then obtain p1 p2 p3 p4 where "s = p1 @ r1" "r1 = p2 @ r2" "r2 = p3 @ r3" "r3 = p4 @ r4" "p1 \<noteq> []"
      "list_all card_char p1" "list_all card_char p2" "list_all card_char p3" "list_all card_char p4"
    by (metis eat_four_Some eat_group)
  then show thesis
    by (intro that [of "p1 @ p2 @ p3 @ p4" r4]) (simp_all add: n)
qed

lemma card_at_before:
  assumes "card_at (a @ t) = Some n" and "a \<noteq> []" and "hard_boundary (last a)"
  shows "0 < n \<and> n < length a"
proof -
  from assms(1) obtain p r where p: "a @ t = p @ r" "n = length p" "p \<noteq> []" "list_all card_char p"
    by (rule card_at_Some)
  have "length p < length a"
  proof (rule ccontr)
    assume "\<not> length p < length a"
    with p(1) obtain q where "p = a @ q"
      by (auto simp: append_eq_append_conv2)
    with assms(2,3) p(4) show False by (auto simp: hard_boundary_def list_all_iff)
  qed
  with p(2,3) show ?thesis by simp
qed

lemma card_scan_exact:
  "card_text m \<Longrightarrow> (b = [] \<or> separator (hd b)) \<Longrightarrow>
   (if a = [] then \<not> w else hard_boundary (last a)) \<Longrightarrow> m \<in> set (card_scan w (a @ m @ b))"
proof (induction "length a" arbitrary: a w rule: less_induct)
  case less
  have "m \<noteq> []"
    using less.prems(1) by (auto simp: card_text_def four_def)
  show ?case
  proof (cases a)
    case Nil
    with less.prems \<open>m \<noteq> []\<close> show ?thesis
      by (subst card_scan.simps) (simp add: card_at_card)
  next
    case (Cons c a')
    show ?thesis
    proof (cases "if w then None else card_at (a @ m @ b)")
      case None
      have "m \<in> set (card_scan (is_word c) (a' @ m @ b))"
        using less.prems Cons by (intro less.hyps) (auto simp: hard_boundary_def separator_def split: if_splits)
      with None Cons show ?thesis by (subst card_scan.simps) simp
    next
      case (Some n)
      then have n: "0 < n \<and> n < length a"
        using card_at_before [of a "m @ b" n] less.prems(3) Cons by (auto split: if_splits)
      have "m \<in> set (card_scan True (drop n a @ m @ b))"
        using less.prems n by (intro less.hyps) (auto split: if_splits)
      moreover have "a \<noteq> []" "max n 1 = n" "drop n (a @ m @ b) = drop n a @ m @ b"
        using n by auto
      ultimately show ?thesis using Some by (subst card_scan.simps) simp
    qed
  qed
qed

interpretation ascii: card_regex ascii_engine
proof
  show "m \<in> set (card_find_iter ascii_engine (a @ m @ b))"
    if "card_text m" "a = [] \<or> hard_boundary (last a)" "b = [] \<or> separator (hd b)" for a m b
    using card_scan_exact [OF that(1,3), of a False] that(2) by (cases "a = []") (simp_all add: ascii_engine_def)
  show "card_is_match ascii_engine s \<longleftrightarrow> card_find_iter ascii_engine s \<noteq> []" for s
    by (simp add: ascii_engine_def)
  show "card_is_match ascii_engine (a @ m @ b)"
    if "card_text m" "a = [] \<or> separator (last a)" "b = [] \<or> separator (hd b)" for a m b
    using card_scan_finds [OF that(1,3), of a False] that(2) by (cases "a = []") (simp_all add: ascii_engine_def)
qed

section \<open>Properties\<close>

lemma inspect_data_alert: "Leak_alert c \<in> set (inspect_data dlp ctx data) \<longleftrightarrow> c = ctx \<and> card_is_match dlp data"
  by (auto simp: inspect_data_def)

lemma run_sniffer_prefix: "run_sniffer dlp (map Some ds @ ps) = concat (map (inspect_packet dlp) ds) @ run_sniffer dlp ps"
  by (induction ds) auto

lemma card_textI:
  "four a \<Longrightarrow> four b \<Longrightarrow> four c \<Longrightarrow> four d \<Longrightarrow> sep_opt s \<Longrightarrow> sep_opt t \<Longrightarrow> sep_opt u \<Longrightarrow>
   card_text (a @ s @ b @ t @ c @ u @ d)"
  unfolding card_text_def by blast

lemma four_ascii: "four s \<Longrightarrow> c \<in> set s \<Longrightarrow> byte_val c < 128"
  by (auto simp: four_def list_all_iff is_digit_def)

lemma sep_opt_ascii: "sep_opt s \<Longrightarrow> c \<in> set s \<Longrightarrow> byte_val c < 128"
  by (auto simp: sep_opt_def byte_val_def)

lemma card_text_ascii: "card_text m \<Longrightarrow> c \<in> set m \<Longrightarrow> byte_val c < 128"
  unfolding card_text_def by (elim exE conjE) (simp, elim disjE; erule (1) four_ascii sep_opt_ascii)

lemma as_bytes_ascii: "(\<And>c. c \<in> set s \<Longrightarrow> byte_val c < 128) \<Longrightarrow> b \<in> set (as_bytes s) \<Longrightarrow> b < 0x80"
  by (auto simp: as_bytes_def of_char_eq_byte_val word_less_nat_alt unat_of_nat)

lemma separator_byte: "separator (byte_char b) \<Longrightarrow> b < 0x80"
  using u8_byte_val [of b] by (simp add: separator_def word_less_nat_alt)

text \<open>The text that is inspected for a packet contains its ASCII parts unchanged, with their neighbours.\<close>

lemma lossy_context:
  assumes "card_text m"
  shows "from_utf8_lossy (p @ as_bytes m @ q) = bytes_str (utf8_lossy p) @ m @ bytes_str (utf8_lossy q)"
proof -
  have "utf8_lossy (p @ as_bytes m @ q) = utf8_lossy p @ as_bytes m @ utf8_lossy q"
  proof (rule utf8_lossy_infix)
    show "b < 0x80" if "b \<in> set (as_bytes m)" for b
      using as_bytes_ascii card_text_ascii [OF assms] that by blast
    show "as_bytes m \<noteq> []"
      using assms by (auto simp: card_text_def four_def as_bytes_def)
  qed
  then show ?thesis
    by (simp add: from_utf8_lossy_def bytes_str_append)
qed

lemma lossy_last: "p \<noteq> [] \<Longrightarrow> last p < 0x80 \<Longrightarrow> utf8_lossy p \<noteq> [] \<and> last (utf8_lossy p) = last p"
  using utf8_lossy_split [of "last p" "butlast p" "[]"] by simp

lemma lossy_hd: "q \<noteq> [] \<Longrightarrow> hd q < 0x80 \<Longrightarrow> utf8_lossy q \<noteq> [] \<and> hd (utf8_lossy q) = hd q"
  by (cases q) (simp_all add: utf8_lossy_ascii_Cons)

lemma lossy_before:
  "p = [] \<or> P (byte_char (last p)) \<Longrightarrow> (\<And>c. P c \<Longrightarrow> separator c) \<Longrightarrow>
   bytes_str (utf8_lossy p) = [] \<or> P (last (bytes_str (utf8_lossy p)))"
  using lossy_last [of p] separator_byte [of "last p"]
  by (cases "p = []"; cases "utf8_lossy p = []") (auto simp: bytes_str_def last_map)

lemma lossy_after:
  "q = [] \<or> separator (byte_char (hd q)) \<Longrightarrow> bytes_str (utf8_lossy q) = [] \<or> separator (hd (bytes_str (utf8_lossy q)))"
  using lossy_hd [of q] separator_byte [of "hd q"]
  by (cases "q = []"; cases "utf8_lossy q = []") (auto simp: bytes_str_def hd_map)

text \<open>
  C26: A card number in ASCII digits that stands alone or between ASCII characters that are not of a word, anywhere in a
  packet captured before the first capture error, with arbitrary bytes in the rest of the packet, is reported, provided
  the packet is UTF-8 text or its lossy text is longer than 40 bytes: after the output for the packets before, the
  sniffer prints the alert with its context, then every match the pattern has in the packet, at least one, and goes on with
  the packets after it. The number itself is printed as one of the matches if it stands at the start of the packet or the
  character before it is neither a space nor a hyphen (a match that starts earlier cannot swallow a part of it then).
\<close>
theorem sniffer_reports_card:
  assumes "card_regex dlp" and card: "card_text m"
    and before: "p = [] \<or> separator (byte_char (last p))"
    and after: "q = [] \<or> separator (byte_char (hd q))"
    and data: "data = p @ as_bytes m @ q"
    and long: "utf8_valid data \<or> 40 < length (utf8_lossy data)"
  shows "\<exists>fragments. run_sniffer dlp (map Some ds @ Some data # ps)
       = run_sniffer dlp (map Some ds)
         @ Leak_alert (if utf8_valid data then ''Passive Network Sniffer'' else ''Passive Network Sniffer (Lossy)'')
         # map Compromised fragments @ run_sniffer dlp ps
     \<and> fragments = card_find_iter dlp (from_utf8_lossy data) \<and> fragments \<noteq> []
     \<and> (p = [] \<or> hard_boundary (byte_char (last p)) \<longrightarrow> m \<in> set fragments)"
proof -
  note lossy = lossy_context [OF card, of p q, folded data]
  have sep: "hard_boundary c \<Longrightarrow> separator c" for c by (simp add: hard_boundary_def)
  have match: "card_is_match dlp (from_utf8_lossy data)"
    unfolding lossy by (rule card_regex.finds_card [OF assms(1) card lossy_before [of p separator, OF before] lossy_after [OF after]])
  have exact: "m \<in> set (card_find_iter dlp (from_utf8_lossy data))" if "p = [] \<or> hard_boundary (byte_char (last p))"
    unfolding lossy by (rule card_regex.finds_exact [OF assms(1) card lossy_before [of p hard_boundary, OF that sep] lossy_after [OF after]])
  have "from_utf8 data = (if utf8_valid data then Some (from_utf8_lossy data) else None)"
    by (simp add: from_utf8_def from_utf8_lossy_def utf8_lossy_id)
  then have "inspect_packet dlp data
      = Leak_alert (if utf8_valid data then ''Passive Network Sniffer'' else ''Passive Network Sniffer (Lossy)'')
        # map Compromised (card_find_iter dlp (from_utf8_lossy data))"
    using long match by (auto simp: inspect_packet_def inspect_data_def from_utf8_lossy_def bytes_str_def Let_def)
  with match exact card_regex.find_nonempty [OF assms(1), of "from_utf8_lossy data"] show ?thesis
    using run_sniffer_prefix [of dlp ds "[]"] by (simp add: run_sniffer_prefix)
qed

theorem sniffer_reports_card_witness:
  "\<exists>fragments. run_sniffer ascii_engine
       [Some [0x45, 0xFF], Some (replicate 40 0xFF @ [0x3D] @ as_bytes ''4111-1111 11111111'' @ [0x0A, 0x80]), None]
     = Leak_alert ''Passive Network Sniffer (Lossy)'' # map Compromised fragments \<and> ''4111-1111 11111111'' \<in> set fragments"
proof -
  let ?data = "replicate 40 0xFF @ [0x3D] @ as_bytes ''4111-1111 11111111'' @ [0x0A, 0x80]"
  have "card_text ''4111-1111 11111111''"
    using card_textI [of "''4111''" "''1111''" "''1111''" "''1111''" "''-''" "'' ''" "[]"]
    by (simp add: four_def sep_opt_def is_digit_def byte_val_def)
  moreover have "separator (byte_char 0x3D)" "separator (byte_char 0x0A)" "hard_boundary (byte_char 0x3D)"
    "40 < length (utf8_lossy ?data)" "\<not> utf8_valid ?data" "run_sniffer ascii_engine (map Some [[0x45, 0xFF]]) = []"
    by code_simp+
  ultimately show ?thesis
    using sniffer_reports_card [OF ascii.card_regex_axioms, of "''4111-1111 11111111''" "replicate 40 0xFF @ [0x3D]"
        "[0x0A, 0x80]" ?data "[[0x45, 0xFF]]" "[None]"]
    by (intro exI [of _ "card_find_iter ascii_engine (from_utf8_lossy ?data)"]) simp
qed

text \<open>
  The capture is opened with a time-out of a second, after which \<^verbatim>\<open>next_packet\<close> returns an error: the
  sniffer ends for good at the first second without a packet.
\<close>
lemma sniffer_stops_at_first_error: "run_sniffer dlp (map Some ds @ None # ps) = concat (map (inspect_packet dlp) ds)"
  by (simp add: run_sniffer_prefix)

lemma run_sniffer_until_error: "run_sniffer dlp ps = concat (map (inspect_packet dlp) (until_error ps))"
  by (induction ps rule: until_error.induct) auto

text \<open>
  The sensor as a whole, when its capture can be opened and the address is free: the sniffer inspects exactly the packets
  before the first error of the capture, whatever the proxy does; the proxy answers every request, in order.
\<close>
lemma sniffer_main_runs:
  assumes "open_sniffer E = Ret results"
  shows "sniffer_main E dlp True ok reqs =
    (Ret (concat (map (inspect_packet dlp) (until_error results))),
     Ret \<lparr>responses = map (\<lambda>(uri, body). fst (proxy_handler dlp uri body)) reqs,
          alerts = concat (map (\<lambda>(uri, body). snd (proxy_handler dlp uri body)) reqs), server_error = \<not> ok\<rparr>)"
  using assms by (simp add: sniffer_main_def sniffer_thread_def run_proxy_def run_sniffer_until_error case_prod_unfold comp_def)

text \<open>Without a network interface the sniffer thread panics, and the proxy goes on without it.\<close>
lemma no_interface_proxy_alone:
  assumes "\<not> from_device E ''any''" and "device_lookup E = Some None"
  shows "fst (sniffer_main E dlp True ok reqs) = Panic" and "snd (sniffer_main E dlp True ok reqs) \<noteq> Panic"
  using assms by (simp_all add: sniffer_main_def sniffer_thread_def open_sniffer_def sniffer_device_def run_proxy_def)

text \<open>A card number in a request whose body is text is reported, with the address it was sent to.\<close>
lemma proxy_reports_card:
  assumes "card_regex dlp" and "card_text m" and "a = [] \<or> separator (last a)" and "b = [] \<or> separator (hd b)"
    and "from_utf8 body = Some (a @ m @ b)" and "(uri, Some body) \<in> set reqs" and "run_proxy dlp True ok reqs = Ret r"
  shows "Leak_alert (''HTTP Proxy Request to '' @ uri) \<in> set (alerts r)"
proof -
  have "card_is_match dlp (a @ m @ b)" by (rule card_regex.finds_card [OF assms(1-4)])
  then have "Leak_alert (''HTTP Proxy Request to '' @ uri) \<in> set (snd (proxy_handler dlp uri (Some body)))"
    by (simp add: proxy_handler_def assms(5) inspect_data_alert)
  then have "Leak_alert (''HTTP Proxy Request to '' @ uri) \<in> (\<Union>q \<in> set reqs. set (snd (proxy_handler dlp (fst q) (snd q))))"
    using assms(6) by (intro UN_I [of "(uri, Some body)"]) simp_all
  then show ?thesis
    using assms(7) by (simp only: run_proxy_def Let_def not_True_eq_False case_prod_unfold if_False run.inject) (auto simp only: proxy_run.simps set_concat set_map image_image)
qed

text \<open>A leak in a request is printed, but the answer is the same and the request goes nowhere.\<close>
lemma proxy_never_blocks: "fst (proxy_handler dlp uri (Some body)) = fst (proxy_handler dlp' uri' (Some body'))"
  by (simp add: proxy_handler_def)

end
