(* ===== verification/Vpp_Xdp.thy ===== *)
theory Vpp_Xdp
  imports Xdp Aya
begin

text \<open>
  The XDP program that hands packets to VPP (\<^verbatim>\<open>vpp-xdp/eth-xdp-kernel\<close>) and its loader
  (\<^verbatim>\<open>vpp-xdp/vpp-xdp-loader\<close>). The helper behind \<^verbatim>\<open>XskMap::redirect\<close> is the parameter \<open>redirect\<close>; the
  loader extends the calls of \<^verbatim>\<open>aya\<close> (record \<open>aya_sys\<close>) by those of \<^verbatim>\<open>std::fs\<close> and by the pin.
\<close>

section \<open>The program\<close>

definition vpp_xdp_redirect :: "(u32 \<Rightarrow> u64 \<Rightarrow> u32) \<Rightarrow> u32 \<Rightarrow> xdp_ctx \<Rightarrow> u32 \<times> xdp_ctx" where
  "vpp_xdp_redirect redirect queue_id ctx =
     (if redirect queue_id 0 = XDP_REDIRECT then XDP_REDIRECT else XDP_PASS, ctx)"

interpretation vpp: xdp_program "vpp_xdp_redirect redirect queue_id" for redirect queue_id
  by (rule xdp_program_readonly) (simp_all add: vpp_xdp_redirect_def)

text \<open>
  What the helper documents for flags 0: \<^verbatim>\<open>XDP_REDIRECT\<close> when the queue has a socket, the flags
  otherwise. A packet of a queue without a socket goes on to the kernel stack unchanged.
\<close>

lemma vpp_redirect_verdict:
  assumes "redirect queue_id 0 = (if queue_id \<in> bound then XDP_REDIRECT else 0)"
  shows "vpp_xdp_redirect redirect queue_id ctx = (if queue_id \<in> bound then XDP_REDIRECT else XDP_PASS, ctx)"
  using assms by (simp add: vpp_xdp_redirect_def XDP_REDIRECT_def XDP_PASS_def)

section \<open>The loader\<close>

record vpp_args =
  iface :: string
  pin_path :: string

record 'k vpp_sys = "'k aya_sys" +
  vpp_exists :: "string \<Rightarrow> 'k \<Rightarrow> bool"
  create_dir_all :: "string \<Rightarrow> 'k \<Rightarrow> 'k option"
  vpp_remove_file :: "string \<Rightarrow> 'k \<Rightarrow> 'k option"
  map_pin :: "string \<Rightarrow> string \<Rightarrow> 'k \<Rightarrow> 'k option"

definition map_pin_path :: "vpp_args \<Rightarrow> string" where
  "map_pin_path args = pin_path args @ ''/xsks_map''"

definition vpp_loader_main :: "'k vpp_sys \<Rightarrow> vpp_args \<Rightarrow> 'k \<Rightarrow> ('k, 'k) start_result" where
  "vpp_loader_main S args k =
     or_fail k (if vpp_exists S (pin_path args) k then Some k else create_dir_all S (pin_path args) k) (\<lambda>k1.
     or_fail k1 (bpf_load S ''eth-xdp-kernel'' k1) (\<lambda>k2.
     take_map S ''XskMap'' ''VPP_XSK_MAP'' k2
       (let k3 = (case vpp_remove_file S (map_pin_path args) k2 of Some k' \<Rightarrow> k' | None \<Rightarrow> k2) in
        or_fail k3 (map_pin S ''VPP_XSK_MAP'' (map_pin_path args) k3) (\<lambda>k4.
        start_program S ''Xdp'' ''vpp_xdp_redirect'' [iface args, ''DRV_MODE''] k4 (\<lambda>k5. await_ctrl_c S k5 k5)))))"

text \<open>
  The loader attaches last: a run that ends in order has pinned the map, loaded the program and attached
  it. When it stops before, the pin of an earlier run is already gone.
\<close>

lemma vpp_loader_finished:
  assumes "vpp_loader_main S args k = Finished k'"
  shows "\<exists>k3 k4 k5. map_pin S ''VPP_XSK_MAP'' (map_pin_path args) k3 = Some k4 \<and>
           program_load S ''vpp_xdp_redirect'' k4 = Some k5 \<and>
           program_attach S ''vpp_xdp_redirect'' [iface args, ''DRV_MODE''] k5 = Some k'"
  using assms
  by (auto simp: vpp_loader_main_def start_program_def await_ctrl_c_def Let_def elim!: or_fail_cases split: if_splits) blast+

lemma vpp_loader_pin_failure:
  assumes "vpp_exists S (pin_path args) k" and "bpf_load S ''eth-xdp-kernel'' k = Some k2"
    and "has_map S ''VPP_XSK_MAP'' k2" and "map_is S ''XskMap'' ''VPP_XSK_MAP'' k2"
    and "vpp_remove_file S (map_pin_path args) k2 = Some k3"
    and "map_pin S ''VPP_XSK_MAP'' (map_pin_path args) k3 = None"
  shows "vpp_loader_main S args k = Failed k3"
  using assms by (simp add: vpp_loader_main_def take_map_def)

end
