(* ===== verification/Rs_Ngrok.thy ===== *)
theory Rs_Ngrok
  imports Interfaces
begin

text \<open>
  The reverse tunnel (\<^verbatim>\<open>rs_ngrok\<close>): a server that accepts visitors on a public port and, for each one,
  asks the client over the control connection for a data connection, and the client that opens it. The
  server, the reader of the client and its tasks run concurrently: a step relation on the state of both
  programs, the backlogs of the two ports and the bytes on the control connection. Copying between two
  linked streams is \<^verbatim>\<open>copy_bidirectional\<close>; the model keeps which streams are linked.
\<close>

section \<open>The command line\<close>

datatype ngrok_action = Usage | Run_server string string | Run_client string string

definition arg_or :: "string list \<Rightarrow> nat \<Rightarrow> string \<Rightarrow> string" where
  "arg_or args i d = (if i < length args then args ! i else d)"

definition ngrok_main :: "string list \<Rightarrow> ngrok_action" where
  "ngrok_main args =
     (if length args < 2 then Usage
      else if args ! 1 = ''server'' then Run_server (arg_or args 2 ''8001'') (arg_or args 3 ''8080'')
      else if args ! 1 = ''client'' then Run_client (arg_or args 2 ''127.0.0.1:8001'') (arg_or args 3 ''127.0.0.1:3000'')
      else Usage)"

section \<open>The state\<close>

text \<open>Who opened a connection to the control port; task \<open>i\<close> is the one the client spawns \<open>i\<close>-th.\<close>

datatype peer = Client_control | Client_data nat | Stranger nat

datatype server_phase =
    Await_client
  | Await_visitor
  | Notify nat
  | Await_data nat
  | Stopped

datatype task_phase = Connecting | Data_open | Bridged | Gave_up

record tunnel =
  srv :: server_phase
  control_peer :: "peer option"
  control_backlog :: "peer list"
  public_backlog :: "nat list"
  triggers :: nat
  cli_connected :: bool
  cli_stopped :: bool
  cli_tasks :: "task_phase list"
  links :: "(nat \<times> peer) list"

definition tunnel_init :: tunnel where
  "tunnel_init = \<lparr>srv = Await_client, control_peer = None, control_backlog = [], public_backlog = [],
     triggers = 0, cli_connected = False, cli_stopped = False, cli_tasks = [], links = []\<rparr>"

section \<open>The steps\<close>

datatype ngrok_event =
    Connect_control | Connect_visitor nat | Connect_stranger nat
  | Accept_client | Accept_visitor | Trigger_sent | Trigger_lost | Accept_data | Accept_error
  | Client_ends | Read_trigger | Task_connected nat | Task_no_server nat | Task_local nat | Task_no_local nat

inductive ngrok_step :: "tunnel \<Rightarrow> ngrok_event \<Rightarrow> tunnel \<Rightarrow> bool" where
  connect_control: "\<not> cli_connected s \<Longrightarrow>
     ngrok_step s Connect_control (s\<lparr>cli_connected := True, control_backlog := control_backlog s @ [Client_control]\<rparr>)"
| connect_visitor: "ngrok_step s (Connect_visitor v) (s\<lparr>public_backlog := public_backlog s @ [v]\<rparr>)"
| connect_stranger: "ngrok_step s (Connect_stranger x) (s\<lparr>control_backlog := control_backlog s @ [Stranger x]\<rparr>)"
| accept_client: "srv s = Await_client \<Longrightarrow> control_backlog s = p # ps \<Longrightarrow>
     ngrok_step s Accept_client (s\<lparr>srv := Await_visitor, control_peer := Some p, control_backlog := ps\<rparr>)"
| accept_visitor: "srv s = Await_visitor \<Longrightarrow> public_backlog s = v # vs \<Longrightarrow>
     ngrok_step s Accept_visitor (s\<lparr>srv := Notify v, public_backlog := vs\<rparr>)"
| trigger_sent: "srv s = Notify v \<Longrightarrow>
     ngrok_step s Trigger_sent (s\<lparr>srv := Await_data v,
       triggers := (if control_peer s = Some Client_control then Suc (triggers s) else triggers s)\<rparr>)"
| trigger_lost: "srv s = Notify v \<Longrightarrow> ngrok_step s Trigger_lost (s\<lparr>srv := Stopped\<rparr>)"
| accept_data: "srv s = Await_data v \<Longrightarrow> control_backlog s = p # ps \<Longrightarrow>
     ngrok_step s Accept_data (s\<lparr>srv := Await_visitor, control_backlog := ps, links := links s @ [(v, p)]\<rparr>)"
| accept_error: "srv s \<noteq> Stopped \<Longrightarrow> (\<forall>v. srv s \<noteq> Notify v) \<Longrightarrow> ngrok_step s Accept_error (s\<lparr>srv := Stopped\<rparr>)"
| client_ends: "cli_connected s \<Longrightarrow> ngrok_step s Client_ends (s\<lparr>cli_stopped := True\<rparr>)"
| read_trigger: "\<not> cli_stopped s \<Longrightarrow> triggers s = Suc n \<Longrightarrow>
     ngrok_step s Read_trigger (s\<lparr>triggers := n, cli_tasks := cli_tasks s @ [Connecting]\<rparr>)"
| task_connected: "\<not> cli_stopped s \<Longrightarrow> i < length (cli_tasks s) \<Longrightarrow> cli_tasks s ! i = Connecting \<Longrightarrow>
     ngrok_step s (Task_connected i) (s\<lparr>cli_tasks := (cli_tasks s)[i := Data_open],
       control_backlog := control_backlog s @ [Client_data i]\<rparr>)"
| task_no_server: "\<not> cli_stopped s \<Longrightarrow> i < length (cli_tasks s) \<Longrightarrow> cli_tasks s ! i = Connecting \<Longrightarrow>
     ngrok_step s (Task_no_server i) (s\<lparr>cli_tasks := (cli_tasks s)[i := Gave_up]\<rparr>)"
| task_local: "\<not> cli_stopped s \<Longrightarrow> i < length (cli_tasks s) \<Longrightarrow> cli_tasks s ! i = Data_open \<Longrightarrow>
     ngrok_step s (Task_local i) (s\<lparr>cli_tasks := (cli_tasks s)[i := Bridged]\<rparr>)"
| task_no_local: "\<not> cli_stopped s \<Longrightarrow> i < length (cli_tasks s) \<Longrightarrow> cli_tasks s ! i = Data_open \<Longrightarrow>
     ngrok_step s (Task_no_local i) (s\<lparr>cli_tasks := (cli_tasks s)[i := Gave_up]\<rparr>)"

inductive_cases ngrok_stepE: "ngrok_step s e s'"

inductive ngrok_run :: "tunnel \<Rightarrow> ngrok_event list \<Rightarrow> tunnel \<Rightarrow> bool" where
  ngrok_refl: "ngrok_run s [] s"
| ngrok_trans: "ngrok_run s es s' \<Longrightarrow> ngrok_step s' e s'' \<Longrightarrow> ngrok_run s (es @ [e]) s''"

definition visitors :: "ngrok_event list \<Rightarrow> nat list" where
  "visitors es = concat (map (\<lambda>e. case e of Connect_visitor v \<Rightarrow> [v] | _ \<Rightarrow> []) es)"

definition no_stranger :: "ngrok_event list \<Rightarrow> bool" where
  "no_stranger es \<longleftrightarrow> list_all (\<lambda>e. \<forall>x. e \<noteq> Connect_stranger x) es"

lemma no_stranger_append [simp]: "no_stranger (es @ es') \<longleftrightarrow> no_stranger es \<and> no_stranger es'"
  by (simp add: no_stranger_def)

lemma visitors_append [simp]: "visitors (es @ es') = visitors es @ visitors es'"
  by (simp add: visitors_def)

section \<open>The pairing\<close>

text \<open>
  The server is sequential: it asks for one data connection at a time and waits for it. So at most one
  trigger is unanswered, and without strangers the next connection on the control port is the answer.
\<close>

fun pending_visitor :: "server_phase \<Rightarrow> nat list" where
  "pending_visitor (Notify v) = [v]"
| "pending_visitor (Await_data v) = [v]"
| "pending_visitor _ = []"

fun phase_ok :: "server_phase \<Rightarrow> tunnel \<Rightarrow> bool" where
  "phase_ok Await_client s \<longleftrightarrow> links s = [] \<and> cli_tasks s = [] \<and> triggers s = 0 \<and>
     control_backlog s = (if cli_connected s then [Client_control] else [])"
| "phase_ok Await_visitor s \<longleftrightarrow> cli_connected s \<and> control_peer s = Some Client_control \<and>
     triggers s = 0 \<and> length (cli_tasks s) = length (links s) \<and> control_backlog s = []"
| "phase_ok (Notify v) s \<longleftrightarrow> cli_connected s \<and> control_peer s = Some Client_control \<and>
     triggers s = 0 \<and> length (cli_tasks s) = length (links s) \<and> control_backlog s = []"
| "phase_ok (Await_data v) s \<longleftrightarrow> cli_connected s \<and> control_peer s = Some Client_control \<and>
     length (cli_tasks s) + triggers s = Suc (length (links s)) \<and>
     (if length (cli_tasks s) = Suc (length (links s)) \<and> cli_tasks s ! length (links s) \<noteq> Connecting
      then control_backlog s = [] \<or> control_backlog s = [Client_data (length (links s))]
      else control_backlog s = [])"
| "phase_ok Stopped s \<longleftrightarrow> True"

definition tunnel_inv :: "ngrok_event list \<Rightarrow> tunnel \<Rightarrow> bool" where
  "tunnel_inv es s \<longleftrightarrow>
     phase_ok (srv s) s \<and> map snd (links s) = map Client_data [0 ..< length (links s)] \<and>
     length (links s) \<le> length (cli_tasks s) \<and>
     (\<forall>i < length (links s). cli_tasks s ! i \<noteq> Connecting) \<and>
     (\<exists>rest. visitors es = map fst (links s) @ rest) \<and>
     (srv s \<noteq> Stopped \<longrightarrow> visitors es = map fst (links s) @ pending_visitor (srv s) @ public_backlog s)"

lemma tunnel_inv_init: "tunnel_inv [] tunnel_init"
  by (simp add: tunnel_inv_def tunnel_init_def visitors_def)

lemma visitors_single [simp]:
  "visitors [Connect_visitor v] = [v]" "visitors [Connect_control] = []" "visitors [Accept_client] = []"
  "visitors [Accept_visitor] = []" "visitors [Trigger_sent] = []" "visitors [Trigger_lost] = []"
  "visitors [Accept_data] = []" "visitors [Accept_error] = []" "visitors [Client_ends] = []"
  "visitors [Read_trigger] = []" "visitors [Task_connected i] = []" "visitors [Task_no_server i] = []"
  "visitors [Task_local i] = []" "visitors [Task_no_local i] = []" "visitors [Connect_stranger x] = []"
  by (simp_all add: visitors_def)

lemma tunnel_inv_step:
  assumes "ngrok_step s e s'" and "tunnel_inv es s" and "no_stranger [e]"
  shows "tunnel_inv (es @ [e]) s'"
  using assms(1)
proof (cases rule: ngrok_step.cases)
  case connect_control
  then show ?thesis using assms(2) by (cases "srv s") (auto simp: tunnel_inv_def)
next
  case (connect_visitor v)
  then show ?thesis using assms(2) by (cases "srv s") (auto simp: tunnel_inv_def)
next
  case (connect_stranger x)
  then show ?thesis using assms(3) by (simp add: no_stranger_def)
next
  case (accept_client p ps)
  then show ?thesis using assms(2) by (auto simp: tunnel_inv_def split: if_splits)
next
  case (accept_visitor v vs)
  then show ?thesis using assms(2) by (auto simp: tunnel_inv_def)
next
  case (trigger_sent v)
  then show ?thesis using assms(2) by (auto simp: tunnel_inv_def)
next
  case (trigger_lost v)
  then show ?thesis using assms(2) by (auto simp: tunnel_inv_def)
next
  case (accept_data v p ps)
  then show ?thesis using assms(2) by (auto simp: tunnel_inv_def less_Suc_eq split: if_splits)
next
  case accept_error
  then show ?thesis using assms(2) by (auto simp: tunnel_inv_def)
next
  case client_ends
  then show ?thesis using assms(2) by (cases "srv s") (auto simp: tunnel_inv_def split: if_splits)
next
  case (read_trigger n)
  then show ?thesis using assms(2) by (cases "srv s") (auto simp: tunnel_inv_def nth_append split: if_splits)
next
  case (task_connected i)
  then show ?thesis using assms(2) by (cases "srv s") (auto simp: tunnel_inv_def nth_list_update less_Suc_eq split: if_splits)
next
  case (task_no_server i)
  then show ?thesis using assms(2) by (cases "srv s") (auto simp: tunnel_inv_def nth_list_update split: if_splits)
next
  case (task_local i)
  then show ?thesis using assms(2) by (cases "srv s") (auto simp: tunnel_inv_def nth_list_update split: if_splits)
next
  case (task_no_local i)
  then show ?thesis using assms(2) by (cases "srv s") (auto simp: tunnel_inv_def nth_list_update split: if_splits)
qed

lemma tunnel_inv_run: "ngrok_run tunnel_init es s \<Longrightarrow> no_stranger es \<Longrightarrow> tunnel_inv es s"
proof (induction tunnel_init es s rule: ngrok_run.induct)
  case ngrok_refl
  show ?case by (rule tunnel_inv_init)
next
  case (ngrok_trans es s' e s'')
  then show ?case using tunnel_inv_step by simp
qed

section \<open>A tunnel that stands still\<close>

text \<open>
  The server waits for a data connection that nobody is going to open, because the task for it gave up.
\<close>

definition wedged :: "tunnel \<Rightarrow> bool" where
  "wedged s \<longleftrightarrow> ((\<exists>v. srv s = Await_data v) \<or> srv s = Stopped) \<and> cli_connected s \<and> triggers s = 0 \<and>
     (srv s \<noteq> Stopped \<longrightarrow> control_backlog s = []) \<and> (\<forall>t \<in> set (cli_tasks s). t \<noteq> Connecting)"

lemma wedged_step:
  assumes "wedged s" and "ngrok_step s e s'" and "no_stranger [e]"
  shows "wedged s' \<and> links s' = links s"
  using assms(2)
  by (cases rule: ngrok_step.cases)
     (use assms(1,3) in \<open>auto simp: wedged_def no_stranger_def dest: nth_mem set_update_subset_insert [THEN subsetD]\<close>)

interpretation wedge: inv_system "\<lambda>s. wedged s \<and> links s = ls" "\<lambda>s s'. \<exists>e. no_stranger [e] \<and> ngrok_step s e s'"
    "\<lambda>s. wedged s \<and> links s = ls" for ls
  by unfold_locales (use wedged_step in auto)

lemma ngrok_run_steps:
  "ngrok_run s es s' \<Longrightarrow> no_stranger es \<Longrightarrow> (\<lambda>s s'. \<exists>e. no_stranger [e] \<and> ngrok_step s e s')\<^sup>*\<^sup>* s s'"
  by (induction rule: ngrok_run.induct) (auto intro: rtranclp.rtrancl_into_rtrancl)

section \<open>Properties\<close>

text \<open>
  C21: As long as only the client connects to the control port, the tunnel never mixes up visitors: in
  every interleaving of server, client and its tasks, the streams linked so far are those of the first
  visitors in the order they came, each with the data connection that the client opened for it.
\<close>
theorem tunnel_pairs_in_order:
  assumes "ngrok_run tunnel_init es s" and "no_stranger es"
  shows "length (links s) \<le> length (visitors es) \<and>
         links s = map (\<lambda>i. (visitors es ! i, Client_data i)) [0 ..< length (links s)]"
proof -
  obtain rest where fsts: "visitors es = map fst (links s) @ rest"
    and snds: "map snd (links s) = map Client_data [0 ..< length (links s)]"
    using tunnel_inv_run [OF assms] by (auto simp: tunnel_inv_def)
  have "links s ! i = (visitors es ! i, Client_data i)" if "i < length (links s)" for i
    using fsts that arg_cong [OF snds, where f = "\<lambda>l. l ! i"] by (simp add: nth_append prod_eq_iff)
  then show ?thesis
    using fsts by (auto intro: nth_equalityI)
qed

definition ngrok_demo_run :: "ngrok_event list" where
  "ngrok_demo_run = [Connect_control, Accept_client, Connect_visitor 70, Connect_visitor 71, Accept_visitor, Trigger_sent,
     Read_trigger, Task_connected 0, Accept_data, Accept_visitor]"

lemma ngrok_run_snoc: "ngrok_run s es s' \<Longrightarrow> ngrok_step s' e s'' \<Longrightarrow> es' = es @ [e] \<Longrightarrow> ngrok_run s es' s''"
  by (simp add: ngrok_trans)

definition ngrok_demo_state :: tunnel where
  "ngrok_demo_state = \<lparr>srv = Notify 71, control_peer = Some Client_control, control_backlog = [], public_backlog = [],
     triggers = 0, cli_connected = True, cli_stopped = False, cli_tasks = [Data_open], links = [(70, Client_data 0)]\<rparr>"

lemma ngrok_demo_reachable: "ngrok_run tunnel_init ngrok_demo_run ngrok_demo_state"
proof -
  note step = ngrok_run_snoc [OF _ _ refl]
  have "ngrok_run tunnel_init ([] @ [Connect_control] @ []) (tunnel_init\<lparr>cli_connected := True, control_backlog := [Client_control]\<rparr>)"
    using step [OF ngrok_refl connect_control, of tunnel_init] by (simp add: tunnel_init_def)
  from step [OF this accept_client, of Client_control "[]"] have "ngrok_run tunnel_init [Connect_control, Accept_client]
      (tunnel_init\<lparr>cli_connected := True, srv := Await_visitor, control_peer := Some Client_control\<rparr>)"
    by (simp add: tunnel_init_def)
  from step [OF step [OF this connect_visitor [of _ 70]] connect_visitor [of _ 71]]
  have "ngrok_run tunnel_init [Connect_control, Accept_client, Connect_visitor 70, Connect_visitor 71]
      (tunnel_init\<lparr>cli_connected := True, srv := Await_visitor, control_peer := Some Client_control, public_backlog := [70, 71]\<rparr>)"
    by (simp add: tunnel_init_def)
  from step [OF step [OF this accept_visitor [of _ 70 "[71]"]] trigger_sent [of _ 70]]
  have "ngrok_run tunnel_init [Connect_control, Accept_client, Connect_visitor 70, Connect_visitor 71, Accept_visitor, Trigger_sent]
      (tunnel_init\<lparr>cli_connected := True, srv := Await_data 70, control_peer := Some Client_control, public_backlog := [71], triggers := 1\<rparr>)"
    by (simp add: tunnel_init_def)
  from step [OF step [OF this read_trigger [of _ 0]] task_connected [of _ 0]]
  have "ngrok_run tunnel_init [Connect_control, Accept_client, Connect_visitor 70, Connect_visitor 71, Accept_visitor,
        Trigger_sent, Read_trigger, Task_connected 0]
      (tunnel_init\<lparr>cli_connected := True, srv := Await_data 70, control_peer := Some Client_control, public_backlog := [71],
        cli_tasks := [Data_open], control_backlog := [Client_data 0]\<rparr>)"
    by (simp add: tunnel_init_def)
  from step [OF step [OF this accept_data [of _ 70 "Client_data 0" "[]"]] accept_visitor [of _ 71 "[]"]]
  show ?thesis by (simp add: tunnel_init_def ngrok_demo_run_def ngrok_demo_state_def)
qed

theorem tunnel_pairs_in_order_witness:
  "ngrok_run tunnel_init ngrok_demo_run ngrok_demo_state \<and> links ngrok_demo_state = [(visitors ngrok_demo_run ! 0, Client_data 0)] \<and> visitors ngrok_demo_run ! 0 = 70"
proof -
  have "no_stranger ngrok_demo_run" by (simp add: ngrok_demo_run_def no_stranger_def)
  from tunnel_pairs_in_order [OF ngrok_demo_reachable this] show ?thesis
    using ngrok_demo_reachable by (simp add: ngrok_demo_state_def ngrok_demo_run_def visitors_def)
qed

text \<open>
  One failed data connection ends the service: once a task of the client could not reach the
  server, no further visitor is ever linked, whatever the server, the client and later visitors do.
\<close>
lemma failed_task_wedges_tunnel:
  assumes "ngrok_run tunnel_init es s" and "no_stranger es" and "srv s \<noteq> Stopped"
    and "ngrok_step s (Task_no_server i) s'" and "ngrok_run s' es' s''" and "no_stranger es'"
  shows "links s'' = links s"
proof -
  have inv: "tunnel_inv es s" by (rule tunnel_inv_run [OF assms(1,2)])
  obtain run: "\<not> cli_stopped s" and i: "i < length (cli_tasks s)" "cli_tasks s ! i = Connecting"
    and s': "s' = s\<lparr>cli_tasks := (cli_tasks s)[i := Gave_up]\<rparr>"
    using assms(4) by (auto elim: ngrok_stepE)
  have before: "\<not> i < length (links s)"
    using inv i(2) by (auto simp: tunnel_inv_def)
  then obtain v where v: "srv s = Await_data v" and last: "i = length (links s)" "length (cli_tasks s) = Suc i"
      "triggers s = 0" "control_backlog s = []" "cli_connected s"
    using inv i assms(3) by (cases "srv s") (auto simp: tunnel_inv_def less_Suc_eq split: if_splits)
  have "cli_tasks s' ! j \<noteq> Connecting" if "j < length (cli_tasks s')" for j
    using inv last that by (auto simp: s' tunnel_inv_def nth_list_update less_Suc_eq)
  then have "wedged s'"
    using v last by (auto simp: wedged_def s' in_set_conv_nth)
  then show ?thesis
    using wedge.inv_steps [OF ngrok_run_steps [OF assms(5,6)], of "links s"] by (simp add: s')
qed

lemma demo_asked: "ngrok_run tunnel_init (ngrok_demo_run @ [Trigger_sent, Read_trigger])
    (ngrok_demo_state\<lparr>srv := Await_data 71, cli_tasks := [Data_open, Connecting]\<rparr>)"
  using ngrok_trans [OF ngrok_trans [OF ngrok_demo_reachable trigger_sent [of _ 71]] read_trigger [of _ 0]]
  by (simp add: ngrok_demo_state_def)

lemma failed_task_wedges_tunnel_example:
  "\<exists>s' s''. ngrok_step (ngrok_demo_state\<lparr>srv := Await_data 71, cli_tasks := [Data_open, Connecting]\<rparr>) (Task_no_server 1) s' \<and>
     ngrok_run s' [Connect_visitor 72] s'' \<and> links s'' = [(70, Client_data 0)]"
proof -
  let ?s = "ngrok_demo_state\<lparr>srv := Await_data 71, cli_tasks := [Data_open, Connecting]\<rparr>"
  let ?s' = "?s\<lparr>cli_tasks := (cli_tasks ?s)[1 := Gave_up]\<rparr>"
  have step: "ngrok_step ?s (Task_no_server 1) ?s'"
    by (rule task_no_server) (simp_all add: ngrok_demo_state_def)
  have run: "ngrok_run ?s' [Connect_visitor 72] (?s'\<lparr>public_backlog := public_backlog ?s' @ [72]\<rparr>)"
    using ngrok_trans [OF ngrok_refl connect_visitor, of ?s' 72] by simp
  have "no_stranger (ngrok_demo_run @ [Trigger_sent, Read_trigger])" by (simp add: ngrok_demo_run_def no_stranger_def)
  then have "links (?s'\<lparr>public_backlog := public_backlog ?s' @ [72]\<rparr>) = links ?s"
    by (intro failed_task_wedges_tunnel [OF demo_asked _ _ step run]) (simp_all add: no_stranger_def)
  then have "links (?s'\<lparr>public_backlog := public_backlog ?s' @ [72]\<rparr>) = [(70, Client_data 0)]"
    by (rule trans) (simp add: ngrok_demo_state_def)
  with step run show ?thesis by blast
qed

text \<open>
  Whoever connects to the control port while the server waits gets the stream of the visitor: the
  server takes the next connection for the answer of the client.
\<close>
lemma stranger_gets_visitor:
  assumes "srv s = Await_data v" and "control_backlog s = []"
  shows "\<exists>s'. ngrok_run s [Connect_stranger x, Accept_data] s' \<and> (v, Stranger x) \<in> set (links s')"
proof -
  have "ngrok_run s ([] @ [Connect_stranger x]) (s\<lparr>control_backlog := [Stranger x]\<rparr>)"
    using ngrok_trans [OF ngrok_refl connect_stranger, of s x] assms(2) by simp
  from ngrok_trans [OF this accept_data [of _ v "Stranger x" "[]"]] assms(1) show ?thesis
    by fastforce
qed

text \<open>The defaults of the command line.\<close>

lemma ngrok_main_defaults:
  "ngrok_main [prog, ''server''] = Run_server ''8001'' ''8080''"
  "ngrok_main [prog, ''client''] = Run_client ''127.0.0.1:8001'' ''127.0.0.1:3000''"
  "ngrok_main [prog] = Usage"
  by (simp_all add: ngrok_main_def arg_or_def)

end
