(* ===== verification/File_Sender.thy ===== *)
theory File_Sender
  imports Rust_Prelude
begin

text \<open>
  The file sender (\<^verbatim>\<open>file_sender\<close>): the choice of the mode, the client that copies a file into a TCP
  stream and the server that copies the stream into a file. What the system calls answer is a record of
  parameters per side. A stream is the bytes that arrive and how it ends; \<^verbatim>\<open>io::copy\<close> copies until the
  end of the source or the first error of either side.
\<close>

section \<open>The command line\<close>

datatype sender_action = Exit_usage | Exit_bad_mode | Serve string string | Send string string

definition sender_main :: "string list \<Rightarrow> sender_action" where
  "sender_main args =
     (if length args < 4 then Exit_usage
      else if args ! 3 = ''server'' then Serve (args ! 1) (args ! 2)
      else if args ! 3 = ''client'' then Send (args ! 1) (args ! 2)
      else Exit_bad_mode)"

section \<open>Streams\<close>

datatype stream_end = Fin | Reset

record tcp_stream =
  payload :: bytes
  ending :: stream_end

datatype io_error = Not_found | Io_error

text \<open>
  \<^verbatim>\<open>io::copy\<close> from a stream into a sink that takes at most \<open>room\<close> bytes: what the sink holds
  afterwards, and the number of bytes or the error.
\<close>

definition io_copy :: "tcp_stream \<Rightarrow> nat option \<Rightarrow> bytes \<times> (io_error + nat)" where
  "io_copy src room =
     (case room of
        Some n \<Rightarrow>
          (if n < length (payload src) then (take n (payload src), Inl Io_error)
           else (payload src, if ending src = Reset then Inl Io_error else Inr (length (payload src))))
      | None \<Rightarrow> (payload src, if ending src = Reset then Inl Io_error else Inr (length (payload src))))"

section \<open>The client\<close>

record client_env =
  input_exists :: bool
  input_open :: "tcp_stream option"
  net_connect :: bool
  net_room :: "nat option"
  net_shutdown :: bool
  net_abort :: stream_end

text \<open>The result, and the stream the server sees if a connection was made.\<close>

definition sender_client :: "client_env \<Rightarrow> (io_error + nat) \<times> tcp_stream option" where
  "sender_client env =
     (if \<not> input_exists env then (Inl Not_found, None)
      else case input_open env of
          None \<Rightarrow> (Inl Io_error, None)
        | Some src \<Rightarrow>
            if \<not> net_connect env then (Inl Io_error, None)
            else case io_copy src (net_room env) of
                (sent, Inl e) \<Rightarrow> (Inl e, Some \<lparr>payload = sent, ending = net_abort env\<rparr>)
              | (sent, Inr bytes_copied) \<Rightarrow>
                  if net_shutdown env then (Inr bytes_copied, Some \<lparr>payload = sent, ending = Fin\<rparr>)
                  else (Inl Io_error, Some \<lparr>payload = sent, ending = net_abort env\<rparr>))"

section \<open>The server\<close>

record server_env =
  srv_bind :: bool
  srv_accept :: bool
  srv_create :: bool
  srv_room :: "nat option"
  srv_flush :: bool

text \<open>The result, and the contents of the output file if it was created.\<close>

definition sender_server :: "server_env \<Rightarrow> tcp_stream \<Rightarrow> (io_error + nat) \<times> bytes option" where
  "sender_server env socket =
     (if \<not> srv_bind env \<or> \<not> srv_accept env \<or> \<not> srv_create env then (Inl Io_error, None)
      else case io_copy socket (srv_room env) of
          (saved, Inl e) \<Rightarrow> (Inl e, Some saved)
        | (saved, Inr bytes_copied) \<Rightarrow> (if srv_flush env then Inr bytes_copied else Inl Io_error, Some saved))"

section \<open>Transfers\<close>

lemma io_copy_Inr: "io_copy src room = (out, Inr n) \<Longrightarrow> out = payload src \<and> n = length (payload src) \<and> ending src = Fin"
  by (auto simp: io_copy_def split: option.splits if_splits) (metis stream_end.exhaust)+

lemma io_copy_prefix: "\<exists>rest. payload src = fst (io_copy src room) @ rest"
  by (auto simp: io_copy_def split: option.splits intro: append_take_drop_id [symmetric])

text \<open>When both sides report success, the file arrived as it was, and both report its length.\<close>

lemma transfer_complete:
  assumes "sender_client ce = (Inr n, Some st)" and "sender_server se st = (Inr m, f)"
  shows "\<exists>src. input_open ce = Some src \<and> f = Some (payload src) \<and> n = length (payload src) \<and> m = n"
  using assms
  by (auto simp: sender_client_def sender_server_def split: if_splits option.splits prod.splits sum.splits
      dest!: io_copy_Inr)

text \<open>Whatever happens, the output file is a prefix of the input.\<close>

lemma transfer_prefix:
  assumes "snd (sender_client ce) = Some st" and "snd (sender_server se st) = Some out"
  shows "\<exists>src rest. input_open ce = Some src \<and> payload src = out @ rest"
proof -
  obtain src where src: "input_open ce = Some src" and "payload st = fst (io_copy src (net_room ce))"
    using assms(1) by (auto simp: sender_client_def split: if_splits option.splits prod.splits sum.splits)
  moreover have "out = fst (io_copy st (srv_room se))"
    using assms(2) by (auto simp: sender_server_def split: if_splits prod.splits sum.splits)
  ultimately obtain r1 r2 where "payload src = payload st @ r1" "payload st = out @ r2"
    using io_copy_prefix by metis
  then show ?thesis using src by simp
qed

text \<open>
  Nothing frames the file: when the client stops in the middle and the stream ends in order, the server
  saves the part that arrived and reports success.
\<close>

lemma truncated_transfer_saved:
  assumes "srv_bind se" "srv_accept se" "srv_create se" "srv_room se = None" "srv_flush se"
  shows "sender_server se \<lparr>payload = take k content, ending = Fin\<rparr> = (Inr (min (length content) k), Some (take k content))"
  using assms by (simp add: sender_server_def io_copy_def)

end
