(* ===== verification/Antidetect.thy ===== *)
theory Antidetect
  imports Rust_Text
begin

text \<open>
  The launcher of a browser with a generated profile (\<^verbatim>\<open>antidetect_chrome\<close>): the generator of profiles,
  the script text built from one, the answers to paused requests and the sequence of \<^verbatim>\<open>main\<close>.

  Parameters: the random source of the crate \<^verbatim>\<open>rand\<close> (record \<open>rng_ops\<close>, contract \<open>rng_source\<close>, interpreted
  on a source that draws from a given list) and \<^verbatim>\<open>serde_json::to_string\<close> on a list of strings. A JSON
  value is its objects and strings; other values are opaque.
\<close>

section \<open>Profiles\<close>

record BrowserProfile =
  user_agent :: string
  platform :: string
  screen_width :: u32
  screen_height :: u32
  gl_vendor :: string
  gl_renderer :: string
  canvas_noise_seed :: u8
  languages :: "string list"

record 'r rng_ops =
  gen_index :: "nat \<Rightarrow> 'r \<Rightarrow> nat \<times> 'r"
  gen_range :: "u8 \<Rightarrow> u8 \<Rightarrow> 'r \<Rightarrow> u8 \<times> 'r"

text \<open>\<^verbatim>\<open>choose(&mut rng).unwrap()\<close>: an empty slice has no element to choose.\<close>

definition slice_choose :: "'r rng_ops \<Rightarrow> 'a list \<Rightarrow> 'r \<Rightarrow> ('a \<times> 'r) run" where
  "slice_choose R xs r =
     (if xs = [] then Panic else case gen_index R (length xs) r of (i, r') \<Rightarrow> Ret (xs ! i, r'))"

definition os_options :: "(string \<times> string \<times> string list) list" where
  "os_options =
     [(''Windows'', ''Win32'',
       [''Mozilla/5.0 (Windows NT 10.0; Win64; x64) AppleWebKit/537.36 (KHTML, like Gecko) Chrome/128.0.0.0 Safari/537.36'',
        ''Mozilla/5.0 (Windows NT 10.0; Win64; x64) AppleWebKit/537.36 (KHTML, like Gecko) Chrome/129.0.0.0 Safari/537.36'']),
      (''Macintosh'', ''MacIntel'',
       [''Mozilla/5.0 (Macintosh; Intel Mac OS X 10_15_7) AppleWebKit/537.36 (KHTML, like Gecko) Chrome/128.0.0.0 Safari/537.36'',
        ''Mozilla/5.0 (Macintosh; Intel Mac OS X 10_15_7) AppleWebKit/537.36 (KHTML, like Gecko) Chrome/129.0.0.0 Safari/537.36''])]"

definition screen_resolutions :: "(u32 \<times> u32) list" where
  "screen_resolutions = [(1920, 1080), (1440, 900), (1536, 864), (2560, 1440)]"

definition gpu_options :: "string \<Rightarrow> (string \<times> string) list" where
  "gpu_options os =
     (if os = ''Windows''
      then [(''Google Inc. (NVIDIA)'', ''ANGLE (NVIDIA, NVIDIA GeForce RTX 4060 Direct3D11 vs_5_0 ps_5_0, D3D11)''),
            (''Google Inc. (NVIDIA)'', ''ANGLE (NVIDIA, NVIDIA GeForce RTX 3060 Laptop GPU Direct3D11 vs_5_0 ps_5_0, D3D11)''),
            (''Google Inc. (Intel)'', ''ANGLE (Intel, Intel(R) Iris(R) Xe Graphics Direct3D11 vs_5_0 ps_5_0, D3D11)'')]
      else [(''Apple'', ''Apple M1''), (''Apple'', ''Apple M2''), (''Apple'', ''Apple M3'')])"

definition lang_options :: "string list list" where
  "lang_options = [[''ru-RU'', ''ru'', ''en-US'', ''en''], [''en-US'', ''en'']]"

definition generate_random :: "'r rng_ops \<Rightarrow> 'r \<Rightarrow> (BrowserProfile \<times> 'r) run" where
  "generate_random R r0 =
     bind_run (slice_choose R os_options r0) (\<lambda>(os, r1).
     bind_run (slice_choose R (snd (snd os)) r1) (\<lambda>(ua, r2).
     bind_run (slice_choose R screen_resolutions r2) (\<lambda>(res, r3).
     bind_run (slice_choose R (gpu_options (fst os)) r3) (\<lambda>(gpu, r4).
     bind_run (slice_choose R lang_options r4) (\<lambda>(langs, r5).
     case gen_range R 1 5 r5 of (seed, r6) \<Rightarrow>
       Ret (\<lparr>user_agent = ua, platform = fst (snd os), screen_width = fst res, screen_height = snd res,
             gl_vendor = fst gpu, gl_renderer = snd gpu, canvas_noise_seed = seed, languages = langs\<rparr>, r6))))))"

section \<open>The script\<close>

text \<open>
  The format string of \<^verbatim>\<open>compile_js_injector\<close>, line by line, with its named arguments as holes. (Line
  126 of the source has single braces around \<^verbatim>\<open>1,3\<close>, which \<^verbatim>\<open>format!\<close> rejects; they are taken as the
  literal braces they are meant to be.)
\<close>

datatype piece = Lit string | Hole string

definition injector_template :: "piece list list" where
  "injector_template =
     [[],
      [Lit (''            (function() {'')],
      [Lit (''                // --- Spoofing of the WebRTC Network Identifier ---'')],
      [Lit (''                const FAKE_IP = '' @ [CHR 0x27]), Hole ''proxy_ip'', Lit ([CHR 0x27] @ '';'')],
      [Lit (''                const OriginalRTCPeerConnection = window.RTCPeerConnection || window.webkitRTCPeerConnection;'')],
      [Lit (''                if (OriginalRTCPeerConnection) {'')],
      [Lit (''                    function SpoofedRTCPeerConnection(config, constraints) {'')],
      [Lit (''                        const pc = new OriginalRTCPeerConnection(config, constraints);'')],
      [Lit (''                        const originalAddEventListener = pc.addEventListener;'')],
      [Lit (''                        pc.addEventListener = function(type, listener, options) {'')],
      [Lit (''                            if (type === '' @ [CHR 0x27] @ ''icecandidate'' @ [CHR 0x27] @ '') {'')],
      [Lit (''                                const wrappedListener = function(event) {'')],
      [Lit (''                                    if (event.candidate) {'')],
      [Lit (''                                        const spoofedStr = event.candidate.candidate.replace('')],
      [Lit (''                                            /([0-9]{1,3}('' @ [CHR 0x5C] @ ''.[0-9]{1,3}){3})|([a-f0-9:]+:+[a-f0-9:]+)/gi, FAKE_IP'')],
      [Lit (''                                        );'')],
      [Lit (''                                        const newCandidate = new RTCIceCandidate({'')],
      [Lit (''                                            candidate: spoofedStr, sdpMid: event.candidate.sdpMid, sdpMLineIndex: event.candidate.sdpMLineIndex'')],
      [Lit (''                                        });'')],
      [Lit (''                                        listener.call(this, { candidate: newCandidate });'')],
      [Lit (''                                    } else { listener.call(this, event); }'')],
      [Lit (''                                };'')],
      [Lit (''                                return originalAddEventListener.call(this, type, wrappedListener, options);'')],
      [Lit (''                            }'')],
      [Lit (''                            return originalAddEventListener.call(this, type, listener, options);'')],
      [Lit (''                        };'')],
      [Lit (''                        return pc;'')],
      [Lit (''                    }'')],
      [Lit (''                    SpoofedRTCPeerConnection.prototype = OriginalRTCPeerConnection.prototype;'')],
      [Lit (''                    window.RTCPeerConnection = SpoofedRTCPeerConnection;'')],
      [Lit (''                }'')],
      [],
      [Lit (''                // --- Spoofing Navigator and Window properties ---'')],
      [Lit (''                Object.defineProperty(navigator, '' @ [CHR 0x27] @ ''userAgent'' @ [CHR 0x27] @ '', { get: () => '' @ [CHR 0x27]), Hole ''user_agent'', Lit ([CHR 0x27] @ '' });'')],
      [Lit (''                Object.defineProperty(navigator, '' @ [CHR 0x27] @ ''platform'' @ [CHR 0x27] @ '', { get: () => '' @ [CHR 0x27]), Hole ''platform'', Lit ([CHR 0x27] @ '' });'')],
      [Lit (''                Object.defineProperty(navigator, '' @ [CHR 0x27] @ ''webdriver'' @ [CHR 0x27] @ '', { get: () => undefined });'')],
      [Lit (''                Object.defineProperty(navigator, '' @ [CHR 0x27] @ ''languages'' @ [CHR 0x27] @ '', { get: () => ''), Hole ''languages'', Lit ('' });'')],
      [],
      [Lit (''                // Screen resolution'')],
      [Lit (''                Object.defineProperty(window.screen, '' @ [CHR 0x27] @ ''width'' @ [CHR 0x27] @ '', { get: () => ''), Hole ''width'', Lit ('' });'')],
      [Lit (''                Object.defineProperty(window.screen, '' @ [CHR 0x27] @ ''height'' @ [CHR 0x27] @ '', { get: () => ''), Hole ''height'', Lit ('' });'')],
      [Lit (''                Object.defineProperty(window.screen, '' @ [CHR 0x27] @ ''availWidth'' @ [CHR 0x27] @ '', { get: () => ''), Hole ''width'', Lit ('' });'')],
      [Lit (''                Object.defineProperty(window.screen, '' @ [CHR 0x27] @ ''availHeight'' @ [CHR 0x27] @ '', { get: () => ''), Hole ''height'', Lit ('' - 40 });'')],
      [],
      [Lit (''                // --- stable Canvas noise for the current profile --- '')],
      [Lit (''                const SEED = ''), Hole ''seed'', Lit ('';'')],
      [Lit (''                const originalGetImageData = CanvasRenderingContext2D.prototype.getImageData;'')],
      [Lit (''                CanvasRenderingContext2D.prototype.getImageData = function(x, y, w, h) {'')],
      [Lit (''                    const imageData = originalGetImageData.apply(this, arguments);'')],
      [Lit (''                    const data = imageData.data;'')],
      [],
      [Lit (''                    // We use a static profile SEED so that the Canvas hash remains'')],
      [Lit (''                    // unchanged upon re-reading within a single session'')],
      [Lit (''                    for (let i = 0; i < data.length; i += 4) {'')],
      [Lit (''                        data[i]     = data[i]     ^ (SEED & 1);'')],
      [Lit (''                        data[i + 1] = data[i + 1] ^ ((SEED >> 1) & 1);'')],
      [Lit (''                    }'')],
      [Lit (''                    return imageData;'')],
      [Lit (''                };'')],
      [],
      [Lit (''                const originalToDataURL = HTMLCanvasElement.prototype.toDataURL;'')],
      [Lit (''                HTMLCanvasElement.prototype.toDataURL = function() {'')],
      [Lit (''                    const ctx = this.getContext('' @ [CHR 0x27] @ ''2d'' @ [CHR 0x27] @ '');'')],
      [Lit (''                    if (ctx) { try { ctx.getImageData(0, 0, 1, 1); } catch(e) {} }'')],
      [Lit (''                    return originalToDataURL.apply(this, arguments);'')],
      [Lit (''                };'')],
      [],
      [Lit (''                // --- GPU Spoofing in WebGL ---'')],
      [Lit (''                const originalGetParameter = WebGLRenderingContext.prototype.getParameter;'')],
      [Lit (''                WebGLRenderingContext.prototype.getParameter = function(parameter) {'')],
      [Lit (''                    if (parameter === 37445) return '' @ [CHR 0x27]), Hole ''gl_vendor'', Lit ([CHR 0x27] @ ''; '')],
      [Lit (''                    if (parameter === 37446) return '' @ [CHR 0x27]), Hole ''gl_renderer'', Lit ([CHR 0x27] @ '';'')],
      [Lit (''                    return originalGetParameter.apply(this, arguments);'')],
      [Lit (''                };'')],
      [],
      [Lit (''                console.log('' @ [CHR 0x27] @ ''--- [Antidetect] Profile successfully generated and applied ---'' @ [CHR 0x27] @ '');'')],
      [Lit (''            })();'')],
      [Lit (''        '')]]"

definition fill_piece :: "(string \<Rightarrow> string) \<Rightarrow> piece \<Rightarrow> string" where
  "fill_piece arg p = (case p of Lit s \<Rightarrow> s | Hole n \<Rightarrow> arg n)"

definition format_template :: "(string \<Rightarrow> string) \<Rightarrow> piece list list \<Rightarrow> string" where
  "format_template arg ls = join_with CHR 0x0A (map (\<lambda>l. concat (map (fill_piece arg) l)) ls)"

definition injector_arg :: "(string list \<Rightarrow> string option) \<Rightarrow> BrowserProfile \<Rightarrow> string \<Rightarrow> string \<Rightarrow> string" where
  "injector_arg to_json p proxy_ip n =
     (let langs_json = (case to_json (languages p) of Some j \<Rightarrow> j
            | None \<Rightarrow> ''['' @ [CHR 0x27] @ ''en-US'' @ [CHR 0x27] @ '']'')
      in if n = ''proxy_ip'' then proxy_ip
         else if n = ''user_agent'' then user_agent p
         else if n = ''platform'' then platform p
         else if n = ''languages'' then langs_json
         else if n = ''width'' then show_nat (unat (screen_width p))
         else if n = ''height'' then show_nat (unat (screen_height p))
         else if n = ''seed'' then show_nat (unat (canvas_noise_seed p))
         else if n = ''gl_vendor'' then gl_vendor p
         else gl_renderer p)"

definition compile_js_injector :: "(string list \<Rightarrow> string option) \<Rightarrow> BrowserProfile \<Rightarrow> string \<Rightarrow> string" where
  "compile_js_injector to_json p proxy_ip = format_template (injector_arg to_json p proxy_ip) injector_template"

text \<open>The noise the script puts on the pixels (four bytes each) that a page reads back.\<close>

fun canvas_noise :: "u8 \<Rightarrow> bytes \<Rightarrow> bytes" where
  "canvas_noise seed (r # g # b # a # px) =
     (r XOR (seed AND 1)) # (g XOR (drop_bit 1 seed AND 1)) # b # a # canvas_noise seed px"
| "canvas_noise seed px = px"

section \<open>Paused requests\<close>

datatype json = JString string | JObject "(string \<times> json) list" | JOther

fun json_get :: "json \<Rightarrow> string \<Rightarrow> json option" where
  "json_get (JObject fs) k = map_of fs k"
| "json_get _ k = None"

fun as_str :: "json \<Rightarrow> string option" where
  "as_str (JString s) = Some s"
| "as_str _ = None"

record ChallengeResponse =
  response :: string
  username :: string
  password :: string

record AuthChallengeResponse =
  request_id :: string
  auth_challenge_response :: ChallengeResponse

record cdp_event =
  cdp_method :: string
  cdp_params :: "json option"

datatype cdp_command = Continue_with_auth AuthChallengeResponse | Continue_request string

definition handle_cdp :: "string \<Rightarrow> string \<Rightarrow> cdp_event option \<Rightarrow> cdp_command option" where
  "handle_cdp proxy_user proxy_pass event_res =
     (case event_res of
        None \<Rightarrow> None
      | Some event \<Rightarrow>
          (if cdp_method event \<noteq> ''Fetch.requestPaused'' then None
           else case cdp_params event of
               None \<Rightarrow> None
             | Some params \<Rightarrow>
                 (if json_get params ''authChallenge'' \<noteq> None
                  then map_option (\<lambda>req_id. Continue_with_auth
                         \<lparr>request_id = req_id, auth_challenge_response =
                            \<lparr>response = ''ProvideCredentials'', username = proxy_user, password = proxy_pass\<rparr>\<rparr>)
                         (Option.bind (json_get params ''requestId'') as_str)
                  else map_option Continue_request (Option.bind (json_get params ''requestId'') as_str))))"

section \<open>The launch\<close>

definition proxy_ip :: string where "proxy_ip = ''198.51.100.42''"
definition proxy_port :: string where "proxy_port = ''8080''"
definition proxy_user :: string where "proxy_user = ''my_proxy_user''"
definition proxy_pass :: string where "proxy_pass = ''my_proxy_password''"

record browser_config =
  cfg_sandbox :: bool
  cfg_args :: "string list"
  cfg_viewport :: "u32 \<times> u32"

definition launch_config :: "BrowserProfile \<Rightarrow> browser_config" where
  "launch_config p =
     \<lparr>cfg_sandbox = False,
      cfg_args = [''--proxy-server=http://'' @ proxy_ip @ '':'' @ proxy_port,
                  ''--force-webrtc-ip-handling-policy=disable_non_proxied_udp'',
                  ''--disable-blink-features=AutomationControlled''],
      cfg_viewport = (screen_width p, screen_height p)\<rparr>"

datatype page_op = New_page string | Raw_js string | Goto string | Sleep_secs nat | Close_browser

definition page_script :: "(string list \<Rightarrow> string option) \<Rightarrow> BrowserProfile \<Rightarrow> page_op list" where
  "page_script to_json p =
     [New_page ''about:blank'',
      Raw_js ''Fetch.enable({ handleAuthRequests: true })'',
      Raw_js (''Page.addScriptToEvaluateOnNewDocument({source: '' @ compile_js_injector to_json p proxy_ip @ ''})''),
      Goto ''browserleaks.com'', Sleep_secs 40, Close_browser]"

text \<open>
  \<^verbatim>\<open>main\<close>: the profile, the configuration, the launch, and the calls on the page until the first one that fails. The
  environment decides which calls succeed; the sleep always does.
\<close>

fun run_page :: "(page_op \<Rightarrow> bool) \<Rightarrow> page_op list \<Rightarrow> page_op list \<times> bool" where
  "run_page succeeds [] = ([], True)"
| "run_page succeeds (op # ops) =
     (if succeeds op then let (done_ops, ok) = run_page succeeds ops in (op # done_ops, ok) else ([], False))"

record browser_env =
  config_builds :: "browser_config \<Rightarrow> bool"
  launches :: "browser_config \<Rightarrow> bool"
  call_succeeds :: "page_op \<Rightarrow> bool"

definition antidetect_main ::
    "'r rng_ops \<Rightarrow> 'r \<Rightarrow> (string list \<Rightarrow> string option) \<Rightarrow> browser_env \<Rightarrow> (page_op list \<times> bool) run" where
  "antidetect_main R r to_json E =
     bind_run (generate_random R r) (\<lambda>(my_profile, _).
       let config = launch_config my_profile
       in Ret (if config_builds E config \<and> launches E config
               then run_page (\<lambda>op. case op of Sleep_secs _ \<Rightarrow> True | _ \<Rightarrow> call_succeeds E op) (page_script to_json my_profile)
               else ([], False)))"

section \<open>The random source\<close>

locale rng_source =
  fixes R :: "'r rng_ops"
  assumes index_in_range: "0 < n \<Longrightarrow> fst (gen_index R n r) < n"
    and range_in_range: "lo \<le> hi \<Longrightarrow> lo \<le> fst (gen_range R lo hi r) \<and> fst (gen_range R lo hi r) \<le> hi"
begin

lemma choose_mem: "xs \<noteq> [] \<Longrightarrow> \<exists>x r'. slice_choose R xs r = Ret (x, r') \<and> x \<in> set xs"
  using index_in_range [of "length xs" r] by (cases "gen_index R (length xs) r") (auto simp: slice_choose_def)

end

text \<open>A source that draws from a list: every sequence of choices is possible.\<close>

definition list_rng :: "nat list rng_ops" where
  "list_rng =
     \<lparr>gen_index = (\<lambda>n r. case r of [] \<Rightarrow> (0, []) | x # xs \<Rightarrow> (x mod n, xs)),
      gen_range = (\<lambda>lo hi r. case r of [] \<Rightarrow> (lo, []) | x # xs \<Rightarrow> (if lo \<le> of_nat x \<and> of_nat x \<le> hi then of_nat x else lo, xs))\<rparr>"

interpretation list_source: rng_source list_rng
  by unfold_locales (auto simp: list_rng_def split: list.splits)

section \<open>Well-formed profiles\<close>

fun has_infix :: "string \<Rightarrow> string \<Rightarrow> bool" where
  "has_infix [] pat = (pat = [])"
| "has_infix (c # cs) pat = (starts_with (c # cs) pat \<or> has_infix cs pat)"

text \<open>Printable ASCII text without single or double quotes and backslashes, which stays inside a JavaScript literal.\<close>

definition js_plain :: "string \<Rightarrow> bool" where
  "js_plain s \<longleftrightarrow>
     list_all (\<lambda>c. 32 \<le> byte_val c \<and> byte_val c < 127 \<and> c \<noteq> CHR 0x22 \<and> c \<noteq> CHR 0x27 \<and> c \<noteq> CHR 0x5C) s"

text \<open>A language tag: ASCII letters and hyphens.\<close>

definition lang_tag :: "string \<Rightarrow> bool" where
  "lang_tag s \<longleftrightarrow> s \<noteq> [] \<and>
     list_all (\<lambda>c. c = CHR ''-'' \<or> 65 \<le> byte_val c \<and> byte_val c \<le> 90 \<or> 97 \<le> byte_val c \<and> byte_val c \<le> 122) s"

text \<open>
  The two kinds of graphics card. On Windows Chrome names the maker in parentheses in the vendor, and the renderer
  is ANGLE on Direct3D 11 with a card of the same maker; on a Mac both are Apple's.
\<close>

definition windows_gpu :: "string \<Rightarrow> string \<Rightarrow> bool" where
  "windows_gpu vendor renderer \<longleftrightarrow>
     (let maker = butlast (drop 13 vendor)
      in vendor = ''Google Inc. ('' @ maker @ '')'' \<and> maker \<noteq> [] \<and> maker \<noteq> ''Apple'' \<and>
         starts_with renderer (''ANGLE ('' @ maker @ '', '' @ maker) \<and> has_infix renderer '' Direct3D11 '')"

definition mac_gpu :: "string \<Rightarrow> string \<Rightarrow> bool" where
  "mac_gpu vendor renderer \<longleftrightarrow> vendor = ''Apple'' \<and> starts_with renderer ''Apple M'' \<and> \<not> has_infix renderer ''Direct3D''"

definition os_consistent :: "string \<Rightarrow> string \<Rightarrow> string \<Rightarrow> string \<Rightarrow> bool" where
  "os_consistent ua plat vendor renderer \<longleftrightarrow>
     (plat = ''Win32'' \<and> has_infix ua ''(Windows NT 10.0; Win64; x64)'' \<and> windows_gpu vendor renderer \<or>
      plat = ''MacIntel'' \<and> has_infix ua ''(Macintosh; Intel Mac OS X'' \<and> mac_gpu vendor renderer) \<and>
     js_plain ua \<and> js_plain plat \<and> js_plain vendor \<and> js_plain renderer"

definition profile_ok :: "BrowserProfile \<Rightarrow> bool" where
  "profile_ok p \<longleftrightarrow>
     os_consistent (user_agent p) (platform p) (gl_vendor p) (gl_renderer p) \<and>
     0 < screen_height p \<and> screen_height p < screen_width p \<and>
     (screen_width p, screen_height p) \<in> set screen_resolutions \<and>
     1 \<le> canvas_noise_seed p \<and> canvas_noise_seed p \<le> 5 \<and>
     languages p \<noteq> [] \<and> list_all lang_tag (languages p)"

lemma os_options_consistent:
  "list_all (\<lambda>os. list_all (\<lambda>ua. list_all (\<lambda>gpu. os_consistent ua (fst (snd os)) (fst gpu) (snd gpu))
     (gpu_options (fst os))) (snd (snd os))) os_options"
  by code_simp

lemma options_nonempty:
  "os_options \<noteq> []" "list_all (\<lambda>os. snd (snd os) \<noteq> []) os_options" "gpu_options os \<noteq> []"
  "screen_resolutions \<noteq> []" "lang_options \<noteq> []"
  by (simp_all add: os_options_def gpu_options_def screen_resolutions_def lang_options_def)

lemma screen_resolutions_ok: "list_all (\<lambda>res. 0 < snd res \<and> snd res < fst res) screen_resolutions"
  by (simp add: screen_resolutions_def)

lemma lang_options_ok: "list_all (\<lambda>ls. ls \<noteq> [] \<and> list_all lang_tag ls) lang_options"
  by code_simp

context rng_source
begin

lemma generate_random_ok: "\<exists>p r'. generate_random R r = Ret (p, r') \<and> profile_ok p"
proof -
  obtain os r1 where os: "slice_choose R os_options r = Ret (os, r1)" "os \<in> set os_options"
    using choose_mem options_nonempty(1) by blast
  have "snd (snd os) \<noteq> []" using options_nonempty(2) os(2) by (auto simp: list_all_iff)
  then obtain ua r2 where ua: "slice_choose R (snd (snd os)) r1 = Ret (ua, r2)" "ua \<in> set (snd (snd os))"
    using choose_mem by blast
  obtain res r3 where res: "slice_choose R screen_resolutions r2 = Ret (res, r3)" "res \<in> set screen_resolutions"
    using choose_mem options_nonempty(4) by blast
  obtain gpu r4 where gpu: "slice_choose R (gpu_options (fst os)) r3 = Ret (gpu, r4)" "gpu \<in> set (gpu_options (fst os))"
    using choose_mem options_nonempty(3) by blast
  obtain langs r5 where langs: "slice_choose R lang_options r4 = Ret (langs, r5)" "langs \<in> set lang_options"
    using choose_mem options_nonempty(5) by blast
  obtain seed r6 where seed: "gen_range R 1 5 r5 = (seed, r6)" by force
  have "1 \<le> seed \<and> seed \<le> 5" using range_in_range [of 1 5 r5] seed by simp
  moreover have "os_consistent ua (fst (snd os)) (fst gpu) (snd gpu)"
    using os_options_consistent os(2) ua(2) gpu(2) by (simp only: list_all_iff)
  moreover have "0 < snd res \<and> snd res < fst res"
    using screen_resolutions_ok res(2) by (simp only: list_all_iff)
  moreover have "langs \<noteq> [] \<and> list_all lang_tag langs"
    using lang_options_ok langs(2) by (auto simp: list_all_iff)
  ultimately show ?thesis
    using os(1) ua(1) res gpu(1) langs(1) seed by (simp add: generate_random_def profile_ok_def)
qed

end

text \<open>
  C35: Whatever the random source draws, the generator does not panic and returns a well-formed profile:
  the user agent and the platform are of the same operating system, and so is the graphics card (on Windows a vendor of
  the form Google Inc. (M) with an ANGLE renderer on Direct3D 11 of the same maker M, which is not Apple; on a Mac the
  vendor Apple with a renderer Apple M.., not on Direct3D); the screen is a landscape one of the list, the seed is
  between 1 and 5, the languages are non-empty tags of letters and hyphens, and user agent, platform, vendor and renderer
  are printable ASCII free of single and double quotes and backslashes.
\<close>
theorem generated_profile_well_formed:
  assumes "rng_source R"
  shows "\<exists>p r'. generate_random R r = Ret (p, r') \<and> profile_ok p"
  using assms by (rule rng_source.generate_random_ok)

theorem generated_profile_well_formed_witness:
  "\<exists>p r'. generate_random list_rng [1, 0, 3, 2, 1, 4] = Ret (p, r') \<and> profile_ok p \<and> platform p = ''MacIntel''"
proof -
  have "map_run (\<lambda>x. platform (fst x)) (generate_random list_rng [1, 0, 3, 2, 1, 4]) = Ret ''MacIntel''"
    by code_simp
  then show ?thesis
    using generated_profile_well_formed [OF list_source.rng_source_axioms, of "[1, 0, 3, 2, 1, 4]"] by auto
qed

section \<open>The script and the noise\<close>

text \<open>The holes of the template that stand between single quotes.\<close>

fun quoted_holes :: "piece list \<Rightarrow> string list" where
  "quoted_holes (Lit a # Hole n # Lit b # ps) =
     (if a \<noteq> [] \<and> last a = CHR 0x27 \<and> starts_with b [CHR 0x27] then n # quoted_holes (Lit b # ps)
      else quoted_holes (Lit b # ps))"
| "quoted_holes (p # ps) = quoted_holes ps"
| "quoted_holes [] = []"

lemma injector_quoted_holes:
  "concat (map quoted_holes injector_template) = [''proxy_ip'', ''user_agent'', ''platform'', ''gl_vendor'', ''gl_renderer'']"
  by code_simp

lemma quoted_arguments_plain:
  assumes "profile_ok p" and "n \<in> set (concat (map quoted_holes injector_template))"
  shows "js_plain (injector_arg to_json p proxy_ip n)"
proof -
  have "js_plain proxy_ip" by code_simp
  then show ?thesis
    using assms unfolding injector_quoted_holes
    by (auto simp: injector_arg_def profile_ok_def os_consistent_def)
qed

text \<open>
  Reading twice gives the same noise, and the noise of the noise is the picture. A seed whose two lowest
  bits are zero, of the possible ones the seed 4, changes nothing.
\<close>

lemma canvas_noise_involutive: "canvas_noise seed (canvas_noise seed px) = px"
  by (induction seed px rule: canvas_noise.induct) (simp_all add: xor.assoc)

lemma canvas_noise_seed_4: "canvas_noise 4 px = px"
  by (induction "4 :: u8" px rule: canvas_noise.induct) simp_all

lemma canvas_noise_visible:
  assumes "1 \<le> seed" and "seed \<le> 5" and "seed \<noteq> 4"
  shows "canvas_noise seed (r # g # b # a # px) \<noteq> r # g # b # a # px"
proof -
  have "seed \<in> {1, 2, 3, 5}"
    using assms by (auto simp: word_le_nat_alt word_unat_eq_iff)
  moreover have "x XOR 1 \<noteq> x" for x :: u8
  proof
    assume "x XOR 1 = x"
    then have "bit (x XOR 1) 0 = bit x 0" by simp
    then show False by (simp add: bit_xor_iff)
  qed
  ultimately show ?thesis by auto
qed

text \<open>The browser is closed exactly when every call succeeded: an error in between leaves it without \<^verbatim>\<open>close\<close>.\<close>

lemma run_page_ok: "run_page succeeds ops = (done_ops, ok) \<Longrightarrow> (ok \<longleftrightarrow> done_ops = ops) \<and> (\<exists>rest. ops = done_ops @ rest)"
  by (induction ops arbitrary: done_ops ok) (auto split: if_splits prod.splits)

lemma antidetect_closes_browser:
  assumes "antidetect_main R r to_json E = Ret (done_ops, ok)"
  shows "Close_browser \<in> set done_ops \<longleftrightarrow> ok"
proof -
  obtain p r' where p: "generate_random R r = Ret (p, r')"
    using assms by (auto simp: antidetect_main_def bind_run_Ret_iff)
  let ?ops = "page_script to_json p"
  have close: "Close_browser \<in> set ds \<longleftrightarrow> ds = ?ops" if "?ops = ds @ rest" for ds rest
    using that by (auto simp: page_script_def Cons_eq_append_conv)
  show ?thesis
  proof (cases "(done_ops, ok) = ([], False)")
    case False
    then have "run_page (\<lambda>op. case op of Sleep_secs _ \<Rightarrow> True | _ \<Rightarrow> call_succeeds E op) ?ops = (done_ops, ok)"
      using assms by (auto simp: antidetect_main_def p Let_def split: if_splits)
    then show ?thesis using run_page_ok close by blast
  qed simp
qed

end
