(* ===== verification/Doge_Network.thy ===== *)
theory Doge_Network
  imports Doge_Chain
begin

text \<open>
  Several nodes of the toy blockchain (\<^verbatim>\<open>doge-rust\<close>) together: what one node broadcasts in the way of
  \<^verbatim>\<open>main\<close>, and what the nodes that receive it make of it with \<^verbatim>\<open>handle_connection\<close>. A follower that starts from
  the leader's state and gets every message is a replica; a block that does not arrive, or a genesis block
  of another second, separates the two for ever.
\<close>

section \<open>Sending and receiving\<close>

text \<open>
  The receiver reads once into a buffer of 4096 bytes, so it sees at most this much of a payload. TCP may also
  hand over fewer bytes in one read than were written: here a payload of up to 4096 bytes arrives in one read, which
  is a condition of the statements below. A task that panics ends alone.
\<close>

definition read_once :: "bytes \<Rightarrow> bytes" where
  "read_once payload = take 4096 payload"

definition peer_receives :: "('sk, 'vk, 'sg) crypto \<Rightarrow> bytes \<Rightarrow> Blockchain \<Rightarrow> Blockchain" where
  "peer_receives C payload bc =
     (case handle_connection C (Some (read_once payload)) bc of Ret bc' \<Rightarrow> bc' | Panic \<Rightarrow> bc)"

definition follow :: "('sk, 'vk, 'sg) crypto \<Rightarrow> bytes list \<Rightarrow> Blockchain \<Rightarrow> Blockchain" where
  "follow C payloads bc = fold (peer_receives C) payloads bc"

text \<open>
  The two things \<^verbatim>\<open>main\<close> does before it broadcasts: add a transaction (an error is unwrapped), or mine the
  pending ones. The result lists the messages in the order of the broadcasts.
\<close>

datatype action = Do_transaction Transaction | Do_mine u64 string

definition act :: "('sk, 'vk, 'sg) crypto \<Rightarrow> bool \<Rightarrow> action \<Rightarrow> Blockchain \<Rightarrow> (Blockchain \<times> Message) run option" where
  "act C oc a bc =
     (case a of
        Do_transaction tx \<Rightarrow>
          (case add_transaction C tx bc of
             Ret (Inr bc') \<Rightarrow> Some (Ret (bc', NewTransaction tx))
           | _ \<Rightarrow> Some Panic)
      | Do_mine now miner \<Rightarrow>
          bind_opt_run (mine_pending_transactions C oc now miner bc) (\<lambda>(bc', b). Some (Ret (bc', NewBlock b))))"

fun lead :: "('sk, 'vk, 'sg) crypto \<Rightarrow> bool \<Rightarrow> action list \<Rightarrow> Blockchain \<Rightarrow> (Blockchain \<times> Message list) run option" where
  "lead C oc [] bc = Some (Ret (bc, []))"
| "lead C oc (a # as) bc =
     bind_opt_run (act C oc a bc) (\<lambda>(bc1, m).
     bind_opt_run (lead C oc as bc1) (\<lambda>(bc2, ms). Some (Ret (bc2, m # ms))))"

text \<open>A message that arrives: it fits into one read (and arrives in one), and its encoding can be decoded again.\<close>

definition arrives :: "('sk, 'vk, 'sg) crypto \<Rightarrow> Message \<Rightarrow> bool" where
  "arrives C m \<longleftrightarrow> json_msg C (json_vec C m) = Some m \<and> json_vec C m \<noteq> [] \<and> length (json_vec C m) \<le> 4096"

fun block_of :: "Message \<Rightarrow> Block list" where
  "block_of (NewBlock b) = [b]"
| "block_of (NewTransaction tx) = []"

abbreviation blocks_of :: "Message list \<Rightarrow> Block list" where
  "blocks_of ms \<equiv> concat (map block_of ms)"

section \<open>One message\<close>

lemma follow_simps [simp]:
  "follow C [] bc = bc" "follow C (p # ps) bc = follow C ps (peer_receives C p bc)"
  "follow C (ps @ qs) bc = follow C qs (follow C ps bc)"
  by (simp_all add: follow_def)

lemma peer_receives_message:
  assumes "arrives C m"
  shows "peer_receives C (json_vec C m) bc =
    (case m of
       NewTransaction tx \<Rightarrow> (case add_transaction C tx bc of Ret (Inr bc') \<Rightarrow> bc' | _ \<Rightarrow> bc)
     | NewBlock b \<Rightarrow>
         if chain bc \<noteq> [] \<and> previous_hash b = hash (last (chain bc)) \<and> hash b = block_calculate_hash C b
         then bc\<lparr>chain := chain bc @ [b], pending_transactions := []\<rparr> else bc)"
proof -
  have "handle_connection C (Some (read_once (json_vec C m))) bc = handle_connection C (Some (json_vec C m)) bc"
    using assms by (simp add: read_once_def arrives_def)
  with assms show ?thesis
    by (auto simp: peer_receives_def handle_connection_def arrives_def add_block_from_network_def get_latest_block_def
        bind_run_def split: Message.split run.split sum.split)
qed

lemma act_outcome:
  assumes "act C oc a bc = Some (Ret (bc', m))"
  obtains tx where "m = NewTransaction tx" and "add_transaction C tx bc = Ret (Inr bc')"
  | b where "m = NewBlock b" and "chain bc \<noteq> []" and "previous_hash b = hash (last (chain bc))"
      and "hash b = block_calculate_hash C b" and "bc' = bc\<lparr>chain := chain bc @ [b], pending_transactions := []\<rparr>"
  using assms
  by (auto simp: act_def bind_opt_run_Ret dest: mine_pending_cases split: action.splits run.splits sum.splits)


lemma act_chain:
  assumes "act C oc a bc = Some (Ret (bc', m))"
  shows "chain bc' = chain bc @ block_of m"
    and "\<And>b. m = NewBlock b \<Longrightarrow> chain bc \<noteq> [] \<and> previous_hash b = hash (last (chain bc))"
  using assms by (auto elim!: act_outcome dest: add_transaction_cases)

lemma lead_Cons:
  assumes "lead C oc (a # as) bc = Some (Ret (bc', ms))"
  obtains bc1 m ms' where "act C oc a bc = Some (Ret (bc1, m))" and "lead C oc as bc1 = Some (Ret (bc', ms'))" and "ms = m # ms'"
  using assms by (auto simp: bind_opt_run_Ret)

lemma lead_chain: "lead C oc as bc = Some (Ret (bc', ms)) \<Longrightarrow> chain bc' = chain bc @ blocks_of ms"
proof (induction "as" arbitrary: bc ms)
  case (Cons a "as")
  from Cons.prems show ?case
    by (rule lead_Cons) (simp add: Cons.IH act_chain)
qed simp

section \<open>Replicas\<close>


text \<open>
  A receiver whose last hash is none of the hashes that the leader builds on does not take any of the
  leader's blocks.
\<close>

lemma follow_rejects:
  assumes "lead C oc acts bc = Some (Ret (bc', ms))"
    and "hash (last (chain fc)) \<notin> hash ` set (last (chain bc) # blocks_of ms)"
    and "list_all (arrives C) ms"
  shows "chain (follow C (map (json_vec C) ms) fc) = chain fc"
  using assms
proof (induction acts arbitrary: bc ms fc)
  case (Cons a acts)
  from Cons.prems(1) obtain bc1 m ms' where act: "act C oc a bc = Some (Ret (bc1, m))"
    and rest: "lead C oc acts bc1 = Some (Ret (bc', ms'))" and ms: "ms = m # ms'"
    by (rule lead_Cons)
  let ?fc = "peer_receives C (json_vec C m) fc"
  have "last (chain bc1) \<in> set (last (chain bc) # block_of m)"
    using act_chain(1) [OF act] by (cases m) auto
  then have notin: "hash (last (chain fc)) \<notin> hash ` set (last (chain bc1) # blocks_of ms')"
    using Cons.prems(2) by (auto simp: ms)
  have same: "chain ?fc = chain fc"
    using act Cons.prems(2,3)
    by (cases m) (auto simp: ms peer_receives_message dest: act_chain(2) add_transaction_cases split: run.split sum.split)
  show ?case
    using Cons.IH [OF rest, of ?fc] notin same Cons.prems(3) by (simp add: ms)
qed simp

lemma distinct_suffix:
  assumes "distinct (map f (xs @ ys @ zs))" and "xs \<noteq> []" and "ys \<noteq> []"
  shows "f (last xs) \<notin> f ` set (last (xs @ ys) # zs)"
  using assms by (cases xs rule: rev_cases; cases ys rule: rev_cases) auto

text \<open>
  C30: One block that gets lost separates two nodes for ever: if a replica misses all messages of a phase in which the
  first node mined at least one block, it takes none of the blocks that the first node mines afterwards, whatever
  else it receives from it (each message whole in one read), as long as the hashes of the blocks are distinct. There is no message to ask for a missing
  block.
\<close>
theorem missed_block_separates:
  assumes "lead C oc acts bc = Some (Ret (bc1, missed))" and "blocks_of missed \<noteq> []" and "chain bc \<noteq> []"
    and "lead C oc acts' bc1 = Some (Ret (bc2, ms))" and "list_all (arrives C) ms"
    and "distinct (map hash (chain bc2))"
  shows "chain (follow C (map (json_vec C) ms) bc) = chain bc \<and> length (chain bc) < length (chain bc2)"
proof -
  have c2: "chain bc2 = chain bc @ blocks_of missed @ blocks_of ms"
    using lead_chain [OF assms(1)] lead_chain [OF assms(4)] by simp
  have "hash (last (chain bc)) \<notin> hash ` set (last (chain bc1) # blocks_of ms)"
    using distinct_suffix [of hash "chain bc" "blocks_of missed" "blocks_of ms"] assms(2,3,6)
      lead_chain [OF assms(1)] by (simp add: c2)
  then have "chain (follow C (map (json_vec C) ms) bc) = chain bc"
    using follow_rejects [OF assms(4) _ assms(5)] by blast
  moreover have "length (chain bc) < length (chain bc2)"
    using assms(2) by (simp add: c2 del: length_concat)
  ultimately show ?thesis by blast
qed

text \<open>A message of more than 4096 bytes is cut, and if the rest is no message, it has no effect anywhere.\<close>

lemma long_message_lost:
  "json_msg C (take 4096 (json_vec C m)) = None \<Longrightarrow> peer_receives C (json_vec C m) bc = bc"
  by (simp add: peer_receives_def read_once_def handle_connection_def)

section \<open>The demonstration and its peer\<close>

definition received_by :: "'peer \<Rightarrow> ('peer \<times> bytes) list \<Rightarrow> bytes list" where
  "received_by p sends = map snd (filter (\<lambda>(q, _). q = p) sends)"

lemma received_by_broadcast:
  "distinct peers \<Longrightarrow> received_by p (broadcast_message C connect peers m) =
     (if p \<in> set peers \<and> connect p then [json_vec C m] else [])"
proof -
  have "filter (\<lambda>q. q = p) (filter connect peers) = (if p \<in> set peers \<and> connect p then [p] else [])"
    if "distinct peers" using that by (induction peers) auto
  then show "distinct peers \<Longrightarrow> ?thesis"
    by (simp add: received_by_def broadcast_message_def Let_def filter_map comp_def)
qed

lemma main_demo_cases:
  assumes "main_demo C oc public_key connect peers in1 in2 in3 t0 t1 sk1 sk2 = (sends, Some (Ret bc))"
    and "list_all (\<lambda>r. \<not> carries_block C r) (in1 @ in2 @ in3)"
  obtains g tx b where "blockchain_new C oc t0 = Some (Ret g)"
    and "chain bc = chain g @ [b]" and "previous_hash b = hash (last (chain g))" and "hash b = block_calculate_hash C b"
    and "sends = broadcast_message C connect peers (NewTransaction tx) @ broadcast_message C connect peers (NewBlock b)"
proof -
  let ?tx = "tx_sign C sk1 (transaction_new (hex_encode (public_key sk1)) (hex_encode (public_key sk2)) 0x4059000000000000)"
  have serve: "chain (serve_connections C rs x) = chain x" if "rs \<in> {in1, in2, in3}" for rs x
    using that assms(2) serve_connections_no_block [of C rs x] by auto
  from assms(1) obtain g g' b bc3 where g: "blockchain_new C oc t0 = Some (Ret g)"
    and add: "add_transaction C ?tx (serve_connections C in1 g) = Ret (Inr g')"
    and mine: "mine_pending_transactions C oc t1 (hex_encode (public_key sk1)) (serve_connections C in2 g') = Some (Ret (bc3, b))"
    and bc: "bc = serve_connections C in3 bc3"
    and sends: "sends = broadcast_message C connect peers (NewTransaction ?tx) @ broadcast_message C connect peers (NewBlock b)"
    by (auto simp: main_demo_def Let_def split: option.splits run.splits sum.splits)
  show thesis
    using that [OF g _ _ _ sends] mine_pending_cases [OF mine] add_transaction_cases(2) [OF add]
    by (simp add: serve bc)
qed

text \<open>
  C29: What the demonstration achieves at a freshly started peer that both messages reach whole in one read, while no
  block arrives at the node itself: if the genesis blocks of the two nodes have the same hash, the peer ends with the
  chain of the node; otherwise it keeps its own genesis block and the mined block is rejected. The genesis block holds
  the time of the start.
\<close>
theorem demo_reaches_peer_iff_same_genesis:
  assumes "main_demo C oc public_key connect peers in1 in2 in3 t0 t1 sk1 sk2 = (sends, Some (Ret bc))"
    and "list_all (\<lambda>r. \<not> carries_block C r) (in1 @ in2 @ in3)"
    and "blockchain_new C oc t = Some (Ret peer)"
    and "distinct peers" and "p \<in> set peers" and "connect p"
    and "\<And>m. json_vec C m \<in> snd ` set sends \<Longrightarrow> arrives C m"
  shows "chain (follow C (received_by p sends) peer) =
    chain peer @ (if hash (hd (chain peer)) = hash (hd (chain bc)) then tl (chain bc) else [])"
proof -
  obtain g tx b where g: "blockchain_new C oc t0 = Some (Ret g)"
    and chain: "chain bc = chain g @ [b]" "previous_hash b = hash (last (chain g))" "hash b = block_calculate_hash C b"
    and sends: "sends = broadcast_message C connect peers (NewTransaction tx) @ broadcast_message C connect peers (NewBlock b)"
    by (rule main_demo_cases [OF assms(1,2)])
  have single: "\<exists>b. chain n = [b]" if "blockchain_new C oc now = Some (Ret n)" for n now
    using that by (auto simp: blockchain_new_def create_genesis_block_def bind_opt_run_Ret Let_def)
  obtain g0 p0 where g0: "chain g = [g0]" and p0: "chain peer = [p0]"
    using single [OF g] single [OF assms(3)] by blast
  have got: "received_by p sends = [json_vec C (NewTransaction tx), json_vec C (NewBlock b)]"
    using received_by_broadcast [OF assms(4), of p C connect] assms(5,6)
    by (simp add: sends received_by_def)
  have "(p, json_vec C m) \<in> set sends" if "m \<in> {NewTransaction tx, NewBlock b}" for m
    using that assms(5,6) by (auto simp: sends broadcast_message_def Let_def)
  then have "json_vec C m \<in> snd ` set sends" if "m \<in> {NewTransaction tx, NewBlock b}" for m
    using that by force
  then have arr: "arrives C (NewTransaction tx)" "arrives C (NewBlock b)"
    using assms(7) by simp_all
  have "chain (peer_receives C (json_vec C (NewTransaction tx)) peer) = [p0]"
    by (auto simp: peer_receives_message [OF arr(1)] p0 dest: add_transaction_cases(2) split: run.split sum.split)
  then show ?thesis
    using chain by (simp add: got peer_receives_message [OF arr(2)] g0 p0)
qed

section \<open>Examples\<close>

text \<open>
  A digest that meets the target at once and differs between the blocks of the examples, and an encoding by the
  position in a table of messages.
\<close>

definition net_base :: "(bytes, bytes, bytes) crypto" where
  "net_base = demo_crypto\<lparr>sha256 := (\<lambda>bs. [0, 0, foldr (+) bs 0] @ replicate 29 0), json_txs := (\<lambda>_. [])\<rparr>"

definition net_crypto :: "Message list \<Rightarrow> (bytes, bytes, bytes) crypto" where
  "net_crypto ms = net_base\<lparr>
     json_vec := (\<lambda>m. map (\<lambda>(i, _). of_nat i) (filter (\<lambda>(_, x). x = m) (enumerate 1 ms))),
     json_msg := (\<lambda>bs. case bs of [n] \<Rightarrow> map_of (enumerate 1 ms) (unat n) | _ \<Rightarrow> None)\<rparr>"

lemma net_crypto_ok: "ed25519_ok (net_crypto ms) (to_array 32) (to_array 32)"
  by (simp add: ed25519_ok_def net_crypto_def net_base_def demo_crypto_def to_array_def)

lemma net_block_new: "block_new (net_crypto ms) now i txs prev = block_new net_base now i txs prev"
  by (simp add: block_new_def block_calculate_hash_def net_crypto_def)

lemma net_mine:
  "mine (net_crypto ms) oc DIFFICULTY (block_new (net_crypto ms) now i txs prev) = Some (Ret (block_new net_base now i txs prev))"
proof -
  have sha: "sha256 net_base x = [0, 0] @ foldr (+) x 0 # replicate 29 0" for x
    by (simp add: net_base_def)
  have "\<exists>ys. hash (block_new net_base now i txs prev) = hex_encode ([0, 0] @ ys)"
    unfolding block_new_valid block_calculate_hash_def Let_def sha by blast
  moreover have "hex_byte 0 = ''00''" and "replicate DIFFICULTY CHR ''0'' = ''0000''"
    by code_simp+
  ultimately have "starts_with (hash (block_new net_base now i txs prev)) (replicate DIFFICULTY CHR ''0'')"
    by (auto simp: starts_with_iff)
  then show ?thesis
    unfolding mine_def net_block_new by (subst mine_loop_step) (simp del: block_new_valid)
qed

definition net_genesis :: Blockchain where
  "net_genesis = \<lparr>chain = [block_new net_base 5 0 [] ''0''], pending_transactions = []\<rparr>"

definition net_block :: "u64 \<Rightarrow> u32 \<Rightarrow> string \<Rightarrow> Block" where
  "net_block now i prev = block_new net_base now i [transaction_new ''SYSTEM'' ''m'' MINING_REWARD] prev"

definition net_b1 :: Block where "net_b1 = net_block 6 1 (hash (last (chain net_genesis)))"
definition net_b2 :: Block where "net_b2 = net_block 7 2 (hash net_b1)"
definition net_table :: "Message list" where "net_table = [NewBlock net_b1, NewBlock net_b2]"

lemma net_act:
  assumes "chain bc \<noteq> []" and "unat (index (last (chain bc))) < 100" and "pending_transactions bc = []"
  shows "act (net_crypto ms) True (Do_mine now ''m'') bc =
    Some (Ret (bc\<lparr>chain := chain bc @ [net_block now (index (last (chain bc)) + 1) (hash (last (chain bc)))]\<rparr>,
               NewBlock (net_block now (index (last (chain bc)) + 1) (hash (last (chain bc))))))"
  using assms
  by (cases bc) (simp add: act_def mine_pending_transactions_def get_latest_block_def add_u32_fits net_mine net_block_def Let_def)

lemma net_lead1: "lead (net_crypto net_table) True [Do_mine 6 ''m''] net_genesis =
   Some (Ret (\<lparr>chain = chain net_genesis @ [net_b1], pending_transactions = []\<rparr>, [NewBlock net_b1]))"
proof -
  have "chain net_genesis \<noteq> []" "index (last (chain net_genesis)) = 0" "pending_transactions net_genesis = []"
    by (simp_all add: net_genesis_def)
  then show ?thesis by (cases net_genesis) (simp add: net_act net_b1_def)
qed

lemma net_lead2: "lead (net_crypto net_table) True [Do_mine 7 ''m''] \<lparr>chain = chain net_genesis @ [net_b1], pending_transactions = []\<rparr> =
   Some (Ret (\<lparr>chain = chain net_genesis @ [net_b1, net_b2], pending_transactions = []\<rparr>, [NewBlock net_b2]))"
proof -
  have "index net_b1 = 1" by (simp add: net_b1_def net_block_def)
  then show ?thesis by (simp add: net_act net_b2_def)
qed

lemma net_arrives: "list_all (arrives (net_crypto net_table)) net_table"
  by code_simp

lemma net_distinct: "distinct (map hash (chain net_genesis @ [net_b1, net_b2]))"
  by code_simp


theorem missed_block_separates_witness:
  "chain (follow (net_crypto net_table) (map (json_vec (net_crypto net_table)) [NewBlock net_b2]) net_genesis) = chain net_genesis \<and>
   length (chain net_genesis) < length (chain net_genesis @ [net_b1, net_b2])"
  using missed_block_separates [OF net_lead1 _ _ net_lead2] net_arrives net_distinct
  by (simp add: net_table_def net_genesis_def)

definition demo_tx :: Transaction where
  "demo_tx = tx_sign net_base [1] (transaction_new (hex_encode (to_array 32 [1])) (hex_encode (to_array 32 [2])) 0x4059000000000000)"

definition demo_genesis :: "u64 \<Rightarrow> Block" where
  "demo_genesis t = block_new net_base t 0 [transaction_new ''SYSTEM'' ''Genesis_Receiver'' GENESIS_AMOUNT] ''0''"

definition demo_mined :: Block where
  "demo_mined = block_new net_base 6 1 [transaction_new ''SYSTEM'' (hex_encode (to_array 32 [1])) MINING_REWARD, demo_tx]
     (hash (demo_genesis 5))"

abbreviation demo_C :: "(bytes, bytes, bytes) crypto" where
  "demo_C \<equiv> net_crypto [NewTransaction demo_tx, NewBlock demo_mined]"

lemma demo_tx_signed:
  "tx_sign (net_crypto ms) [1] (transaction_new (hex_encode (to_array 32 [1])) (hex_encode (to_array 32 [2])) 0x4059000000000000) = demo_tx"
  by (simp add: demo_tx_def tx_sign_def tx_calculate_hash_def net_crypto_def)

lemma demo_peer: "blockchain_new (net_crypto ms) True t = Some (Ret \<lparr>chain = [demo_genesis t], pending_transactions = []\<rparr>)"
  by (simp add: blockchain_new_def create_genesis_block_def net_mine demo_genesis_def)

lemma demo_vec: "json_vec demo_C (NewTransaction demo_tx) = [1]" "json_vec demo_C (NewBlock demo_mined) = [2]"
  by (simp_all add: net_crypto_def)

lemma demo_arrives: "list_all (arrives demo_C) [NewTransaction demo_tx, NewBlock demo_mined]"
  by (simp add: arrives_def demo_vec) (simp add: net_crypto_def)

lemma demo_run: "main_demo demo_C True (to_array 32) (\<lambda>p. p = 8081) [8081 :: nat] [] [] [None] 5 6 [1] [2] =
   ([(8081, [1]), (8081, [2])], Some (Ret \<lparr>chain = [demo_genesis 5, demo_mined], pending_transactions = []\<rparr>))"
proof -
  have "\<not> f64_le_zero 0x4059000000000000"
    by code_simp
  note add = add_signed [OF net_crypto_ok this, where sk = "[1]" and r = "hex_encode (to_array 32 [2])", unfolded demo_tx_signed]
  have "index (demo_genesis 5) = 0"
    by (simp add: demo_genesis_def)
  then show ?thesis
    by (simp add: main_demo_def demo_peer demo_tx_signed add mine_pending_transactions_def get_latest_block_def
        add_u32_fits net_mine broadcast_message_def demo_vec serve_connection_def handle_connection_def flip: demo_mined_def)
qed

lemma demo_genesis_differ: "hash (demo_genesis 9) \<noteq> hash (demo_genesis 5)"
  by code_simp

lemma net_crypto_vec:
  "json_vec (net_crypto [m1, m2]) m \<noteq> [] \<Longrightarrow> m \<in> {m1, m2}"
  by (auto simp: net_crypto_def split: if_splits)

theorem demo_reaches_peer_iff_same_genesis_witness:
  "chain (follow demo_C (received_by 8081 [(8081 :: nat, [1]), (8081, [2])])
     \<lparr>chain = [demo_genesis 9], pending_transactions = []\<rparr>) = [demo_genesis 9]"
proof -
  have "arrives demo_C m" if "json_vec demo_C m \<in> snd ` set [(8081 :: nat, [1]), (8081, [2])]" for m
    using net_crypto_vec [of "NewTransaction demo_tx" "NewBlock demo_mined" m] that demo_arrives by auto
  then show ?thesis
    using demo_reaches_peer_iff_same_genesis [OF demo_run _ demo_peer, of 8081] demo_genesis_differ
    by (simp add: carries_block_def)
qed

end
