(* ===== verification/Dns_System.thy ===== *)
theory Dns_System
  imports Dns_Server
begin

text \<open>
  The DNS server as it runs: any number of requests, HTTP updates and rounds of the cleaner at the same
  time, on one database behind a mutex (\<^verbatim>\<open>dns_server/src/main.rs\<close>). The lock is taken for each
  database operation alone, so a request is not atomic: between its local lookup, its cache lookup and the saving
  of a forwarded answer other tasks run. The steps are labelled with what happens, the runs are
  compared with an abstract zone, and a request that is not interrupted is \<open>handle_request\<close>.
\<close>

section \<open>The start\<close>

record forwarder_config =
  name_servers :: "bytes list"
  server_port :: nat
  resolver_cache_size :: nat

definition forwarder_new :: forwarder_config where
  "forwarder_new = \<lparr>name_servers = [[8, 8, 8, 8], [1, 1, 1, 1]], server_port = 53, resolver_cache_size = 0\<rparr>"

record 'db dns_env =
  db_open :: "string \<Rightarrow> 'db option"
  db_execute :: "string \<Rightarrow> 'db \<Rightarrow> 'db option"
  http_bind :: bool
  udp_bind :: bool

definition schema :: "string list" where
  "schema =
    [''CREATE TABLE IF NOT EXISTS dns_records (id INTEGER PRIMARY KEY AUTOINCREMENT, domain TEXT NOT NULL UNIQUE, record_type TEXT NOT NULL, ip_address TEXT NOT NULL)'',
     ''CREATE TABLE IF NOT EXISTS dns_cache (domain TEXT NOT NULL UNIQUE, record_type TEXT NOT NULL, ip_address TEXT NOT NULL, expires_at TEXT NOT NULL)'',
     ''CREATE INDEX IF NOT EXISTS idx_ddns ON dns_records(domain)'',
     ''CREATE INDEX IF NOT EXISTS idx_cache ON dns_cache(domain)'']"

fun execute_all :: "'db dns_env \<Rightarrow> string list \<Rightarrow> 'db \<Rightarrow> 'db option" where
  "execute_all E [] db = Some db"
| "execute_all E (q # qs) db = Option.bind (db_execute E q db) (execute_all E qs)"

datatype request_phase = Local_lookup string | Cache_lookup string | Forwarding string record_type

record 'db dns_sys =
  database :: 'db
  clock :: int
  requests :: "nat \<rightharpoonup> request_phase"
  http_serving :: bool

text \<open>
  The server comes up with the tables in place and the UDP socket bound. The HTTP side binds its socket in a
  task of its own: when that fails, the task panics and DNS goes on without updates.
\<close>

definition dns_main :: "'db dns_env \<Rightarrow> int \<Rightarrow> 'db dns_sys option" where
  "dns_main E now =
     Option.bind (db_open E ''dns_records.db'') (\<lambda>db0.
     Option.bind (execute_all E schema db0) (\<lambda>db.
     if udp_bind E
     then Some \<lparr>database = db, clock = now, requests = Map.empty, http_serving = http_bind E\<rparr>
     else None))"

section \<open>The steps\<close>

abbreviation clean_name :: "string \<Rightarrow> string" where
  "clean_name name \<equiv> trim_end_matches CHR ''.'' name"

text \<open>A miss is labelled with whether the SELECT failed, a lookup in the cache with its time.\<close>

datatype dns_event =
    Received nat string record_type
  | Local_answer nat string bytes
  | Local_miss nat string bool
  | Cached_answer nat string bytes int
  | Cache_miss nat string bool int
  | Forwarded nat string record_type "dns_rr list" int
  | Forward_failed nat string record_type
  | Updated string string status
  | Cleaned int
  | Tick int


definition cache_reply :: "'db sql \<Rightarrow> chrono \<Rightarrow> int \<Rightarrow> string \<Rightarrow> record_type \<Rightarrow> dns_rr list \<Rightarrow> 'db \<Rightarrow> 'db" where
  "cache_reply S T now name rt records db =
     (if rt = Type_A
      then case first_a records of
          None \<Rightarrow> db
        | Some (ip, ttl) \<Rightarrow> save_to_cache S T now name (ipv4_to_string ip) ttl db
      else db)"

inductive dns_step :: "'db sql \<Rightarrow> chrono \<Rightarrow> 'db dns_sys \<Rightarrow> dns_event \<Rightarrow> 'db dns_sys \<Rightarrow> bool" for S T where
  receive: "requests s i = None \<Longrightarrow>
     dns_step S T s (Received i name rt)
       (s\<lparr>requests := (requests s)(i \<mapsto> (if rt = Type_A then Local_lookup name else Forwarding name rt))\<rparr>)"
| local_hit: "requests s i = Some (Local_lookup name) \<Longrightarrow> lookup_local_a_record S (database s) name = Some ip \<Longrightarrow>
     dns_step S T s (Local_answer i name ip) (s\<lparr>requests := (requests s)(i := None)\<rparr>)"
| local_none: "requests s i = Some (Local_lookup name) \<Longrightarrow> lookup_local_a_record S (database s) name = None \<Longrightarrow>
     dns_step S T s (Local_miss i name (isl (select_record S (database s) (clean_name name))))
       (s\<lparr>requests := (requests s)(i \<mapsto> Cache_lookup name)\<rparr>)"
| cache_hit: "requests s i = Some (Cache_lookup name) \<Longrightarrow> lookup_cache_a_record S T (clock s) (database s) name = Some ip \<Longrightarrow>
     dns_step S T s (Cached_answer i name ip (clock s)) (s\<lparr>requests := (requests s)(i := None)\<rparr>)"
| cache_none: "requests s i = Some (Cache_lookup name) \<Longrightarrow> lookup_cache_a_record S T (clock s) (database s) name = None \<Longrightarrow>
     dns_step S T s (Cache_miss i name (isl (select_cache S (database s) (clean_name name))) (clock s))
       (s\<lparr>requests := (requests s)(i \<mapsto> Forwarding name Type_A)\<rparr>)"
| forward_ok: "requests s i = Some (Forwarding name rt) \<Longrightarrow>
     dns_step S T s (Forwarded i name rt rs (clock s))
       (s\<lparr>requests := (requests s)(i := None), database := cache_reply S T (clock s) name rt rs (database s)\<rparr>)"
| forward_err: "requests s i = Some (Forwarding name rt) \<Longrightarrow>
     dns_step S T s (Forward_failed i name rt) (s\<lparr>requests := (requests s)(i := None)\<rparr>)"
| update: "http_serving s \<Longrightarrow> handle_ddns_update S domain ip (database s) = ((st, msg), db') \<Longrightarrow>
     dns_step S T s (Updated domain ip st) (s\<lparr>database := db'\<rparr>)"
| clean: "dns_step S T s (Cleaned (clock s)) (s\<lparr>database := cleanup_cache S T (clock s) (database s)\<rparr>)"
| tick: "clock s \<le> t \<Longrightarrow> dns_step S T s (Tick t) (s\<lparr>clock := t\<rparr>)"

section \<open>A request alone\<close>

















section \<open>The abstract zone\<close>

type_synonym zone = "string \<rightharpoonup> bytes"

fun zone_next :: "dns_event \<Rightarrow> zone \<Rightarrow> zone" where
  "zone_next (Updated domain ip OK) z = z(clean_name domain := ipv4_from_str ip)"
| "zone_next _ z = z"

fun zone_allows :: "zone \<Rightarrow> dns_event \<Rightarrow> bool" where
  "zone_allows z (Local_answer i name ip) = (z (clean_name name) = Some ip)"
| "zone_allows z (Local_miss i name failed) = (failed \<or> z (clean_name name) = None)"
| "zone_allows z (Updated domain ip OK) = (ipv4_from_str ip \<noteq> None)"
| "zone_allows z _ = True"

definition zone_step :: "zone \<Rightarrow> dns_event \<Rightarrow> zone \<Rightarrow> bool" where
  "zone_step z e z' \<longleftrightarrow> zone_allows z e \<and> z' = zone_next e z"

definition zone_after :: "dns_event list \<Rightarrow> zone \<Rightarrow> zone" where
  "zone_after es z = fold zone_next es z"

definition zone_of :: "('db \<Rightarrow> string \<rightharpoonup> string) \<Rightarrow> 'db dns_sys \<Rightarrow> zone" where
  "zone_of records s d = Option.bind (records (database s) d) ipv4_from_str"

lemma zone_trace: "trace zone_step z es z' \<Longrightarrow> z' = zone_after es z"
  by (induction rule: trace.induct) (auto simp: zone_after_def zone_step_def)

context dns_db
begin

lemma lookup_zone:
  "\<not> isl (select_record S (database s) (clean_name name)) \<Longrightarrow>
   lookup_local_a_record S (database s) name = zone_of records s (clean_name name)"
  using lookup_local [of "database s" name] by (simp add: zone_of_def split: option.split)

lemma lookup_zone_hit: "lookup_local_a_record S (database s) name = Some ip \<Longrightarrow> zone_of records s (clean_name name) = Some ip"
  using lookup_local_hit lookup_zone by metis

lemma update_zone:
  assumes "handle_ddns_update S domain ip (database s) = ((st, msg), db')"
  shows "zone_step (zone_of records s) (Updated domain ip st) (zone_of records (s\<lparr>database := db'\<rparr>))"
proof (cases st)
  case OK
  then obtain addr where "ipv4_from_str ip = Some addr" and "replace_record S (clean_name domain) ip (database s) = Inr db'"
    using assms by (auto simp: handle_ddns_update_def Let_def split: if_splits sum.splits)
  then show ?thesis
    using replace_record by (auto simp: OK zone_step_def zone_of_def fun_eq_iff)
qed (use assms in \<open>auto simp: handle_ddns_update_def zone_step_def zone_of_def Let_def split: if_splits sum.splits\<close>)

lemma cache_reply_records: "records (cache_reply S T now name rt rs db) = records db"
  by (auto simp: cache_reply_def save_to_cache_def Let_def dest: replace_cache split: option.split sum.split)

lemma cleanup_records: "records (cleanup_cache S T now db) = records db"
  by (auto simp: cleanup_cache_def Let_def dest: delete_expired split: sum.split)

end

sublocale dns_db \<subseteq> zone: simulation "dns_step S T" zone_step "zone_of records" "\<lambda>_. True" for T
proof
  fix s e t
  assume "dns_step S T s e t"
  then show "zone_step (zone_of records s) e (zone_of records t)"
  proof cases
    case (update domain ip st msg db')
    then show ?thesis using update_zone by simp
  next
    case (local_hit i name ip)
    then show ?thesis using lookup_zone_hit by (auto simp: zone_step_def zone_of_def fun_eq_iff)
  next
    case (local_none i name)
    then show ?thesis
      using lookup_zone [of s name] by (cases "isl (select_record S (database s) (clean_name name))")
        (auto simp: zone_step_def zone_of_def fun_eq_iff)
  qed (auto simp: cache_reply_records cleanup_records zone_step_def zone_of_def fun_eq_iff)
qed simp

context dns_db
begin

lemma event_in_zone:
  assumes "trace (dns_step S T) s (pre @ e # post) s'"
  shows "zone_allows (zone_after pre (zone_of records s)) e"
  using zone.sim_event [OF assms] by (auto simp: zone_step_def dest: zone_trace)

end

text \<open>
  C4: The server refines a zone that only updates change: in every interleaving of requests, updates and cleaning, an
  authoritative answer to a query carries the address that the last successful update of this name set before the
  query looked it up (or that the database held at the start), and a query goes on to the cache and the forwarder only
  if at that moment the zone had no address for the name or the SELECT of the lookup failed.
\<close>
theorem dns_refines_zone:
  assumes "dns_db S records cache str_less"
    and "trace (dns_step S T) s (pre @ e # post) s'"
  shows "(\<forall>i name ip. e = Local_answer i name ip \<longrightarrow>
            zone_after pre (zone_of records s) (clean_name name) = Some ip) \<and>
         (\<forall>i name failed. e = Local_miss i name failed \<longrightarrow>
            failed \<or> zone_after pre (zone_of records s) (clean_name name) = None)"
  using dns_db.event_in_zone [OF assms] by auto

section \<open>The cache\<close>

text \<open>The row of a domain comes from a forwarded answer of the run, saved at the time \<open>t0\<close>.\<close>

definition forwarded_row :: "chrono \<Rightarrow> dns_event list \<Rightarrow> int \<Rightarrow> string \<Rightarrow> string \<times> string \<Rightarrow> bool" where
  "forwarded_row T es now d row \<longleftrightarrow>
     (\<exists>j name rs ip ttl t0. Forwarded j name Type_A rs t0 \<in> set es \<and> clean_name name = d \<and> first_a rs = Some (ip, ttl) \<and>
        row = (ipv4_to_string ip, to_rfc3339 T (t0 + uint ttl * 1000000000)) \<and> t0 \<le> now)"

lemma forwarded_row_mono: "forwarded_row T es now d row \<Longrightarrow> now \<le> now' \<Longrightarrow> forwarded_row T (es @ es') now' d row"
  unfolding forwarded_row_def by fastforce

context dns_db
begin

lemma update_cache: "handle_ddns_update S domain ip db = (r, db') \<Longrightarrow> cache db' = cache db"
  by (auto simp: handle_ddns_update_def Let_def dest: replace_record split: if_splits sum.splits)

lemma cleanup_cache_rows: "cache (cleanup_cache S T now db) d = Some row \<Longrightarrow> cache db d = Some row"
  using delete_expired [of "to_rfc3339 T now" db _ d]
  by (auto simp: cleanup_cache_def Let_def split: sum.splits option.splits if_splits)

lemma cache_reply_rows:
  assumes "cache (cache_reply S T now name rt rs db) d = Some row"
  shows "cache db d = Some row \<or> forwarded_row T [Forwarded i name rt rs now] now d row"
proof (cases "cache (cache_reply S T now name rt rs db) = cache db")
  case False
  then obtain ip ttl where first: "rt = Type_A" "first_a rs = Some (ip, ttl)"
    by (auto simp: cache_reply_def split: if_splits option.splits)
  have "cache (cache_reply S T now name rt rs db) =
      (cache db)(clean_name name \<mapsto> (ipv4_to_string ip, to_rfc3339 T (now + uint ttl * 1000000000)))"
    using False first by (auto simp: cache_reply_def save_to_cache_def Let_def dest: replace_cache split: sum.splits)
  with assms first show ?thesis
    by (auto simp: forwarded_row_def split: if_splits)
qed (use assms in simp)

lemma cache_rows_step:
  assumes "dns_step S T s e t" and "cache (database t) d = Some row"
  shows "clock s \<le> clock t \<and> (cache (database s) d = Some row \<or> forwarded_row T [e] (clock t) d row)"
  using assms
proof cases
  case (forward_ok i name rt rs)
  then show ?thesis using cache_reply_rows [of T "clock s" name rt rs "database s" d row i] assms(2) by simp
next
  case (update domain ip st msg db')
  then show ?thesis using update_cache [OF update(4)] assms(2) by simp
next
  case clean
  then show ?thesis using cleanup_cache_rows [of T "clock s" "database s" d row] assms(2) by simp
qed (use assms(2) in auto)

lemma cache_rows:
  "trace (dns_step S T) s es t \<Longrightarrow> cache (database s) = Map.empty \<Longrightarrow> cache (database t) d = Some row \<Longrightarrow>
   forwarded_row T es (clock t) d row"
proof (induction rule: trace.induct)
  case (trace_snoc s es t e u)
  from cache_rows_step [OF trace_snoc.hyps(2) trace_snoc.prems(2)]
  show ?case
  proof (elim conjE disjE)
    assume "clock t \<le> clock u" and "cache (database t) d = Some row"
    then show ?thesis using trace_snoc.IH trace_snoc.prems(1) by (blast intro: forwarded_row_mono)
  next
    assume "forwarded_row T [e] (clock u) d row"
    then show ?thesis unfolding forwarded_row_def by fastforce
  qed
qed simp

end

text \<open>
  C13: A cached answer is never stale and never invented: in every interleaving, starting with an empty cache, an
  address answered from the cache at some time is the first A record of an answer that the forwarder gave earlier for the
  same name, and the time to live of that record has not passed since it was saved.
\<close>
theorem cached_answer_fresh:
  assumes "dns_db S records cache str_less" and "chrono_ok T str_less"
    and "cache (database s) = Map.empty"
    and "trace (dns_step S T) s (pre @ Cached_answer i name ip t # post) s'"
    and "\<And>j n rs t0 a ttl. Forwarded j n Type_A rs t0 \<in> set pre \<Longrightarrow> first_a rs = Some (a, ttl) \<Longrightarrow> length a = 4"
  shows "\<exists>j name' rs ttl t0. Forwarded j name' Type_A rs t0 \<in> set pre \<and> clean_name name' = clean_name name \<and>
    first_a rs = Some (ip, ttl) \<and> t0 \<le> t \<and> t < t0 + uint ttl * 1000000000"
proof -
  from assms(4) obtain u u' where u: "trace (dns_step S T) s pre u" and "dns_step S T u (Cached_answer i name ip t) u'"
    by (rule trace_split)
  then have t: "t = clock u" and hit: "lookup_cache_a_record S T t (database u) name = Some ip"
    by (auto elim: dns_step.cases)
  obtain ip_str e_str t1 where row: "cache (database u) (clean_name name) = Some (ip_str, e_str)"
    and t1: "parse_from_rfc3339 T e_str = Some t1" "t < t1" and ip: "ipv4_from_str ip_str = Some ip"
    using dns_db.lookup_cache_hit [OF assms(1) hit] by blast
  obtain j name' rs a ttl t0 where fwd: "Forwarded j name' Type_A rs t0 \<in> set pre" "clean_name name' = clean_name name"
      "first_a rs = Some (a, ttl)" "t0 \<le> t"
    and eq: "ip_str = ipv4_to_string a" "e_str = to_rfc3339 T (t0 + uint ttl * 1000000000)"
    using dns_db.cache_rows [OF assms(1) u assms(3) row] by (auto simp: forwarded_row_def t)
  have "t1 = t0 + uint ttl * 1000000000"
    using t1(1) assms(2) by (simp add: eq chrono_ok_def)
  moreover have "ip = a"
    using ip ipv4_round_trip [OF assms(5) [OF fwd(1,3)]] by (simp add: eq)
  ultimately show ?thesis
    using fwd t1(2) by blast
qed

text \<open>
  The row that a forwarded answer leaves stays, with nothing newer for the name, until the cleaner removes it after
  its expiry.
\<close>

definition kept_row :: "('db \<Rightarrow> string \<rightharpoonup> string \<times> string) \<Rightarrow> string \<Rightarrow> string \<times> string \<Rightarrow> int \<Rightarrow> 'db dns_sys \<Rightarrow> bool" where
  "kept_row cache d row expiry s \<longleftrightarrow>
     cache (database s) d = Some row \<or> cache (database s) d = None \<and> expiry \<le> clock s"

fun renews :: "string \<Rightarrow> dns_event \<Rightarrow> bool" where
  "renews d (Forwarded j name Type_A rs t) = (clean_name name = d \<and> first_a rs \<noteq> None)"
| "renews d _ = False"

context dns_db
begin

lemma cache_reply_other:
  "\<not> renews d (Forwarded i name rt rs t) \<Longrightarrow> cache (cache_reply S T now name rt rs db) d = cache db d"
  by (cases rt) (auto simp: cache_reply_def save_to_cache_def Let_def dest: replace_cache split: option.split sum.split)

lemma cleanup_keeps:
  assumes "chrono_ok T str_less" and "cache db d = Some (ip, to_rfc3339 T expiry)"
  shows "cache (cleanup_cache S T now db) d = Some (ip, to_rfc3339 T expiry)
    \<or> cache (cleanup_cache S T now db) d = None \<and> expiry \<le> now"
  using delete_expired [of "to_rfc3339 T now" db _ d] assms
  by (auto simp: cleanup_cache_def Let_def chrono_ok_def split: sum.splits)

lemma cleanup_absent: "cache db d = None \<Longrightarrow> cache (cleanup_cache S T now db) d = None"
  using cleanup_cache_rows [of T now db d] by (cases "cache (cleanup_cache S T now db) d") auto

lemma kept_row_step:
  assumes "chrono_ok T str_less" and "dns_step S T s e t" and "\<not> renews d e"
    and "kept_row cache d (ip, to_rfc3339 T expiry) expiry s"
  shows "kept_row cache d (ip, to_rfc3339 T expiry) expiry t"
  using assms(2,3,4)
proof cases
  case (forward_ok i name rt rs)
  then show ?thesis using cache_reply_other [of d i name rt rs "clock s"] assms(3,4) by (simp add: kept_row_def)
next
  case (update domain ip' st msg db')
  then show ?thesis using update_cache [OF update(4)] assms(4) by (simp add: kept_row_def)
next
  case clean
  then show ?thesis
    using cleanup_keeps [OF assms(1), of "database s" d ip expiry "clock s"] cleanup_absent assms(4)
    by (auto simp: kept_row_def)
qed (use assms(4) in \<open>auto simp: kept_row_def\<close>)

lemma kept_row_trace:
  "trace (dns_step S T) s es t \<Longrightarrow> chrono_ok T str_less \<Longrightarrow> list_all (\<lambda>e. \<not> renews d e) es \<Longrightarrow>
   kept_row cache d (ip, to_rfc3339 T expiry) expiry s \<Longrightarrow> kept_row cache d (ip, to_rfc3339 T expiry) expiry t"
  by (induction rule: trace.induct) (auto intro: kept_row_step)

lemma save_kept:
  assumes "first_a rs = Some (ip, ttl)"
    and "\<not> isl (replace_cache S (clean_name name) (ipv4_to_string ip) (to_rfc3339 T (now + uint ttl * 1000000000)) db)"
  shows "cache (cache_reply S T now name Type_A rs db) (clean_name name)
     = Some (ipv4_to_string ip, to_rfc3339 T (now + uint ttl * 1000000000))"
  using assms by (auto simp: cache_reply_def save_to_cache_def Let_def isl_def dest: replace_cache split: sum.splits)

lemma kept_row_lookup:
  assumes "chrono_ok T str_less" and "length ip = 4"
    and "kept_row cache (clean_name n) (ipv4_to_string ip, to_rfc3339 T expiry) expiry s"
  shows "lookup_cache_a_record S T (clock s) (database s) n = Some ip' \<Longrightarrow> ip' = ip \<and> clock s < expiry"
    and "lookup_cache_a_record S T (clock s) (database s) n = None \<Longrightarrow>
      \<not> isl (select_cache S (database s) (clean_name n)) \<Longrightarrow> expiry \<le> clock s"
proof -
  have parse: "parse_from_rfc3339 T (to_rfc3339 T expiry) = Some expiry"
    using assms(1) by (simp add: chrono_ok_def)
  show "lookup_cache_a_record S T (clock s) (database s) n = Some ip' \<Longrightarrow> ip' = ip \<and> clock s < expiry"
    using lookup_cache_hit [of T "clock s" "database s" n ip'] assms(3) parse ipv4_round_trip [OF assms(2)]
    by (auto simp: kept_row_def)
  show "lookup_cache_a_record S T (clock s) (database s) n = None \<Longrightarrow>
      \<not> isl (select_cache S (database s) (clean_name n)) \<Longrightarrow> expiry \<le> clock s"
    using lookup_cache [of "database s" n T "clock s"] assms(3) parse ipv4_round_trip [OF assms(2)]
    by (auto simp: kept_row_def split: if_splits)
qed

end


section \<open>Restart\<close>

text \<open>
  The statements of the schema create what is missing and change no row, as \<^verbatim>\<open>IF NOT EXISTS\<close> says: a server that
  is started again answers from the records of the last run. Without an HTTP socket it starts as well,
  and then no update is ever taken.
\<close>

lemma execute_all_keeps:
  assumes "\<And>q db db'. db_execute E q db = Some db' \<Longrightarrow> q \<in> set qs \<Longrightarrow> records db' = records db"
    and "execute_all E qs db = Some db'"
  shows "records db' = records db"
  using assms
proof (induction qs arbitrary: db)
  case (Cons q qs)
  from Cons.prems(2) obtain db1 where "db_execute E q db = Some db1" "execute_all E qs db1 = Some db'"
    by (auto simp: bind_eq_Some_conv)
  with Cons.IH [of db1] Cons.prems(1) show ?case by simp
qed simp

lemma restart_keeps_zone:
  assumes "\<And>q db db'. db_execute E q db = Some db' \<Longrightarrow> q \<in> set schema \<Longrightarrow> records db' = records db"
    and "db_open E ''dns_records.db'' = Some db" and "dns_main E now = Some s"
  shows "zone_of records s = (\<lambda>d. Option.bind (records db d) ipv4_from_str)"
  using assms execute_all_keeps [of E schema records db "database s"]
  by (auto simp: dns_main_def bind_eq_Some_conv zone_of_def split: if_splits)

lemma no_http_no_updates:
  assumes "trace (dns_step S T) s es t" and "\<not> http_serving s"
  shows "\<not> http_serving t \<and> Updated domain ip st \<notin> set es"
  using assms by (induction rule: trace.induct) (auto elim: dns_step.cases)

section \<open>Examples\<close>

definition mem_start :: "tables dns_sys" where
  "mem_start = \<lparr>database = \<lparr>t_records = (\<lambda>_. None), t_cache = (\<lambda>_. None)\<rparr>, clock = 5, requests = Map.empty, http_serving = True\<rparr>"


text \<open>The event determines the state after it, which makes the runs executable.\<close>

fun dns_exec :: "'db sql \<Rightarrow> chrono \<Rightarrow> dns_event \<Rightarrow> 'db dns_sys \<Rightarrow> 'db dns_sys option" where
  "dns_exec S T (Received i name rt) s =
     (if requests s i = None
      then Some (s\<lparr>requests := (requests s)(i \<mapsto> (if rt = Type_A then Local_lookup name else Forwarding name rt))\<rparr>) else None)"
| "dns_exec S T (Local_answer i name ip) s =
     (if requests s i = Some (Local_lookup name) \<and> lookup_local_a_record S (database s) name = Some ip
      then Some (s\<lparr>requests := (requests s)(i := None)\<rparr>) else None)"
| "dns_exec S T (Local_miss i name failed) s =
     (if requests s i = Some (Local_lookup name) \<and> lookup_local_a_record S (database s) name = None
        \<and> failed = isl (select_record S (database s) (clean_name name))
      then Some (s\<lparr>requests := (requests s)(i \<mapsto> Cache_lookup name)\<rparr>) else None)"
| "dns_exec S T (Cached_answer i name ip t) s =
     (if requests s i = Some (Cache_lookup name) \<and> lookup_cache_a_record S T t (database s) name = Some ip \<and> t = clock s
      then Some (s\<lparr>requests := (requests s)(i := None)\<rparr>) else None)"
| "dns_exec S T (Cache_miss i name failed t) s =
     (if requests s i = Some (Cache_lookup name) \<and> lookup_cache_a_record S T (clock s) (database s) name = None
        \<and> failed = isl (select_cache S (database s) (clean_name name)) \<and> t = clock s
      then Some (s\<lparr>requests := (requests s)(i \<mapsto> Forwarding name Type_A)\<rparr>) else None)"
| "dns_exec S T (Forwarded i name rt rs t) s =
     (if requests s i = Some (Forwarding name rt) \<and> t = clock s
      then Some (s\<lparr>requests := (requests s)(i := None), database := cache_reply S T t name rt rs (database s)\<rparr>) else None)"
| "dns_exec S T (Forward_failed i name rt) s =
     (if requests s i = Some (Forwarding name rt) then Some (s\<lparr>requests := (requests s)(i := None)\<rparr>) else None)"
| "dns_exec S T (Updated domain ip st) s =
     (case handle_ddns_update S domain ip (database s) of
        ((st', msg), db') \<Rightarrow> if http_serving s \<and> st' = st then Some (s\<lparr>database := db'\<rparr>) else None)"
| "dns_exec S T (Cleaned t) s =
     (if t = clock s then Some (s\<lparr>database := cleanup_cache S T t (database s)\<rparr>) else None)"
| "dns_exec S T (Tick t) s = (if clock s \<le> t then Some (s\<lparr>clock := t\<rparr>) else None)"

lemma dns_step_exec: "dns_step S T s e t \<longleftrightarrow> dns_exec S T e s = Some t"
proof
  show "dns_step S T s e t \<Longrightarrow> dns_exec S T e s = Some t"
    by (erule dns_step.cases) auto
  show "dns_exec S T e s = Some t \<Longrightarrow> dns_step S T s e t"
    using receive [of s _ S T _ Type_A] receive [of s _ S T _ Type_other]
    by (cases e) (auto split: if_splits prod.splits intro: dns_step.intros, metis record_type.exhaust)
qed

fun dns_replay :: "'db sql \<Rightarrow> chrono \<Rightarrow> dns_event list \<Rightarrow> 'db dns_sys \<Rightarrow> 'db dns_sys option" where
  "dns_replay S T [] s = Some s"
| "dns_replay S T (e # es) s = Option.bind (dns_exec S T e s) (dns_replay S T es)"

lemma dns_replay_trace: "dns_replay S T es s = Some t \<Longrightarrow> trace (dns_step S T) s es t"
proof (induction es arbitrary: s)
  case (Cons e es)
  then obtain s1 where "dns_step S T s e s1" and "dns_replay S T es s1 = Some t"
    by (auto simp: bind_eq_Some_conv dns_step_exec)
  with Cons.IH show ?case by (blast intro: trace_Cons [where step = "dns_step S T"])
qed simp

lemma replay_exists: "\<not> Option.is_none (dns_replay S T es s) \<Longrightarrow> \<exists>t. trace (dns_step S T) s es t"
  using dns_replay_trace by (fastforce simp: Option.is_none_def)

theorem dns_refines_zone_witness:
  "zone_after [Updated ''home.example'' ''10.0.0.7'' OK, Received 0 ''home.example.'' Type_A] (zone_of t_records mem_start)
     (clean_name ''home.example.'') = Some [10, 0, 0, 7]"
proof -
  let ?es = "[Updated ''home.example'' ''10.0.0.7'' OK, Received 0 ''home.example.'' Type_A]"
  have "\<not> Option.is_none (dns_replay (mem_sql (\<lambda>_ _. False)) demo_chrono (?es @ Local_answer 0 ''home.example.'' [10, 0, 0, 7] # []) mem_start)"
    by code_simp
  then obtain s' where "trace (dns_step (mem_sql (\<lambda>_ _. False)) demo_chrono) mem_start (?es @ Local_answer 0 ''home.example.'' [10, 0, 0, 7] # []) s'"
    using replay_exists by blast
  from dns_refines_zone [OF mem.dns_db_axioms this] show ?thesis by blast
qed

text \<open>The clock of the example starts so that the texts of its times stay short.\<close>

theorem cached_answer_fresh_witness:
  "\<exists>j name' rs ttl t0. Forwarded j name' Type_A rs t0 \<in>
       set [Received 0 ''a.b'' Type_A, Local_miss 0 ''a.b'' False, Cache_miss 0 ''a.b'' False (- 999999998),
         Forwarded 0 ''a.b'' Type_A [\<lparr>rr_name = ''a.b'', rr_ttl = 1, rr_data = A [1, 2, 3, 4]\<rparr>] (- 999999998),
         Tick 1, Received 1 ''a.b.'' Type_A, Local_miss 1 ''a.b.'' False] \<and>
     clean_name name' = clean_name ''a.b.'' \<and> first_a rs = Some ([1, 2, 3, 4], ttl) \<and> t0 \<le> 1 \<and> 1 < t0 + uint ttl * 1000000000"
proof -
  let ?rs = "[\<lparr>rr_name = ''a.b'', rr_ttl = 1, rr_data = A [1, 2, 3, 4]\<rparr>]"
  let ?es = "[Received 0 ''a.b'' Type_A, Local_miss 0 ''a.b'' False, Cache_miss 0 ''a.b'' False (- 999999998), Forwarded 0 ''a.b'' Type_A ?rs (- 999999998),
     Tick 1, Received 1 ''a.b.'' Type_A, Local_miss 1 ''a.b.'' False]"
  let ?s = "mem_start\<lparr>clock := - 999999998\<rparr>"
  have "\<not> Option.is_none (dns_replay (mem_sql demo_less) demo_chrono (?es @ Cached_answer 1 ''a.b.'' [1, 2, 3, 4] 1 # []) ?s)"
    by code_simp
  then obtain s' where run: "trace (dns_step (mem_sql demo_less) demo_chrono) ?s (?es @ Cached_answer 1 ''a.b.'' [1, 2, 3, 4] 1 # []) s'"
    using replay_exists by blast
  show ?thesis
    by (rule cached_answer_fresh [OF mem.dns_db_axioms demo_chrono_ok _ run]) (auto simp: mem_start_def)
qed


end
