(* ===== verification/Siem_Service.thy ===== *)
theory Siem_Service
  imports Siem
begin

text \<open>
  The SIEM log processor as \<^verbatim>\<open>main\<close> puts it together (\<^verbatim>\<open>siem_clickhouse_processor\<close>): the generator, the bounded
  channel, the batching actor and the tasks that write its batches, in any interleaving, until \<^verbatim>\<open>main\<close>
  returns. It waits for the generator and for the actor, but for none of the writing tasks, and the
  end of the runtime drops the tasks that are left.
\<close>

section \<open>The service\<close>

record service =
  made :: nat
  channel :: "SiemEvent list"
  manager :: "SiemEvent BatchManager"
  todo :: "(handover \<times> SiemEvent list) list"
  written :: "SiemEvent list list"
  db :: store
  log :: "siem_log list"
  exited :: bool

definition service_new :: "store \<Rightarrow> service" where
  "service_new st =
     \<lparr>made = 0, channel = [], manager = manager_new, todo = [], written = [], db = st, log = [], exited = False\<rparr>"

definition CHANNEL_CAPACITY :: nat where "CHANNEL_CAPACITY = 100"

text \<open>A turn of the actor: the batches it has handed over are to be written.\<close>

definition manager_turn :: "SiemEvent seen \<Rightarrow> service \<Rightarrow> service" where
  "manager_turn x s =
     (let m = run_step main_config x (manager s)
      in s\<lparr>manager := m, todo := todo s @ drop (length (handed (manager s))) (handed m)\<rparr>)"

text \<open>
  A writing task, whose calls have any outcome, runs as a whole: a batch of the actor's last turn is awaited by
  the actor, the others are tasks of their own. \<open>written\<close> collects the batches whose task has run, also when both the
  database and the local file failed. Tasks that run at the same time, and a task that the end of \<^verbatim>\<open>main\<close> stops halfway,
  are not modelled.
\<close>

inductive service_step :: "(nat \<Rightarrow> nat) \<Rightarrow> (nat \<Rightarrow> int) \<Rightarrow> (SiemEvent \<Rightarrow> string option) \<Rightarrow> service \<Rightarrow> service \<Rightarrow> bool"
  for uuid now ser where
  send: "\<not> exited s \<Longrightarrow> made s < 50 \<Longrightarrow> length (channel s) < CHANNEL_CAPACITY \<Longrightarrow>
     service_step uuid now ser s
       (s\<lparr>made := made s + 1, channel := channel s @ [siem_event uuid now (made s + 1)]\<rparr>)"
| recv: "\<not> exited s \<Longrightarrow> running (manager s) \<Longrightarrow> channel s = e # es \<Longrightarrow>
     service_step uuid now ser s (manager_turn (Event e) (s\<lparr>channel := es\<rparr>))"
| timer: "\<not> exited s \<Longrightarrow> running (manager s) \<Longrightarrow> service_step uuid now ser s (manager_turn Timeout s)"
| closed: "\<not> exited s \<Longrightarrow> running (manager s) \<Longrightarrow> made s = 50 \<Longrightarrow> channel s = [] \<Longrightarrow>
     service_step uuid now ser s (manager_turn Closed s)"
| task: "\<not> exited s \<Longrightarrow> (how, batch) \<in> set (todo s) \<Longrightarrow> write_batch ser c w batch (db s) = (st', out) \<Longrightarrow>
     service_step uuid now ser s
       (s\<lparr>todo := remove1 (how, batch) (todo s), written := written s @ [batch], db := st', log := log s @ out\<rparr>)"
| main_returns: "\<not> exited s \<Longrightarrow> made s = 50 \<Longrightarrow> \<not> running (manager s) \<Longrightarrow> Awaited \<notin> fst ` set (todo s) \<Longrightarrow>
     service_step uuid now ser s (s\<lparr>exited := True\<rparr>)"

section \<open>The invariant\<close>

definition batches_left :: "service \<Rightarrow> SiemEvent list list" where
  "batches_left s = map snd (todo s)"

definition in_order :: "service \<Rightarrow> SiemEvent list" where
  "in_order s = concat (map snd (handed (manager s))) @ buf (manager s) @ channel s"

definition events_upto :: "(nat \<Rightarrow> nat) \<Rightarrow> (nat \<Rightarrow> int) \<Rightarrow> nat \<Rightarrow> SiemEvent list" where
  "events_upto uuid now n = map (siem_event uuid now) [1 ..< Suc n]"

lemma events_upto_Suc: "events_upto uuid now (Suc n) = events_upto uuid now n @ [siem_event uuid now (Suc n)]"
  by (simp add: events_upto_def)

definition service_ok :: "(nat \<Rightarrow> nat) \<Rightarrow> (nat \<Rightarrow> int) \<Rightarrow> service \<Rightarrow> bool" where
  "service_ok uuid now s \<longleftrightarrow>
     in_order s = events_upto uuid now (made s) \<and>
     mset (map snd (handed (manager s))) = mset (written s) + mset (batches_left s) \<and>
     made s \<le> 50 \<and> length (channel s) \<le> CHANNEL_CAPACITY \<and>
     (\<not> running (manager s) \<longrightarrow> made s = 50 \<and> channel s = [] \<and> buf (manager s) = []) \<and>
     (exited s \<longrightarrow> \<not> running (manager s) \<and> Awaited \<notin> fst ` set (todo s))"

lemma mset_concat_cong: "mset xss = mset yss \<Longrightarrow> mset (concat xss) = mset (concat yss)"
proof -
  have "mset (concat zss) = \<Sum>\<^sub># (image_mset mset (mset zss))" for zss :: "'a list list"
    by (induction zss) auto
  then show "mset xss = mset yss \<Longrightarrow> mset (concat xss) = mset (concat yss)" by simp
qed

lemma turn_handed:
  "\<exists>new. handed (run_step cfg x m) = handed m @ new \<and> (running m \<longrightarrow>
     concat (map snd new) @ buf (run_step cfg x m) = buf m @ (case x of Event e \<Rightarrow> [e] | _ \<Rightarrow> []))"
  by (cases x) (auto simp: run_defs Let_def)

lemma turn_running:
  "running m \<Longrightarrow> running (run_step cfg x m) = (x \<noteq> Closed)"
  by (cases x; simp add: run_defs Let_def)

lemma turn_closed: "running m \<Longrightarrow> buf (run_step cfg Closed m) = []"
  by (simp add: run_defs)

lemma manager_turn_ok:
  assumes "service_ok uuid now s" and "running (manager s)" and "\<not> exited s"
    and "case x of Event e \<Rightarrow> channel s = e # es | Closed \<Rightarrow> made s = 50 \<and> channel s = [] \<and> es = [] | Timeout \<Rightarrow> es = channel s"
  shows "service_ok uuid now (manager_turn x (s\<lparr>channel := es\<rparr>))"
proof -
  obtain new where new: "handed (run_step main_config x (manager s)) = handed (manager s) @ new"
    "concat (map snd new) @ buf (run_step main_config x (manager s)) = buf (manager s) @ (case x of Event e \<Rightarrow> [e] | _ \<Rightarrow> [])"
    using turn_handed [of main_config x "manager s"] assms(2) by blast
  let ?m = "run_step main_config x (manager s)"
  have "concat (map snd (handed ?m)) @ buf ?m @ es = concat (map snd (handed (manager s))) @ (concat (map snd new) @ buf ?m) @ es"
    by (simp add: new(1))
  also have "\<dots> = concat (map snd (handed (manager s))) @ buf (manager s) @ channel s"
    unfolding new(2) using assms(4) by (cases x) auto
  finally have "in_order (manager_turn x (s\<lparr>channel := es\<rparr>)) = in_order s"
    by (simp add: in_order_def manager_turn_def Let_def)
  moreover have "batches_left (manager_turn x (s\<lparr>channel := es\<rparr>)) = batches_left s @ map snd new"
    and "map snd (handed ?m) = map snd (handed (manager s)) @ map snd new"
    by (simp_all add: batches_left_def manager_turn_def new(1))
  moreover have "length es \<le> length (channel s)" and "x \<noteq> Closed \<or> made s = 50 \<and> es = []"
    using assms(4) by (cases x; simp)+
  ultimately show ?thesis
    using assms(1-3) turn_running [OF assms(2), of main_config] turn_closed [OF assms(2), of main_config]
    by (auto simp: service_ok_def manager_turn_def Let_def)
qed

lemma send_ok_step:
  assumes "service_ok uuid now s" and "made s < 50" and "length (channel s) < CHANNEL_CAPACITY" and "\<not> exited s"
  shows "service_ok uuid now (s\<lparr>made := made s + 1, channel := channel s @ [siem_event uuid now (made s + 1)]\<rparr>)"
proof -
  let ?s = "s\<lparr>made := made s + 1, channel := channel s @ [siem_event uuid now (made s + 1)]\<rparr>"
  have "in_order ?s = in_order s @ [siem_event uuid now (Suc (made s))]" and "batches_left ?s = batches_left s"
    by (simp_all add: in_order_def batches_left_def)
  then show ?thesis
    using assms by (simp add: service_ok_def events_upto_Suc)
qed

lemma task_ok_step:
  assumes "service_ok uuid now s" and "(how, batch) \<in> set (todo s)" and "\<not> exited s"
  shows "service_ok uuid now (s\<lparr>todo := remove1 (how, batch) (todo s), written := written s @ [batch], db := st', log := l\<rparr>)"
proof -
  have "mset (todo s) = add_mset (how, batch) (mset (remove1 (how, batch) (todo s)))"
    using assms(2) by simp
  then have "mset (map snd (todo s)) = mset (map snd (remove1 (how, batch) (todo s))) + {#batch#}"
    by (metis add_mset_add_single image_mset_add_mset mset_map snd_conv)
  then show ?thesis
    using assms by (auto simp: service_ok_def batches_left_def in_order_def dest: notin_set_remove1)
qed

interpretation service: inv_system "\<lambda>s. \<exists>st. s = service_new st" "service_step uuid now ser" "service_ok uuid now" for uuid now ser
proof
  show "\<exists>st. s = service_new st \<Longrightarrow> service_ok uuid now s" for s
    by (auto simp: service_ok_def service_new_def manager_new_def batches_left_def in_order_def events_upto_def)
  fix s t
  assume ok: "service_ok uuid now s" and "service_step uuid now ser s t"
  from this(2) show "service_ok uuid now t"
  proof cases
    case send
    then show ?thesis using send_ok_step [OF ok] by simp
  next
    case (recv e es)
    then show ?thesis using manager_turn_ok [OF ok, where x = "Event e" and es = es] by simp
  next
    case timer
    then show ?thesis using manager_turn_ok [OF ok, where x = Timeout and es = "channel s"] by simp
  next
    case closed
    then have same: "s\<lparr>channel := []\<rparr> = s" by (cases s) simp
    have "service_ok uuid now (manager_turn Closed (s\<lparr>channel := []\<rparr>))"
      by (rule manager_turn_ok [OF ok]) (use closed in simp_all)
    then show ?thesis unfolding same closed(1) .
  next
    case main_returns
    then show ?thesis using ok by (auto simp: service_ok_def batches_left_def in_order_def)
  qed (use ok in \<open>auto intro: task_ok_step\<close>)
qed

text \<open>
  C15: When the service ends, every one of its 50 events is accounted for, whatever the timer, the order of the tasks
  and the outcomes of the database and of the local file: the batches whose writing task has run (whatever the database
  and the local file made of it) and the batches whose tasks the end of main drops contain, together, exactly the 50
  events, each once; and none of the dropped batches is the one of the actor's last turn.
\<close>
theorem service_accounts_for_events:
  assumes "(service_step uuid now ser)\<^sup>*\<^sup>* (service_new st) s" and "exited s"
  shows "mset (concat (written s)) + mset (concat (map snd (todo s))) = mset (map (siem_event uuid now) [1 ..< 51])
    \<and> (\<forall>(how, batch) \<in> set (todo s). how = Spawned)"
proof -
  have ok: "service_ok uuid now s"
    using service.inv_reachable [OF _ assms(1)] by blast
  then have "concat (map snd (handed (manager s))) = map (siem_event uuid now) [1 ..< 51]"
    using assms(2) by (auto simp: service_ok_def in_order_def events_upto_def simp del: upt_Suc)
  moreover have "mset (concat (map snd (handed (manager s)))) = mset (concat (written s)) + mset (concat (map snd (todo s)))"
    using mset_concat_cong [of "map snd (handed (manager s))" "written s @ map snd (todo s)"] ok
    by (simp add: service_ok_def batches_left_def)
  moreover have "how = Spawned" if "(how, batch) \<in> set (todo s)" for how batch
    using ok assms(2) that by (cases how) (force simp: service_ok_def)+
  ultimately show ?thesis by auto
qed

section \<open>A run that loses batches\<close>

lemma turns_below:
  "running m \<Longrightarrow> length (buf m) + length xs < max_batch_size cfg \<Longrightarrow>
   fold (run_step cfg) (map Event xs) m = m\<lparr>buf := buf m @ xs, taken := taken m @ xs\<rparr>"
proof (induction xs arbitrary: m)
  case (Cons x xs)
  let ?m = "m\<lparr>buf := buf m @ [x], taken := taken m @ [x]\<rparr>"
  have "run_step cfg (Event x) m = ?m" using Cons.prems by (simp add: run_step_def Let_def)
  then show ?case using Cons.IH [of ?m] Cons.prems by simp
qed simp

lemma turns_full:
  assumes "running m" and "buf m = []" and "length xs = max_batch_size cfg" and "xs \<noteq> []"
  shows "fold (run_step cfg) (map Event xs) m = m\<lparr>handed := handed m @ [(Spawned, xs)], taken := taken m @ xs\<rparr>"
proof -
  obtain ys y where xs: "xs = ys @ [y]" using assms(4) by (cases xs rule: rev_cases) auto
  then have "fold (run_step cfg) (map Event ys) m = m\<lparr>buf := ys, taken := taken m @ ys\<rparr>"
    using turns_below [of m ys cfg] assms by simp
  then show ?thesis using assms by (simp add: xs run_step_def hand_over_def Let_def)
qed

text \<open>The run in which the actor takes every event at once and no writing task gets a turn.\<close>

definition eager :: "(nat \<Rightarrow> nat) \<Rightarrow> (nat \<Rightarrow> int) \<Rightarrow> store \<Rightarrow> nat \<Rightarrow> service" where
  "eager uuid now st n =
     (let m = run main_config (map Event (events_upto uuid now n))
      in (service_new st)\<lparr>made := n, manager := m, todo := handed m\<rparr>)"

lemma run_events_running: "running (run cfg (map Event xs))"
  by (simp add: run_state(1) image_iff)

lemma eager_reachable: "n \<le> 50 \<Longrightarrow> (service_step uuid now ser)\<^sup>*\<^sup>* (service_new st) (eager uuid now st n)"
proof (induction n)
  case 0
  then show ?case by (simp add: eager_def events_upto_def run_def service_new_def manager_new_def)
next
  case (Suc n)
  let ?e = "siem_event uuid now (Suc n)" and ?s = "eager uuid now st n"
  let ?s1 = "?s\<lparr>made := made ?s + 1, channel := channel ?s @ [siem_event uuid now (made ?s + 1)]\<rparr>"
  have "service_step uuid now ser ?s ?s1"
    by (rule send) (use Suc.prems in \<open>simp_all add: eager_def service_new_def CHANNEL_CAPACITY_def Let_def\<close>)
  moreover have "service_step uuid now ser ?s1 (manager_turn (Event ?e) (?s1\<lparr>channel := []\<rparr>))"
    by (rule recv) (simp_all add: eager_def service_new_def run_events_running Let_def)
  moreover have "manager_turn (Event ?e) (?s1\<lparr>channel := []\<rparr>) = eager uuid now st (Suc n)"
    using turn_handed [of main_config "Event ?e" "run main_config (map Event (events_upto uuid now n))"]
    by (auto simp: eager_def manager_turn_def events_upto_Suc run_snoc service_new_def Let_def)
  ultimately show ?case
    using Suc by (metis Suc_leD rtranclp.rtrancl_into_rtrancl)
qed

lemma run_50:
  assumes "length a = 20" and "length b = 20" and "length c = 10"
  shows "run main_config (map Event (a @ b @ c)) =
    \<lparr>buf = c, handed = [(Spawned, a), (Spawned, b)], taken = a @ b @ c, running = True\<rparr>"
proof -
  have size: "max_batch_size main_config = 20" by (simp add: main_config_def)
  have "a \<noteq> []" "b \<noteq> []" using assms by auto
  then show ?thesis
    using assms by (simp add: run_def turns_full turns_below size manager_new_def)
qed

lemma events_50:
  "events_upto uuid now 50 = map (siem_event uuid now) [1 ..< 21] @ map (siem_event uuid now) [21 ..< 41] @ map (siem_event uuid now) [41 ..< 51]"
proof -
  have "[1 ..< 51] = [1 ..< 21] @ [21 ..< 41] @ [41 ..< 51 :: nat]"
    using upt_add_eq_append [of 1 21 20] upt_add_eq_append [of 1 41 10] by simp
  then show ?thesis by (simp add: events_upto_def del: upt_Suc)
qed

lemma eager_exit:
  assumes "events_upto uuid now 50 = a @ b @ c" and "length a = 20" and "length b = 20" and "length c = 10"
  shows "\<exists>s. (service_step uuid now ser)\<^sup>*\<^sup>* (service_new \<lparr>rows = [], wal_file = []\<rparr>) s \<and> exited s \<and>
     rows (db s) = c \<and> wal_file (db s) = [] \<and> log s = [Written 10] \<and> concat (map snd (todo s)) = a @ b"
proof -
  let ?st = "\<lparr>rows = [], wal_file = []\<rparr> :: store"
  let ?s = "eager uuid now ?st 50"
  let ?ch = "\<lparr>insert_ok = True, write_ok = (\<lambda>_. True), end_result = End_ok\<rparr>" and ?w = "\<lparr>open_ok = True, write_fails = (\<lambda>_. None), flush_ok = True\<rparr>"
  have s: "?s = (service_new ?st)\<lparr>made := 50, manager := \<lparr>buf = c, handed = [(Spawned, a), (Spawned, b)], taken = a @ b @ c, running = True\<rparr>,
      todo := [(Spawned, a), (Spawned, b)]\<rparr>"
    using run_50 [OF assms(2-4)] by (simp add: eager_def assms(1))
  define s1 where "s1 = manager_turn Closed ?s"
  have "c \<noteq> []" using assms(4) by auto
  then have s1: "todo s1 = [(Spawned, a), (Spawned, b), (Awaited, c)]" "\<not> running (manager s1)" "made s1 = 50"
      "\<not> exited s1" "db s1 = ?st" "log s1 = []"
    by (simp_all add: s1_def s manager_turn_def run_step_def hand_over_def service_new_def)
  define s2 where "s2 = s1\<lparr>todo := remove1 (Awaited, c) (todo s1), written := written s1 @ [c],
      db := \<lparr>rows = c, wal_file = []\<rparr>, log := log s1 @ [Written 10]\<rparr>"
  have "service_step uuid now ser ?s s1"
    unfolding s1_def by (rule closed) (simp_all add: s service_new_def)
  moreover have "service_step uuid now ser s1 s2"
    unfolding s2_def by (rule task [where c = ?ch and w = ?w and how = Awaited]) (use s1 \<open>c \<noteq> []\<close> assms(4) in \<open>simp_all add: write_batch_def list_all_iff\<close>)
  moreover have "service_step uuid now ser s2 (s2\<lparr>exited := True\<rparr>)"
    by (rule main_returns) (simp_all add: s2_def s1)
  ultimately have "(service_step uuid now ser)\<^sup>*\<^sup>* (service_new ?st) (s2\<lparr>exited := True\<rparr>)"
    using eager_reachable [of 50 uuid now ser ?st] by (meson order_refl rtranclp.rtrancl_into_rtrancl)
  then show ?thesis
    by (intro exI [of _ "s2\<lparr>exited := True\<rparr>"]) (simp add: s2_def s1)
qed

text \<open>
  The end of the service can lose events without a trace: there is a run, with a database and a file system on which no call
  fails, at whose end the first 40 of the 50 events are neither in the database nor in the local file and nothing was
  logged about them, because main returned before the tasks that were to write them.
\<close>
lemma exit_can_lose_batches:
  "\<exists>s. (service_step uuid now ser)\<^sup>*\<^sup>* (service_new \<lparr>rows = [], wal_file = []\<rparr>) s \<and> exited s \<and>
     rows (db s) = map (siem_event uuid now) [41 ..< 51] \<and> wal_file (db s) = [] \<and> log s = [Written 10] \<and>
     concat (map snd (todo s)) = map (siem_event uuid now) [1 ..< 41]"
proof -
  have "map (siem_event uuid now) [1 ..< 21] @ map (siem_event uuid now) [21 ..< 41] = map (siem_event uuid now) [1 ..< 41]"
    using upt_add_eq_append [of 1 21 20] by simp
  then show ?thesis
    using eager_exit [OF events_50, of uuid now ser] by simp
qed

theorem service_accounts_for_events_witness:
  "\<exists>s :: service. exited s \<and> mset (concat (written s)) + mset (concat (map snd (todo s))) = mset (map (siem_event (\<lambda>n. n) int) [1 ..< 51])
     \<and> (\<forall>(how, batch) \<in> set (todo s). how = Spawned)"
proof -
  obtain s where "(service_step (\<lambda>n. n) int (\<lambda>e. Some (message e)))\<^sup>*\<^sup>* (service_new \<lparr>rows = [], wal_file = []\<rparr>) s" and "exited s"
    using eager_exit [OF events_50, of "\<lambda>n. n" int "\<lambda>e. Some (message e)"] by auto
  with service_accounts_for_events [OF this] show ?thesis by blast
qed

end
