(* ===== verification/Telemetry_Service.thy ===== *)
theory Telemetry_Service
  imports Dns_Telemetry Pcap
begin

text \<open>
  The DNS telemetry collector from its start to its end (\<^verbatim>\<open>dns_telemetry/src/main.rs\<close>): the capture thread with the
  opening of the device, the parsing loop of \<^verbatim>\<open>main\<close> and the worker. The capture thread owns the only
  sender of the packet channel, so \<^verbatim>\<open>main\<close> ends when the thread has ended and the channel is empty, and
  the runtime drops the worker with whatever it still holds.
\<close>

section \<open>The capture thread\<close>

definition sniffer_settings :: capture_settings where
  "sniffer_settings = \<lparr>promisc = True, snaplen = 65535, timeout_ms = 100\<rparr>"

definition open_dns_capture :: "pcap \<Rightarrow> pcap_error + bytes option list" where
  "open_dns_capture E =
     (case device_lookup E of
        None \<Rightarrow> Inl Lookup_error
      | Some None \<Rightarrow> Inl No_interface
      | Some (Some device) \<Rightarrow> start_capture E device sniffer_settings ''udp port 53'')"

text \<open>The thread alone: what it sends, and what it returns.\<close>

definition run_pcap_sniffer :: "pcap \<Rightarrow> collector \<Rightarrow> collector \<times> (pcap_error + unit)" where
  "run_pcap_sniffer E c =
     (case open_dns_capture E of
        Inl e \<Rightarrow> (c, Inl e)
      | Inr results \<Rightarrow> (fold sniff (until_error results) c, Inr ()))"

section \<open>The service\<close>

text \<open>\<open>feed\<close> holds the results of \<^verbatim>\<open>next_packet\<close> still to come; \<open>ended\<close> is the end of \<^verbatim>\<open>main\<close>.\<close>

record telemetry =
  col :: collector
  feed :: "bytes option list"
  capturing :: bool
  ended :: bool

definition telemetry_main :: "pcap \<Rightarrow> telemetry" where
  "telemetry_main E =
     (case open_dns_capture E of
        Inl e \<Rightarrow> \<lparr>col = collector_new, feed = [], capturing = False, ended = False\<rparr>
      | Inr results \<Rightarrow> \<lparr>col = collector_new, feed = results, capturing = True, ended = False\<rparr>)"

inductive telemetry_step ::
    "(bytes \<Rightarrow> sliced option) \<Rightarrow> (bytes \<Rightarrow> dns_message option) \<Rightarrow> telemetry \<Rightarrow> telemetry \<Rightarrow> bool"
  for from_ethernet from_bytes where
  capture: "\<not> ended s \<Longrightarrow> capturing s \<Longrightarrow> feed s = Some data # ps \<Longrightarrow>
     telemetry_step from_ethernet from_bytes s (s\<lparr>col := sniff data (col s), feed := ps\<rparr>)"
| capture_error: "\<not> ended s \<Longrightarrow> capturing s \<Longrightarrow> feed s = None # ps \<Longrightarrow>
     telemetry_step from_ethernet from_bytes s (s\<lparr>capturing := False, feed := ps\<rparr>)"
| parse: "\<not> ended s \<Longrightarrow> packets (col s) \<noteq> [] \<Longrightarrow>
     telemetry_step from_ethernet from_bytes s (s\<lparr>col := parse_next from_ethernet from_bytes now (col s)\<rparr>)"
| main_ends: "\<not> ended s \<Longrightarrow> \<not> capturing s \<Longrightarrow> packets (col s) = [] \<Longrightarrow>
     telemetry_step from_ethernet from_bytes s (s\<lparr>ended := True\<rparr>)"
| worker: "\<not> ended s \<Longrightarrow> logs (col s) \<noteq> [] \<Longrightarrow>
     telemetry_step from_ethernet from_bytes s (s\<lparr>col := worker_recv io (col s)\<rparr>)"
| timer: "\<not> ended s \<Longrightarrow>
     telemetry_step from_ethernet from_bytes s (s\<lparr>col := worker_timer io (col s)\<rparr>)"

inductive_cases telemetry_stepE: "telemetry_step from_ethernet from_bytes s t"

text \<open>The service runs the collector: every step is a step of it or leaves it as it is.\<close>

lemma telemetry_step_col:
  "telemetry_step from_ethernet from_bytes s t \<Longrightarrow> col t = col s \<or> collect_step from_ethernet from_bytes (col s) (col t)"
  by (erule telemetry_stepE) (auto intro: collect_step.intros)

lemma telemetry_col_new [simp]: "col (telemetry_main E) = collector_new"
  by (simp add: telemetry_main_def split: sum.split)

lemma telemetry_collects:
  "(telemetry_step from_ethernet from_bytes)\<^sup>*\<^sup>* (telemetry_main E) s \<Longrightarrow>
   (collect_step from_ethernet from_bytes)\<^sup>*\<^sup>* collector_new (col s)"
proof (induction rule: rtranclp_induct)
  case (step s t)
  then show ?case using telemetry_step_col by (metis rtranclp.rtrancl_into_rtrancl)
qed simp

section \<open>What is captured\<close>

abbreviation sees :: "pcap \<Rightarrow> bytes list" where
  "sees E \<equiv> (case open_dns_capture E of Inl _ \<Rightarrow> [] | Inr results \<Rightarrow> until_error results)"

definition capture_ok :: "pcap \<Rightarrow> telemetry \<Rightarrow> bool" where
  "capture_ok E s \<longleftrightarrow>
     captured (col s) @ (if capturing s then until_error (feed s) else []) = sees E
     \<and> (ended s \<longrightarrow> \<not> capturing s \<and> packets (col s) = [])"

lemma captured_same [simp]:
  "captured (parse_next from_ethernet from_bytes now c) = captured c"
  "captured (worker_recv io c) = captured c" "captured (worker_timer io c) = captured c"
  by (simp_all add: worker_defs Let_def split: list.split option.split)

interpretation capture_thread: inv_system
  "\<lambda>s. s = telemetry_main E" "telemetry_step from_ethernet from_bytes" "capture_ok E" for E from_ethernet from_bytes
proof (unfold_locales, goal_cases)
  case (1 s)
  then show ?case by (simp add: capture_ok_def telemetry_main_def collector_new_def split: sum.split)
next
  case (2 s t)
  from 2(2) show ?case
    by (rule telemetry_stepE) (use 2(1) in \<open>auto simp: capture_ok_def sniff_def\<close>)
qed

text \<open>
  When the service has ended, it has captured exactly the packets before the first error of the capture, and its
  worker may still hold records that nobody writes; nothing happens afterwards. A time-out of 100 milliseconds without a
  DNS packet is such an error.
\<close>
lemma telemetry_ends_at_first_error:
  assumes "(telemetry_step from_ethernet from_bytes)\<^sup>*\<^sup>* (telemetry_main E) s" and "ended s"
  shows "captured (col s) = sees E" and "packets (col s) = []" and "\<not> telemetry_step from_ethernet from_bytes s t"
proof -
  have "capture_ok E s" by (rule capture_thread.inv_reachable [OF refl assms(1)])
  with assms(2) show "captured (col s) = sees E" and "packets (col s) = []"
    by (auto simp: capture_ok_def)
  show "\<not> telemetry_step from_ethernet from_bytes s t"
    using assms(2) by (auto elim: telemetry_stepE)
qed

text \<open>The thread on its own is one schedule of the service, up to the point at which the thread stops.\<close>

lemma run_pcap_sniffer_schedule:
  assumes "open_dns_capture E = Inr results"
  shows "\<exists>s. (telemetry_step from_ethernet from_bytes)\<^sup>*\<^sup>* (telemetry_main E) s
    \<and> col s = fst (run_pcap_sniffer E collector_new) \<and> capturing s"
proof -
  have "(telemetry_step from_ethernet from_bytes)\<^sup>*\<^sup>*
      \<lparr>col = c, feed = map Some ds @ rest, capturing = True, ended = False\<rparr>
      \<lparr>col = fold sniff ds c, feed = rest, capturing = True, ended = False\<rparr>" for c ds rest
  proof (induction ds arbitrary: c)
    case (Cons d ds)
    let ?s = "\<lparr>col = c, feed = map Some (d # ds) @ rest, capturing = True, ended = False\<rparr>"
    have "telemetry_step from_ethernet from_bytes ?s
        \<lparr>col = sniff d c, feed = map Some ds @ rest, capturing = True, ended = False\<rparr>"
      using capture [of ?s d "map Some ds @ rest" from_ethernet from_bytes] by simp
    then show ?case using Cons.IH [of "sniff d c"] by (simp add: converse_rtranclp_into_rtranclp)
  qed simp
  moreover obtain rest where "results = map Some (until_error results) @ rest"
    using until_error_split by blast
  ultimately show ?thesis
    by (metis assms fst_conv run_pcap_sniffer_def sum.case(2) telemetry.select_convs(1,3) telemetry_main_def)
qed

text \<open>
  A run in which the only packet gives a record that the worker has taken into its batch when the first
  time-out ends the service: nothing of it is ever written.
\<close>

definition demo_capture :: pcap where
  "demo_capture = one_device ''eth0'' [Some [1], None, Some [2]]"

lemma quiet_period_loses_records:
  "\<exists>s :: telemetry. (telemetry_step demo_decode (\<lambda>b. Some demo_message))\<^sup>*\<^sup>* (telemetry_main demo_capture) s
     \<and> ended s \<and> batch (col s) \<noteq> [] \<and> flushed (col s) = [] \<and> feed s = [Some [2]]"
proof -
  let ?R = "telemetry_step demo_decode (\<lambda>b. Some demo_message)"
  let ?io = "\<lparr>insert_ok = True, write_ok = (\<lambda>i. True), end_ok = True\<rparr>"
  define s0 where "s0 = telemetry_main demo_capture"
  define s1 where "s1 = s0\<lparr>col := sniff [1] (col s0), feed := [None, Some [2]]\<rparr>"
  define s2 where "s2 = s1\<lparr>col := parse_next demo_decode (\<lambda>b. Some demo_message) 5 (col s1)\<rparr>"
  define s3 where "s3 = s2\<lparr>col := worker_recv ?io (col s2)\<rparr>"
  define s4 where "s4 = s3\<lparr>capturing := False, feed := [Some [2]]\<rparr>"
  have s0: "s0 = \<lparr>col = collector_new, feed = [Some [1], None, Some [2]], capturing = True, ended = False\<rparr>"
    by (simp add: s0_def telemetry_main_def open_dns_capture_def demo_capture_def one_device_def start_capture_def)
  note eval = worker_defs try_send_def collector_new_def packet_record_def demo_decode_def
    parse_dns_to_record_def demo_message_def
  have "?R s0 s1" unfolding s1_def by (rule capture) (simp_all add: s0)
  moreover have "?R s1 s2" unfolding s2_def by (rule parse) (simp_all add: s1_def s0 eval)
  moreover have "?R s2 s3" unfolding s3_def by (rule worker) (simp_all add: s2_def s1_def s0 eval)
  moreover have "?R s3 s4" unfolding s4_def by (rule capture_error) (simp_all add: s3_def s2_def s1_def s0)
  moreover have "?R s4 (s4\<lparr>ended := True\<rparr>)"
    by (rule main_ends) (simp_all add: s4_def s3_def s2_def s1_def s0 eval)
  ultimately have "?R\<^sup>*\<^sup>* s0 (s4\<lparr>ended := True\<rparr>)"
    by (meson converse_rtranclp_into_rtranclp rtranclp.rtrancl_refl)
  moreover have "batch (col s4) \<noteq> [] \<and> flushed (col s4) = []"
    by (simp add: s4_def s3_def s2_def s1_def s0 eval)
  ultimately show ?thesis
    unfolding s0_def by (intro exI [of _ "s4\<lparr>ended := True\<rparr>"]) (simp add: s4_def)
qed

end
