(* ===== verification/Dlp_Main.thy ===== *)
theory Dlp_Main
  imports Dlp_Analyzer Dlp_Sniffer
begin

text \<open>
  The program around the content analysis engine (\<^verbatim>\<open>main\<close> of \<^verbatim>\<open>dlp/dlp_analyzer\<close>): its four documents, the parallel
  analysis and the report it prints. What the report says is derived for every order in which the
  dictionary is iterated, from the matches of the two expressions in the documents; a reference matcher of the ASCII
  part of both expressions finds these matches.
\<close>

section \<open>The documents and the report\<close>

definition main_documents :: "string list" where
  "main_documents =
    [''Hi! My card number is 4000 1234 5678 9010. Don't show it to anyone'',
     ''This is a test document containing an NDA and trade secrets'',
     ''Passport of a citizen of the Russian Federation: 4508 123456. Urgent'',
     ''The fake card number 1111-1111-1111-1111 will not pass Luhn validation'']"

primrec leak_type_debug :: "LeakType \<Rightarrow> string" where
  "leak_type_debug Passport = ''Passport''"
| "leak_type_debug CreditCard = ''CreditCard''"
| "leak_type_debug ConfidentialKeyword = ''ConfidentialKeyword''"
| "leak_type_debug SourceCode = ''SourceCode''"

primrec severity_debug :: "Severity \<Rightarrow> string" where
  "severity_debug Low = ''Low''"
| "severity_debug Medium = ''Medium''"
| "severity_debug High = ''High''"
| "severity_debug Critical = ''Critical''"

definition detection_line :: "Detection \<Rightarrow> string" where
  "detection_line d =
     ''    - ['' @ leak_type_debug (leak_type d) @ ''] '' @ [CHR 0x27] @ matched_text d @ [CHR 0x27] @
     '' (Weight: '' @ show_nat (unat (score_impact d)) @ '')''"

text \<open>One call of \<^verbatim>\<open>println!\<close> per element; the numero sign is three bytes.\<close>

definition result_lines :: "nat \<Rightarrow> AnalysisResult \<Rightarrow> string list" where
  "result_lines idx result =
     [CHR 0x0A # ''Document '' @ [CHR 0xE2, CHR 0x84, CHR 0x96] @ show_nat (idx + 1) @ '':'',
      ''  Blocking status: '' @ (if is_violation result then ''BLOCKED'' else ''PERMITTED''),
      ''  Total weight of threats:  '' @ show_nat (unat (total_score result)),
      ''  Risk level:    '' @ severity_debug (severity result)] @
     (if detections result \<noteq> [] then ''  Matches found:'' # map detection_line (detections result) else [])"

definition report :: "AnalysisResult list \<Rightarrow> string list" where
  "report results = concat (map (\<lambda>(idx, result). result_lines idx result) (List.enumerate 0 results))"

text \<open>What \<^verbatim>\<open>main\<close> prints, and whether it returns, panics or never ends.\<close>

definition dlp_main ::
    "('regex \<Rightarrow> string \<Rightarrow> string list) \<Rightarrow> (string \<Rightarrow> string) \<Rightarrow> bool \<Rightarrow> 'regex \<Rightarrow> 'regex \<Rightarrow> (string \<times> u32) list
     \<Rightarrow> string list \<times> unit run option" where
  "dlp_main find_iter lower oc cc_regex passport_regex keywords =
     (let header = ''=== Launching content-based DLP analysis ==='';
          results = analyze_parallel find_iter lower oc (main_engine cc_regex passport_regex keywords) main_documents
      in case results of
           Some (Ret rs) \<Rightarrow> (header # report rs, Some (Ret ()))
         | Some Panic \<Rightarrow> ([header], Some Panic)
         | None \<Rightarrow> ([header], None))"

section \<open>Lower-casing\<close>

text \<open>The keyword loop looks at the lower-case forms of the text and of the word only.\<close>

lemma word_loop_lower_Some:
  "word_loop lower oc lt doc ldoc w score pos a = Some r \<Longrightarrow> lower w = lower' w \<Longrightarrow>
   word_loop lower' oc lt doc ldoc w score pos a = Some r"
proof (induction rule: word_loop.raw_induct [rotated, consumes 1, case_names step])
  case (step word_loop' lower oc lt doc ldoc w score pos a r)
  then show ?case
    by (subst word_loop.simps) (auto split: run.splits option.splits)
qed

lemma word_loop_lower_cong:
  assumes "lower w = lower' w"
  shows "word_loop lower oc lt doc ldoc w score pos a = word_loop lower' oc lt doc ldoc w score pos a"
  using word_loop_lower_Some [of lower oc lt doc ldoc w score pos a _ lower']
    word_loop_lower_Some [of lower' oc lt doc ldoc w score pos a _ lower] assms
  by (metis option.exhaust)

lemma word_detections_ascii:
  assumes "lowercase_ok lower" and "is_ascii doc" and "is_ascii (fst e)"
  shows "word_detections lower lt doc e = word_detections (map ascii_lower) lt doc e"
proof -
  have "lower doc = map ascii_lower doc" and w: "lower (fst e) = map ascii_lower (fst e)"
    using assms by (simp_all add: lowercase_ok_def)
  have "word_loop lower oc lt doc ldoc (fst e) (snd e) 0 a = word_loop (map ascii_lower) oc lt doc ldoc (fst e) (snd e) 0 a"
    for oc ldoc a by (rule word_loop_lower_cong) (rule w)
  then show ?thesis
    unfolding word_detections_def \<open>lower doc = map ascii_lower doc\<close> by presburger
qed

section \<open>What the report says\<close>

text \<open>The matches of the two expressions in the documents.\<close>

definition finds_in_documents :: "('regex \<Rightarrow> string \<Rightarrow> string list) \<Rightarrow> 'regex \<Rightarrow> 'regex \<Rightarrow> bool" where
  "finds_in_documents find_iter cc_regex passport_regex \<longleftrightarrow>
     map (find_iter cc_regex) main_documents = [[''4000 1234 5678 9010''], [], [], [''1111-1111-1111-1111'']] \<and>
     map (find_iter passport_regex) main_documents = [[], [], [''4508 123456''], []]"

lemma documents_ascii: "list_all is_ascii main_documents"
  by code_simp

lemma keywords_ascii: "list_all (\<lambda>e. is_ascii (fst e) \<and> fst e \<noteq> []) main_keywords"
  by code_simp

text \<open>The scores of the dictionary, evaluated document by document.\<close>

definition keyword_score :: "string \<Rightarrow> nat" where
  "keyword_score doc = score_sum (concat (map (word_detections (map ascii_lower) ConfidentialKeyword doc) main_keywords))"

lemma keyword_scores: "map keyword_score main_documents = [0, 15, 0, 0]"
  by code_simp

lemma score_sum_det: "score_sum (map (det lt score) ms) = length ms * unat score"
  by (induction ms) (simp_all add: det_def)

lemma engine_score:
  assumes "lowercase_ok lower" and "mset keywords = mset main_keywords" and "is_ascii doc"
  shows "score_sum (all_detections find_iter lower doc (main_engine cc_regex passport_regex keywords)) =
    15 * length (filter validate_luhn (find_iter cc_regex doc)) + 25 * length (find_iter passport_regex doc) + keyword_score doc"
proof -
  have "word_detections lower ConfidentialKeyword doc e = word_detections (map ascii_lower) ConfidentialKeyword doc e"
    if "e \<in> set main_keywords" for e
    using word_detections_ascii [OF assms(1,3), of e] keywords_ascii that by (auto simp: list_all_iff)
  then have "score_sum (concat (map (word_detections lower ConfidentialKeyword doc) keywords)) = keyword_score doc"
    unfolding keyword_score_def detections_permute(2) [OF assms(2)] by (simp cong: map_cong)
  then show ?thesis
    by (simp add: main_engine_def add_rule_def engine_new_def rule_detections_def score_sum_det)
qed

lemma engine_words: "mset keywords = mset main_keywords \<Longrightarrow> ascii_words (main_engine cc_regex passport_regex keywords)"
proof -
  assume "mset keywords = mset main_keywords"
  then have "set keywords = set main_keywords" by (metis set_mset_mset)
  then show ?thesis
    using keywords_ascii by (auto simp: ascii_words_def main_engine_def add_rule_def engine_new_def list_all_iff)
qed

text \<open>
  The report of \<^verbatim>\<open>main\<close>: it returns in both build profiles, and only the document with the passport is blocked. The
  two card numbers fail the Luhn check, and the keywords add up to 15 points, below the threshold of 20.
\<close>
lemma dlp_main_report:
  assumes "lowercase_ok lower" and "mset keywords = mset main_keywords"
    and "finds_in_documents find_iter cc_regex passport_regex"
  shows "\<exists>results. dlp_main find_iter lower oc cc_regex passport_regex keywords =
       (''=== Launching content-based DLP analysis ==='' # report results, Some (Ret ()))
     \<and> map (\<lambda>r. (is_violation r, total_score r, severity r)) results =
         [(False, 0, Low), (False, 15, High), (True, 25, High), (False, 0, Low)]"
proof -
  let ?e = "main_engine cc_regex passport_regex keywords"
  let ?ds = "\<lambda>doc. all_detections find_iter lower doc ?e"
  have "map (\<lambda>doc. score_sum (?ds doc)) main_documents = [0, 15, 25, 0]"
    using documents_ascii keyword_scores assms(3) demo_cards_fail_luhn
    by (simp add: engine_score [OF assms(1,2)] main_documents_def finds_in_documents_def)
  then have scores: "map (score_sum \<circ> ?ds) main_documents = [0, 15, 25, 0]" by (simp add: comp_def)
  then have small: "score_sum (?ds doc) < 2 ^ 32" if "doc \<in> set main_documents" for doc
    using that by (auto simp: main_documents_def)
  have "analyze find_iter lower oc ?e doc = Some (Ret (result_of 20 (?ds doc)))" if "doc \<in> set main_documents" for doc
  proof -
    have "\<forall>r \<in> set (rules ?e). rule_runs lower doc r"
      using that documents_ascii
      by (intro ballI ascii_rules_run [OF assms(1) _ engine_words [OF assms(2)]]) (auto simp: list_all_iff)
    moreover have "threshold ?e = 20" by (simp add: main_engine_def add_rule_def engine_new_def)
    ultimately show ?thesis using small [OF that] by (simp add: analyze_returns)
  qed
  then have "analyze_parallel find_iter lower oc ?e main_documents = Some (Ret (map (\<lambda>doc. result_of 20 (?ds doc)) main_documents))"
    by (auto simp: analyze_parallel_is_map list_all2_map2 intro!: list.rel_refl_strong)
  moreover have "map (\<lambda>r. (is_violation r, total_score r, severity r)) (map (\<lambda>doc. result_of 20 (?ds doc)) main_documents) =
      map (\<lambda>n. (20 \<le> (of_nat n :: u32), of_nat n, severity_of (of_nat n))) (map (score_sum \<circ> ?ds) main_documents)"
    by (simp add: result_of_def comp_def)
  then have "map (\<lambda>r. (is_violation r, total_score r, severity r)) (map (\<lambda>doc. result_of 20 (?ds doc)) main_documents) =
      [(False, 0, Low), (False, 15, High), (True, 25, High), (False, 0, Low)]"
    unfolding scores by (simp add: severity_of_def)
  ultimately show ?thesis
    by (intro exI [of _ "map (\<lambda>doc. result_of 20 (?ds doc)) main_documents"]) (simp add: dlp_main_def Let_def del: map_map)
qed

text \<open>
  The example: the card expression as the sensors' reference matcher has it, and a matcher of
  \<^verbatim>\<open>\b\d{4}\s?\d{6}\b\<close> on ASCII text, where the optional separator is a white space character.
\<close>

definition passport_at :: "string \<Rightarrow> nat option" where
  "passport_at s =
     Option.bind (eat_four s) (\<lambda>r1.
       let r2 = (case r1 of c # cs \<Rightarrow> if c \<in> set [CHR '' '', CHR 0x09, CHR 0x0A, CHR 0x0B, CHR 0x0C, CHR 0x0D] then cs else r1 | [] \<Rightarrow> [])
       in if 6 \<le> length r2 \<and> list_all is_digit (take 6 r2) \<and> (drop 6 r2 = [] \<or> \<not> is_word (hd (drop 6 r2)))
          then Some (length s - length (drop 6 r2)) else None)"

function passport_scan :: "bool \<Rightarrow> string \<Rightarrow> string list" where
  "passport_scan after_word s =
     (if s = [] then []
      else case (if after_word then None else passport_at s) of
          Some n \<Rightarrow> take n s # passport_scan True (drop (max n 1) s)
        | None \<Rightarrow> passport_scan (is_word (hd s)) (tl s))"
  by pat_completeness auto
termination
proof (relation "measure (\<lambda>(b, s). length s)", simp)
  fix w :: bool and s :: string and n :: nat
  assume "s \<noteq> []"
  then show "((True, drop (max n 1) s), (w, s)) \<in> measure (\<lambda>(b, s). length s)"
    and "((is_word (hd s), tl s), (w, s)) \<in> measure (\<lambda>(b, s). length s)"
    by (cases s; simp add: max_def)+
qed

declare passport_scan.simps [simp del]

lemma reference_finds: "finds_in_documents (\<lambda>f. f) (card_scan False) (passport_scan False)"
  unfolding finds_in_documents_def
proof
  show "map (card_scan False) main_documents = [[''4000 1234 5678 9010''], [], [], [''1111-1111-1111-1111'']]" by code_simp
  show "map (passport_scan False) main_documents = [[], [], [''4508 123456''], []]" by code_simp
qed

lemma dlp_main_report_example:
  "\<exists>results. dlp_main (\<lambda>f. f) (map ascii_lower) True (card_scan False) (passport_scan False) (rev main_keywords) =
       (''=== Launching content-based DLP analysis ==='' # report results, Some (Ret ()))
     \<and> map is_violation results = [False, False, True, False]"
proof -
  obtain results where "dlp_main (\<lambda>f. f) (map ascii_lower) True (card_scan False) (passport_scan False) (rev main_keywords) =
       (''=== Launching content-based DLP analysis ==='' # report results, Some (Ret ()))"
    and "map (\<lambda>r. (is_violation r, total_score r, severity r)) results =
      [(False, 0, Low), (False, 15, High), (True, 25, High), (False, 0, Low)]"
    using dlp_main_report [OF demo_lowercase_ok _ reference_finds, of "rev main_keywords" True] by auto
  moreover from this(2) have "map fst (map (\<lambda>r. (is_violation r, total_score r, severity r)) results) = [False, False, True, False]"
    by simp
  ultimately show ?thesis by (auto simp: comp_def)
qed

end
