(* ===== verification/Spec2Isabelle.thy ===== *)
theory Spec2Isabelle
  imports Loaders Small_Samples Xdp_Router_User Xdp_Firewall Doge_Chain Dlp_Analyzer Lsm_Hooks Anti_Ddos Siem Dns_Telemetry
    Dns_Server S3_Server Ws_Server Ebpf_Protect Dlp_Fanotify Dlp_Sniffer Proc_Control Syscall_Tracer Vpp_Xdp
    Rs_Ngrok File_Sender Antidetect Doge_Network Dns_System Siem_Service Telemetry_Service Dlp_Main
begin

text \<open>
  A verification development for the programs of \<^verbatim>\<open>rust_samples\<close>: network filters in the kernel,
  data loss prevention, servers, log collectors and a small block chain, all in Rust. Each program stands
  on its own; what they share is the language, its standard library, and a few kinds of
  environment (kernel maps, concurrent maps, channels). The development follows this: a prelude for
  the language and its library, a theory of shared contracts, and one or two theories per program.

  \<^bold>\<open>Shared theories\<close>
  \<^item> \<open>Rust_Prelude\<close>: the integer types as words, panics as values (\<open>run\<close>), arithmetic with and without
    overflow checks (the flag \<open>oc\<close>), byte order, strings as byte lists, and the string functions of the
    standard library that the programs call.
  \<^item> \<open>Rust_Text\<close>, \<open>Rust_Net\<close>: digits, hexadecimal and decimal numbers, and the standard parsers of
    IPv4 and IPv6 addresses, with the round trips that the components use.
  \<^item> \<open>Rust_Utf8\<close>, \<open>Rust_Bytes\<close>: the validation of UTF-8 and its lossy decoding (always valid, and faithful on the
    ASCII parts of any bytes), and little-endian fields of memory with their round trips.
  \<^item> \<open>Interfaces\<close>: the contracts, as locales: transition systems with an invariant, runs of labelled steps and
    simulation of an abstract system, hash maps, kernel
    maps whose insertion can fail, semaphores, batching components. Their lemmas are proved once, and
    every locale is interpreted on the definitions of the components, or, for the containers, on
    the models of the standard containers.
  \<^item> \<open>Xdp\<close>: the packet buffer an XDP program sees, its loads and stores, and what it means for a program
    to stay inside the packet.
  \<^item> \<open>Aya\<close>: the calls with which user space loads and attaches kernel programs, and what they promise of
    the attachments of a system.
  \<^item> \<open>Pcap\<close>: opening a live capture and reading it up to its first error, as both sniffers do.

  \<^bold>\<open>Programs\<close>
  \<^item> \<open>Xdp_Router\<close> and \<open>Xdp_Router_User\<close> (\<^verbatim>\<open>xdp_router\<close>): the kernel program that looks a destination up and
    rewrites the frame, and the user-space half that fills its maps (\<^verbatim>\<open>try_xdp_router\<close>, \<^verbatim>\<open>ptr_at\<close>, the
    parsing of addresses, the neighbour table). The program refines an abstract forwarding function, never
    touches memory outside the packet, and what user space installs is what the kernel uses for an untagged frame with
    these destination bytes.
  \<^item> \<open>Xdp_Firewall\<close> (\<^verbatim>\<open>xdp_firewall\<close>): the filter and the reload of the block list. A packet is dropped
    exactly when its source lies in a listed network.
  \<^item> \<open>Doge_Chain\<close> (\<^verbatim>\<open>doge-rust\<close>): transactions, signatures, blocks, mining, the chain and the messages of
    the network. The chain is linked and its hashes are right in every reachable state; mining ends when some
    nonce meets the target (the loop is a partial function, so this is a theorem); signed
    transactions are accepted; \<^verbatim>\<open>main\<close> runs to its end next to the connections of its listener as long as none brings a
    block; and the gaps (unmined blocks, NaN amounts, odd hexadecimal senders, ambiguous digests).
  \<^item> \<open>Doge_Network\<close>: several nodes. A node that receives every broadcast of another one, from the same state on, is
    a replica of it; a missed block, a message longer than one read, or a genesis block of another second separates
    them for ever, so what the demonstration achieves at a peer depends on the second both were started.
  \<^item> \<open>Dlp_Analyzer\<close> (\<^verbatim>\<open>dlp/dlp_analyzer\<close>): the scoring engine. All loops meet one contract (\<open>scorer\<close>), from
    which the result, the independence of the dictionary order and the detection of keywords follow; the
    Luhn check detects single errors; the keyword loop ends for nonempty words and only for them. \<open>Dlp_Main\<close> is
    the program around it, with the report on its four documents.
  \<^item> \<open>Lsm_Hooks\<close> (\<^verbatim>\<open>lsm_hooks\<close>): the permission decision and the loader of its rules, from a line of the rule
    file to the value the hook returns, and the stale buffer that defeats it.
  \<^item> \<open>Anti_Ddos\<close> (\<^verbatim>\<open>anti_ddos\<close>): the handler on all its paths and any interleaving of handlers; permits and
    connection counts are never leaked (the clean-up is the drop of a scope guard, which runs once); how many checks of
    the rate can pass within a window of any run; the limit per IP that does not hold.
  \<^item> \<open>Siem\<close> (\<^verbatim>\<open>siem_clickhouse_processor\<close>) and \<open>Dns_Telemetry\<close> (\<^verbatim>\<open>dns_telemetry\<close>): two batching pipelines, both
    interpretations of \<open>batcher\<close>; nothing is lost or reordered between the channel and the batches, and
    what becomes of a batch for every outcome of the database and the local file. \<open>Siem_Service\<close> and \<open>Telemetry_Service\<close> are the two programs from
    their start to their end, with every interleaving of their tasks: all 50 events of the SIEM traffic
    end in a batch whose writer has run or in one that the end of \<^verbatim>\<open>main\<close> drops; the telemetry captures exactly what comes before
    the first error of the capture, and can end with records in its worker.
  \<^item> \<open>Dns_Server\<close> (\<^verbatim>\<open>dns_server\<close>): local records, cache, forwarding; an update is visible to queries whose SELECT does not
    fail. \<open>Dns_System\<close>: the start of the server and its concurrent requests, updates and cleaning, with the failures of
    SELECT in the labels of the steps. It simulates a zone that only updates change, a cached answer is a forwarded one whose time
    has not passed, a saved answer is found exactly until then, and the only outcome of a request that is not interrupted
    is that of the sequential handler.
  \<^item> \<open>S3_Server\<close> (\<^verbatim>\<open>s3_server\<close>): the requests and the accept loop; every answer is that of an abstract object
    store after the requests answered before, however the connections interleave.
  \<^item> \<open>Ws_Server\<close> (\<^verbatim>\<open>hl_websocket_server\<close>): sessions, their registry, broadcasts over the cluster, and the
    listener with its reconnections, which delivers the bus in order; and the start of the node.
  \<^item> \<open>Ebpf_Protect\<close> (\<^verbatim>\<open>ebpf_protect\<close>): the guard that scans the loaded kernel programs. All it does to the system
    is to remove pins; on a reliable kernel it removes every pin of an unauthorized program, and
    yet an attached program stays loaded.
  \<^item> \<open>Dlp_Fanotify\<close>, \<open>Dlp_Sniffer\<close> (\<^verbatim>\<open>dlp/dlp_fanotify_hooks\<close>, \<^verbatim>\<open>dlp/dlp_sniffer\<close>): every permission event is
    answered exactly once and with the verdict of the check; a card number is reported wherever it stands
    in a packet, and what exactly is printed; and what makes both miss data. The sniffer's \<^verbatim>\<open>main\<close> runs it next to the proxy.
  \<^item> \<open>Proc_Control\<close>, \<open>Syscall_Tracer\<close> (\<^verbatim>\<open>proc-control\<close>, \<^verbatim>\<open>syscall_tracer\<close>): programs on tracepoints and the loops
    that print their records: one line per call in order, and which fields of it are wrong.
  \<^item> \<open>Vpp_Xdp\<close> (\<^verbatim>\<open>vpp-xdp\<close>): the redirection to VPP and its loader.
  \<^item> \<open>Loaders\<close>: the \<^verbatim>\<open>main\<close> functions of \<^verbatim>\<open>xdp_router\<close>, \<^verbatim>\<open>xdp_firewall\<close>, \<^verbatim>\<open>lsm_hooks\<close>, \<^verbatim>\<open>proc-control\<close> and
    \<^verbatim>\<open>syscall_tracer\<close>. A loader that fails has attached at most its own programs; the firewall drops what
    was ever listed; process control never starts; the file hook fails open.
  \<^item> \<open>Rs_Ngrok\<close> (\<^verbatim>\<open>rs_ngrok\<close>): the tunnel as a step relation of server, client and tasks; visitors are paired in
    order, and one failed task ends the service.
  \<^item> \<open>File_Sender\<close> (\<^verbatim>\<open>file_sender\<close>): what is saved is a prefix of what was sent, all of it when no side fails.
  \<^item> \<open>Antidetect\<close> (\<^verbatim>\<open>antidetect_chrome\<close>): generated profiles are consistent whatever the random source draws;
    the script made from them, the noise it applies, and the sequence of calls on the browser.
  \<^item> \<open>Small_Samples\<close> (\<^verbatim>\<open>md5_hasher\<close>, \<^verbatim>\<open>tarantool\<close>): the digest of exactly the input, the stored procedure and the
    client.

  \<^bold>\<open>What is a parameter\<close>
  Code outside the repository is an argument of the definitions: kernel helpers, maps and ring buffers, the
  bpf and fanotify system calls, \<^verbatim>\<open>aya\<close>, DashMap, the tokio semaphore, SQLite, ClickHouse, the resolver, hash
  functions and signatures, OpenSSL, regular expressions, serialisers, random sources, Unicode
  lower-casing, and the outcome of every socket or file operation. What a theorem
  relies on of them is a hypothesis by name (a locale predicate or a definition), and a
  witness instantiates it. Operations that hold a lock are atomic steps; tasks interleave between them.
  A walk over a DashMap, and a writer of the SIEM processor, is also one step: registrations during the walk and
  appends of two writers to the local file at the same time are not modelled. A single TCP read is an argument with the bytes
  it returned; the statements on the network of nodes are for messages that arrive whole in one read.

  \<^bold>\<open>Bounds and fuel\<close>
  No definition uses fuel. Loops are structural or have a measure; the loops that can run forever
  (\<^verbatim>\<open>Block::mine\<close>, the keyword loop of \<^verbatim>\<open>DlpEngine::analyze\<close>, the walk over the events of one read of fanotify
  and the walk over the program ids of the guard) are partial functions into \<open>option\<close>, where \<^const>\<open>None\<close> is the
  run that does not end, and that they end is proved. The endless loop of a service takes a
  finite sequence of inputs or a number of rounds; a theorem about it holds for all of them. Counters
  that the code bounds (\<^verbatim>\<open>connection_count\<close>, lengths) are natural numbers; nonces, indices, scores and session
  numbers keep their width.

  \<^bold>\<open>Not modelled\<close>
  The build script of \<^verbatim>\<open>md5_hasher\<close> (it only drives a generator); the browser behind \<^verbatim>\<open>antidetect_chrome\<close> and what
  it does with the script; the library code behind the servers (HTTP, TLS, thread pools); logging set-up, and the length
  of sleeps and time-outs, which are steps that may happen at any time. The choice of the capture device in
  \<^verbatim>\<open>dlp_sniffer\<close> is not well typed and is modelled as its comments read. The padding of \<^verbatim>\<open>RouteKey\<close>, which no code sets,
  is taken to be equal on both sides of the map, and the two declarations of \<^verbatim>\<open>IpKey\<close> (with and without the prefix length) are one
  record. Imports and attributes have no model.
\<close>

end
